(* ===== verification/Prelude.thy ===== *)
theory Prelude
  imports Main "HOL-Library.Word" "HOL-Library.List_Lexorder" "HOL-Library.Char_ord"
    "HOL-Library.AList"
begin

section \<open>Prelude: results, options and lists\<close>

text \<open>
  Shared vocabulary of the development. Rust's \<open>Result<T, E>\<close> is the sum type
  \<open>'e + 'a\<close> with \<open>Ok\<close> and \<open>Err\<close> as abbreviations of its injections; \<open>?\<close> is
  \<open>res_bind\<close>; \<open>collect::<Result<Vec<_>, _>>\<close> is \<open>traverse\<close>. \<open>usize\<close> and
  \<open>u64\<close> are 64-bit words. The collections declared here are filled by the components:
  \<open>res_simps\<close> unfolds the result plumbing, \<open>io_simps\<close> the effect plumbing of theory
  World, \<open>path_simps\<close> the path layout, \<open>inv_intros\<close> holds preservation rules.
\<close>

named_theorems res_simps "unfolding of result and option plumbing"
named_theorems io_simps "unfolding of effectful plumbing"
named_theorems path_simps "the on-disk layout"
named_theorems inv_intros "preservation rules"

type_synonym u64 = "64 word"
type_synonym usize = "64 word"

abbreviation Ok :: "'a \<Rightarrow> 'e + 'a" where "Ok \<equiv> Inr"
abbreviation Err :: "'e \<Rightarrow> 'e + 'a" where "Err \<equiv> Inl"

subsection \<open>Results\<close>

definition res_bind :: "'e + 'a \<Rightarrow> ('a \<Rightarrow> 'e + 'b) \<Rightarrow> 'e + 'b" where
  "res_bind r f = (case r of Err e \<Rightarrow> Err e | Ok x \<Rightarrow> f x)"

definition map_err :: "('e \<Rightarrow> 'f) \<Rightarrow> 'e + 'a \<Rightarrow> 'f + 'a" where
  "map_err f r = (case r of Err e \<Rightarrow> Err (f e) | Ok x \<Rightarrow> Ok x)"

definition map_ok :: "('a \<Rightarrow> 'b) \<Rightarrow> 'e + 'a \<Rightarrow> 'e + 'b" where
  "map_ok f r = (case r of Err e \<Rightarrow> Err e | Ok x \<Rightarrow> Ok (f x))"

definition ok_or :: "'a option \<Rightarrow> 'e \<Rightarrow> 'e + 'a" where
  "ok_or x e = (case x of None \<Rightarrow> Err e | Some y \<Rightarrow> Ok y)"

definition is_ok :: "'e + 'a \<Rightarrow> bool" where
  "is_ok r = (case r of Err e \<Rightarrow> False | Ok x \<Rightarrow> True)"

definition is_err :: "'e + 'a \<Rightarrow> bool" where
  "is_err r = (case r of Err e \<Rightarrow> True | Ok x \<Rightarrow> False)"

lemma res_bind_simps [simp]:
  "res_bind (Ok x) f = f x"
  "res_bind (Err e) f = Err e"
  by (simp_all add: res_bind_def)

lemma res_bind_eq_Ok [res_simps]:
  "res_bind r f = Ok y \<longleftrightarrow> (\<exists>x. r = Ok x \<and> f x = Ok y)"
  by (cases r) simp_all

lemma res_bind_eq_Err [res_simps]:
  "res_bind r f = Err e \<longleftrightarrow> r = Err e \<or> (\<exists>x. r = Ok x \<and> f x = Err e)"
  by (cases r) simp_all

lemma map_err_simps [simp]:
  "map_err f (Ok x) = Ok x"
  "map_err f (Err e) = Err (f e)"
  by (simp_all add: map_err_def)

lemma map_err_eq_Ok [res_simps]: "map_err f r = Ok x \<longleftrightarrow> r = Ok x"
  by (cases r) simp_all

lemma map_err_eq_Err [res_simps]: "map_err f r = Err e \<longleftrightarrow> (\<exists>e'. r = Err e' \<and> e = f e')"
  by (cases r) auto

lemma map_ok_simps [simp]:
  "map_ok f (Ok x) = Ok (f x)"
  "map_ok f (Err e) = Err e"
  by (simp_all add: map_ok_def)

lemma map_ok_eq_Ok [res_simps]: "map_ok f r = Ok y \<longleftrightarrow> (\<exists>x. r = Ok x \<and> y = f x)"
  by (cases r) auto

lemma map_ok_eq_Err [res_simps]: "map_ok f r = Err e \<longleftrightarrow> r = Err e"
  by (cases r) auto

lemma ok_or_simps [simp]:
  "ok_or (Some x) e = Ok x"
  "ok_or None e = Err e"
  by (simp_all add: ok_or_def)

lemma ok_or_eq_Ok [res_simps]: "ok_or x e = Ok y \<longleftrightarrow> x = Some y"
  by (cases x) simp_all

lemma ok_or_eq_Err [res_simps]: "ok_or x e = Err e' \<longleftrightarrow> x = None \<and> e' = e"
  by (cases x) auto

lemma is_ok_simps [simp]: "is_ok (Ok x)" "\<not> is_ok (Err e)"
  by (simp_all add: is_ok_def)

lemma is_err_simps [simp]: "is_err (Err e)" "\<not> is_err (Ok x)"
  by (simp_all add: is_err_def)

fun traverse :: "('a \<Rightarrow> 'e + 'b) \<Rightarrow> 'a list \<Rightarrow> 'e + 'b list" where
  "traverse f [] = Ok []"
| "traverse f (x # xs) = res_bind (f x) (\<lambda>y. map_ok ((#) y) (traverse f xs))"

lemma traverse_Ok_list_all2:
  "traverse f xs = Ok ys \<longleftrightarrow> list_all2 (\<lambda>x y. f x = Ok y) xs ys"
  by (induction xs arbitrary: ys) (auto simp: res_simps list_all2_Cons1)

lemma traverse_Err_first:
  "traverse f xs = Err e \<Longrightarrow>
    \<exists>us x vs. xs = us @ x # vs \<and> f x = Err e \<and> (\<forall>u\<in>set us. is_ok (f u))"
proof (induction xs)
  case Nil
  then show ?case by simp
next
  case (Cons a xs)
  show ?case
  proof (cases "f a")
    case (Inl e')
    with Cons.prems have "e' = e" by simp
    with Inl show ?thesis by (intro exI[of _ "[]"]) auto
  next
    case (Inr y)
    with Cons.prems have "traverse f xs = Err e" by (cases "traverse f xs") auto
    with Cons.IH obtain us x vs where
      "xs = us @ x # vs" "f x = Err e" "\<forall>u\<in>set us. is_ok (f u)" by blast
    with Inr show ?thesis by (intro exI[of _ "a # us"]) auto
  qed
qed

subsection \<open>Options\<close>

definition opt_or :: "'a option \<Rightarrow> 'a option \<Rightarrow> 'a option" where
  "opt_or x y = (case x of Some v \<Rightarrow> Some v | None \<Rightarrow> y)"

lemma opt_or_simps [simp]:
  "opt_or (Some v) y = Some v"
  "opt_or None y = y"
  by (simp_all add: opt_or_def)

lemma opt_or_assoc: "opt_or (opt_or x y) z = opt_or x (opt_or y z)"
  by (cases x) simp_all

lemma opt_or_same [simp]: "opt_or x x = x" and opt_or_None [simp]: "opt_or x None = x"
  by (cases x; simp)+

lemma opt_or_idem [simp]: "opt_or (opt_or x y) y = opt_or x y"
  by (cases x) simp_all

subsection \<open>Lists\<close>

definition precedes :: "'a list \<Rightarrow> 'a \<Rightarrow> 'a \<Rightarrow> bool" where
  "precedes xs a b \<longleftrightarrow> (\<exists>us vs. xs = us @ b # vs \<and> a \<in> set us)"

lemma precedes_set: "precedes xs a b \<Longrightarrow> a \<in> set xs \<and> b \<in> set xs"
  by (auto simp: precedes_def)

lemma precedes_snoc: "precedes (xs @ [x]) a b \<longleftrightarrow> precedes xs a b \<or> b = x \<and> a \<in> set xs"
proof
  assume "precedes (xs @ [x]) a b"
  then obtain us vs where eq: "xs @ [x] = us @ b # vs" and a: "a \<in> set us"
    by (auto simp: precedes_def)
  show "precedes xs a b \<or> b = x \<and> a \<in> set xs"
  proof (cases vs rule: rev_cases)
    case Nil
    with eq a show ?thesis by auto
  next
    case (snoc ws w)
    with eq have "xs = us @ b # ws" by (metis append.assoc append_Cons butlast_snoc)
    with a show ?thesis by (auto simp: precedes_def)
  qed
next
  assume "precedes xs a b \<or> b = x \<and> a \<in> set xs"
  then show "precedes (xs @ [x]) a b"
  proof
    assume "precedes xs a b"
    then obtain us vs where "xs = us @ b # vs" "a \<in> set us" by (auto simp: precedes_def)
    then have "xs @ [x] = us @ b # (vs @ [x]) \<and> a \<in> set us" by simp
    then show ?thesis unfolding precedes_def by blast
  next
    assume "b = x \<and> a \<in> set xs"
    then have "xs @ [x] = xs @ b # [] \<and> a \<in> set xs" by simp
    then show ?thesis unfolding precedes_def by blast
  qed
qed

lemma list_all2_in_left: "list_all2 P xs ys \<Longrightarrow> x \<in> set xs \<Longrightarrow> \<exists>y\<in>set ys. P x y"
  by (induction rule: list_all2_induct) auto

lemma list_all2_in_right: "list_all2 P xs ys \<Longrightarrow> y \<in> set ys \<Longrightarrow> \<exists>x\<in>set xs. P x y"
  by (induction rule: list_all2_induct) auto

lemma in_set_map_filter: "y \<in> set (List.map_filter f xs) \<longleftrightarrow> (\<exists>x\<in>set xs. f x = Some y)"
  by (induction xs) (auto simp: map_filter_simps split: option.splits)

lemma find_SomeD:
  "List.find P xs = Some x \<Longrightarrow>
    \<exists>us vs. xs = us @ x # vs \<and> P x \<and> (\<forall>u\<in>set us. \<not> P u)"
proof (induction xs)
  case Nil
  then show ?case by simp
next
  case (Cons a xs)
  show ?case
  proof (cases "P a")
    case True
    with Cons.prems show ?thesis by (intro exI[of _ "[]"] exI[of _ xs]) simp
  next
    case False
    with Cons.prems Cons.IH obtain us vs where
      "xs = us @ x # vs" "P x" "\<forall>u\<in>set us. \<not> P u" by auto
    with False show ?thesis by (intro exI[of _ "a # us"] exI[of _ vs]) simp
  qed
qed

lemma find_split_Some:
  "P x \<Longrightarrow> \<forall>u\<in>set us. \<not> P u \<Longrightarrow> List.find P (us @ x # vs) = Some x"
  by (induction us) simp_all

lemma find_None_iff_all: "List.find P xs = None \<longleftrightarrow> (\<forall>x\<in>set xs. \<not> P x)"
  by (induction xs) auto

end
