(* ===== verification/Strs.thy ===== *)
theory Strs
  imports Prelude
begin

section \<open>Strings: the parts of Rust's str the program uses\<close>

text \<open>
  A Rust \<open>String\<close> is modelled by its UTF-8 bytes, one \<open>char\<close> per byte; \<open>uchars\<close>
  regroups the bytes into the Unicode characters that \<open>str::chars\<close> yields. Predicates the
  program applies to characters are ASCII tests, which no byte of a multi-byte character meets,
  so testing bytes and testing characters agree there. The section defines \<open>find\<close>,
  \<open>split\<close>, \<open>split_once\<close>, \<open>replace\<close>, \<open>trim\<close>, \<open>join\<close>, the decimal
  \<open>to_string\<close> of unsigned integers and \<open>u64::from_str\<close>, with the laws the components use.
\<close>

subsection \<open>Characters\<close>

definition code :: "char \<Rightarrow> nat" where
  "code c = of_char c"

definition is_digit :: "char \<Rightarrow> bool" where
  "is_digit c \<longleftrightarrow> 48 \<le> code c \<and> code c \<le> 57"

definition is_upper :: "char \<Rightarrow> bool" where
  "is_upper c \<longleftrightarrow> 65 \<le> code c \<and> code c \<le> 90"

definition is_lower :: "char \<Rightarrow> bool" where
  "is_lower c \<longleftrightarrow> 97 \<le> code c \<and> code c \<le> 122"

definition is_ascii_alphanumeric :: "char \<Rightarrow> bool" where
  "is_ascii_alphanumeric c \<longleftrightarrow> is_digit c \<or> is_upper c \<or> is_lower c"

definition to_upper :: "char \<Rightarrow> char" where
  "to_upper c = (if is_lower c then char_of (code c - 32) else c)"

definition to_lower :: "char \<Rightarrow> char" where
  "to_lower c = (if is_upper c then char_of (code c + 32) else c)"

lemma code_char_of [simp]: "n < 256 \<Longrightarrow> code (char_of n) = n"
  by (simp add: code_def)

lemma char_of_code [simp]: "char_of (code c) = c"
  by (simp add: code_def)

lemma code_inject [simp]: "code a = code b \<longleftrightarrow> a = b"
  by (simp add: code_def)

lemma to_upper_not_lower: "\<not> is_lower (to_upper c)"
  by (auto simp: to_upper_def is_lower_def)

lemma to_lower_idem [simp]: "to_lower (to_lower c) = to_lower c"
  by (auto simp: to_lower_def is_upper_def)

definition is_cont :: "char \<Rightarrow> bool" where
  \<comment> \<open>a UTF-8 continuation byte\<close>
  "is_cont c \<longleftrightarrow> 128 \<le> code c \<and> code c < 192"

function uchars :: "string \<Rightarrow> string list" where
  "uchars [] = []"
| "uchars (c # cs) = (c # takeWhile is_cont cs) # uchars (dropWhile is_cont cs)"
  by pat_completeness auto
termination
  by (relation "measure length") (auto simp: le_imp_less_Suc length_dropWhile_le)

definition chars_count :: "string \<Rightarrow> nat" where
  "chars_count s = length (uchars s)"

lemma concat_uchars [simp]: "concat (uchars s) = s"
  by (induction s rule: uchars.induct) simp_all

text \<open>
  Which byte sequences are UTF-8 (table 3-7 of the Unicode standard, the one that
  \<open>String::from_utf8\<close> and \<open>read_to_string\<close> accept): how many bytes follow a first byte, and what
  the second byte may be after it.
\<close>

definition utf8_follow :: "char \<Rightarrow> nat option" where
  "utf8_follow c =
     (if code c < 128 then Some 0
      else if 194 \<le> code c \<and> code c \<le> 223 then Some 1
      else if 224 \<le> code c \<and> code c \<le> 239 then Some 2
      else if 240 \<le> code c \<and> code c \<le> 244 then Some 3
      else None)"

definition utf8_second :: "char \<Rightarrow> char \<Rightarrow> bool" where
  \<comment> \<open>no overlong forms, no surrogates, nothing above the last code point\<close>
  "utf8_second c d \<longleftrightarrow>
     (if code c = 224 then 160 \<le> code d
      else if code c = 237 then code d < 160
      else if code c = 240 then 144 \<le> code d
      else if code c = 244 then code d < 144
      else True)"

fun utf8 :: "string \<Rightarrow> bool" where
  "utf8 [] \<longleftrightarrow> True"
| "utf8 (c # cs) \<longleftrightarrow> (case utf8_follow c of
       None \<Rightarrow> False
     | Some n \<Rightarrow> n \<le> length cs \<and> list_all is_cont (take n cs) \<and> list_all (utf8_second c) (take 1 (take n cs))
         \<and> utf8 (drop n cs))"

lemma utf8_append: "utf8 s \<Longrightarrow> utf8 t \<Longrightarrow> utf8 (s @ t)"
  by (induction s rule: utf8.induct) (auto split: option.splits)

lemma utf8_concat: "list_all utf8 ss \<Longrightarrow> utf8 (concat ss)"
  by (induction ss) (auto intro: utf8_append)

lemma utf8_ascii: "list_all (\<lambda>c. code c < 128) s \<Longrightarrow> utf8 s"
  by (induction s) (simp_all add: utf8_follow_def)

lemma utf8_samples:
  "utf8 ''a=1'' \<and> utf8 [CHR 0xC3, CHR 0xA9] \<and> \<not> utf8 [CHR 0xC3] \<and> \<not> utf8 [CHR 0xC0, CHR 0x80]
    \<and> \<not> utf8 [CHR 0xED, CHR 0xA0, CHR 0x80] \<and> \<not> utf8 [CHR 0xFF]"
  by code_simp

lemma uchars_ascii: "list_all (\<lambda>c. code c < 128) s \<Longrightarrow> uchars s = map (\<lambda>c. [c]) s"
proof (induction s)
  case Nil
  then show ?case by simp
next
  case (Cons c s)
  then have "takeWhile is_cont s = []" "dropWhile is_cont s = s"
    by (cases s; auto simp: is_cont_def)+
  with Cons show ?case by simp
qed

declare utf8.simps(2) [simp del]

subsection \<open>Searching and splitting\<close>

fun strip_prefix :: "string \<Rightarrow> string \<Rightarrow> string option" where
  "strip_prefix [] s = Some s"
| "strip_prefix (p # ps) [] = None"
| "strip_prefix (p # ps) (c # cs) = (if p = c then strip_prefix ps cs else None)"

definition starts_with :: "string \<Rightarrow> string \<Rightarrow> bool" where
  "starts_with s p \<longleftrightarrow> strip_prefix p s \<noteq> None"

definition ends_with_char :: "string \<Rightarrow> char \<Rightarrow> bool" where
  "ends_with_char s c \<longleftrightarrow> (case rev s of [] \<Rightarrow> False | d # _ \<Rightarrow> d = c)"

fun find_sub :: "string \<Rightarrow> string \<Rightarrow> (string \<times> string) option" where
  \<comment> \<open>first occurrence: what is before it and what is after it\<close>
  "find_sub p [] = (if p = [] then Some ([], []) else None)"
| "find_sub p (c # cs) =
     (case strip_prefix p (c # cs) of
        Some rest \<Rightarrow> Some ([], rest)
      | None \<Rightarrow> map_option (\<lambda>(a, b). (c # a, b)) (find_sub p cs))"

lemma strip_prefix_Some: "strip_prefix p s = Some r \<longleftrightarrow> s = p @ r"
  by (induction p s rule: strip_prefix.induct) auto

lemma strip_prefix_append [simp]: "strip_prefix p (p @ r) = Some r"
  by (simp add: strip_prefix_Some)

lemma starts_with_iff: "starts_with s p \<longleftrightarrow> (\<exists>r. s = p @ r)"
  by (auto simp: starts_with_def strip_prefix_Some)

lemma ends_with_char_iff: "ends_with_char s c \<longleftrightarrow> s \<noteq> [] \<and> last s = c"
  by (cases s rule: rev_cases) (auto simp: ends_with_char_def)

lemma find_sub_Some: "find_sub p s = Some (a, b) \<Longrightarrow> s = a @ p @ b"
proof (induction s arbitrary: a)
  case Nil
  then show ?case by (auto split: if_splits)
next
  case (Cons c cs)
  then show ?case by (auto simp: strip_prefix_Some split: option.splits)
qed

lemma find_sub_length: "p \<noteq> [] \<Longrightarrow> find_sub p s = Some (a, b) \<Longrightarrow> length b < length s"
  by (drule find_sub_Some) (cases p; simp)

lemma find_sub_None: "find_sub p s = None \<Longrightarrow> s \<noteq> a @ p @ b"
proof (induction s arbitrary: a)
  case Nil
  then show ?case by (auto split: if_splits)
next
  case (Cons c cs)
  then have np: "strip_prefix p (c # cs) = None" and n: "find_sub p cs = None"
    by (auto split: option.splits)
  show ?case
  proof (cases a)
    case Nil
    with np show ?thesis using strip_prefix_append[of p b] by auto
  next
    case (Cons x xs)
    with Cons.IH[OF n, of xs] show ?thesis by simp
  qed
qed

lemma find_sub_leftmost:
  "find_sub p s = Some (a, b) \<Longrightarrow> s = a' @ p @ b' \<Longrightarrow> length a \<le> length a'"
proof (induction s arbitrary: a a')
  case Nil
  then show ?case by (auto split: if_splits)
next
  case (Cons c cs)
  show ?case
  proof (cases "strip_prefix p (c # cs)")
    case None
    with Cons.prems(1) obtain x where x: "find_sub p cs = Some (x, b)" "a = c # x" by auto
    from None Cons.prems(2) obtain y where "a' = c # y" "cs = y @ p @ b'"
      by (cases a') (auto simp: strip_prefix_Some)
    with Cons.IH x show ?thesis by auto
  next
    case (Some r)
    with Cons.prems(1) show ?thesis by auto
  qed
qed

lemma find_sub_first_None: "p \<noteq> [] \<Longrightarrow> find_sub p s = Some (a, b) \<Longrightarrow> find_sub p a = None"
proof (rule ccontr)
  assume p: "p \<noteq> []" and f: "find_sub p s = Some (a, b)" and "find_sub p a \<noteq> None"
  then obtain x y where xy: "find_sub p a = Some (x, y)" by auto
  have a: "a = x @ p @ y" using xy by (rule find_sub_Some)
  have "s = a @ p @ b" using f by (rule find_sub_Some)
  with a have "s = x @ p @ (y @ p @ b)" by simp
  with f have "length a \<le> length x" by (rule find_sub_leftmost)
  with a p show False by simp
qed

lemma find_sub_prefix_None:
  assumes "find_sub p (a @ b) = None"
  shows "find_sub p a = None"
proof (rule ccontr)
  assume "find_sub p a \<noteq> None"
  then obtain x y where "find_sub p a = Some (x, y)" by auto
  then have "a @ b = x @ p @ (y @ b)" using find_sub_Some by fastforce
  with assms show False using find_sub_None by blast
qed

function split_pat :: "string \<Rightarrow> string \<Rightarrow> string list" where
  "split_pat p s =
     (if p = [] then [s]
      else case find_sub p s of None \<Rightarrow> [s] | Some (a, b) \<Rightarrow> a # split_pat p b)"
  by pat_completeness auto
termination
  by (relation "measure (\<lambda>(p, s). length s)") (auto simp: find_sub_length)

declare split_pat.simps [simp del]

lemma split_pat_None: "find_sub p s = None \<Longrightarrow> split_pat p s = [s]"
  by (subst split_pat.simps) simp

lemma split_pat_Some:
  "p \<noteq> [] \<Longrightarrow> find_sub p s = Some (a, b) \<Longrightarrow> split_pat p s = a # split_pat p b"
  by (subst split_pat.simps) simp

definition split_rest :: "string \<Rightarrow> string \<Rightarrow> (string \<times> string) option \<Rightarrow> string list" where
  "split_rest p s r = (case r of None \<Rightarrow> [s] | Some (a, b) \<Rightarrow> a # split_pat p b)"

lemma split_rest_code [code]:
  "split_rest p s None = [s]"
  "split_rest p s (Some (a, b)) = a # split_pat p b"
  by (simp_all add: split_rest_def)

lemma split_pat_code [code]:
  "split_pat p s = (if p = [] then [s] else split_rest p s (find_sub p s))"
  by (subst split_pat.simps) (simp add: split_rest_def)

lemma split_pat_pieces: "p \<noteq> [] \<Longrightarrow> x \<in> set (split_pat p s) \<Longrightarrow> find_sub p x = None"
proof (induction p s rule: split_pat.induct)
  case (1 p s)
  show ?case
  proof (cases "find_sub p s")
    case None
    with 1 show ?thesis by (simp add: split_pat_None)
  next
    case (Some ab)
    obtain a b where ab: "ab = (a, b)" by fastforce
    with Some have f: "find_sub p s = Some (a, b)" by simp
    with 1(2,3) consider "x = a" | "x \<in> set (split_pat p b)" by (auto simp: split_pat_Some)
    then show ?thesis
    proof cases
      case 1
      show ?thesis unfolding 1 using "1.prems"(1) f by (rule find_sub_first_None)
    next
      case 2
      show ?thesis using "1.prems"(1) f ab 2 by (intro "1.IH"[OF "1.prems"(1) f refl]) auto
    qed
  qed
qed

definition split_once :: "char \<Rightarrow> string \<Rightarrow> (string \<times> string) option" where
  "split_once c s = find_sub [c] s"

fun join :: "string \<Rightarrow> string list \<Rightarrow> string" where
  "join sep [] = []"
| "join sep [x] = x"
| "join sep (x # y # ys) = x @ sep @ join sep (y # ys)"

lemma join_Cons: "ys \<noteq> [] \<Longrightarrow> join sep (x # ys) = x @ sep @ join sep ys"
  by (cases ys) simp_all

lemma set_split_pat: "set s \<subseteq> set p \<union> (\<Union>x\<in>set (split_pat p s). set x)"
proof (induction p s rule: split_pat.induct)
  case (1 p s)
  show ?case
  proof (cases "p = []")
    case True
    then show ?thesis by (simp add: split_pat.simps[of "[]"])
  next
    case False
    show ?thesis
    proof (cases "find_sub p s")
      case None
      then show ?thesis by (simp add: split_pat_None)
    next
      case (Some ab)
      obtain a b where ab: "ab = (a, b)" by fastforce
      have "set b \<subseteq> set p \<union> (\<Union>x\<in>set (split_pat p b). set x)"
        using 1 False Some ab by blast
      moreover have "s = a @ p @ b" using Some ab find_sub_Some by blast
      ultimately show ?thesis using False Some ab by (auto simp: split_pat_Some)
    qed
  qed
qed

lemma find_sub_single_None: "find_sub [c] s = None \<longleftrightarrow> c \<notin> set s"
  by (induction s) (auto split: option.splits if_splits)

lemma find_sub_single_append: "c \<notin> set a \<Longrightarrow> find_sub [c] (a @ c # b) = Some (a, b)"
  by (induction a) auto

lemma split_once_append: "c \<notin> set a \<Longrightarrow> split_once c (a @ c # b) = Some (a, b)"
  by (simp add: split_once_def find_sub_single_append)

lemma split_once_Some: "split_once c s = Some (a, b) \<Longrightarrow> s = a @ c # b \<and> c \<notin> set a"
  unfolding split_once_def
proof (induction s arbitrary: a)
  case Nil
  then show ?case by simp
next
  case (Cons x xs)
  then show ?case by (cases "x = c") auto
qed

text \<open>
  The separator of job identifiers is two equal characters. Its first occurrence in
  \<open>a @ [c, c] @ b\<close> is right after \<open>a\<close> exactly when \<open>a\<close> has none and does not
  end with the character.
\<close>

lemma find_sub_double:
  assumes "find_sub [c, c] a = None" and "\<not> ends_with_char a c"
  shows "find_sub [c, c] (a @ c # c # b) = Some (a, b)"
  using assms
proof (induction a)
  case Nil
  then show ?case by simp
next
  case (Cons x a)
  show ?case
  proof (cases a)
    case Nil
    with Cons.prems show ?thesis by (auto simp: ends_with_char_iff)
  next
    case (Cons y ys)
    from Cons.prems(1) Cons have n: "find_sub [c, c] a = None"
      by (auto split: option.splits if_splits)
    from Cons.prems(2) Cons have e: "\<not> ends_with_char a c"
      by (auto simp: ends_with_char_iff)
    have "strip_prefix [c, c] (x # a) = None"
      using Cons.prems(1) by (auto split: option.splits)
    with Cons have "strip_prefix [c, c] ((x # a) @ c # c # b) = None"
      by (auto split: if_splits)
    with Cons.IH[OF n e] show ?thesis by simp
  qed
qed

lemma split_pat_join_double:
  assumes "\<forall>x\<in>set xs. find_sub [c, c] x = None" and "xs \<noteq> []"
    and "\<forall>x\<in>set (butlast xs). \<not> ends_with_char x c"
  shows "split_pat [c, c] (join [c, c] xs) = xs"
  using assms
proof (induction "[c, c]" xs rule: join.induct)
  case 1
  then show ?case by simp
next
  case (2 x)
  then show ?case by (simp add: split_pat_None)
next
  case (3 x y ys)
  then have "find_sub [c, c] (x @ c # c # join [c, c] (y # ys)) = Some (x, join [c, c] (y # ys))"
    by (intro find_sub_double) auto
  moreover have "split_pat [c, c] (join [c, c] (y # ys)) = y # ys"
    using 3 by auto
  ultimately show ?case by (simp add: split_pat_Some)
qed

subsection \<open>Replacing and trimming\<close>

lemma split_pat_join_single:
  "\<forall>x\<in>set xs. c \<notin> set x \<Longrightarrow> xs \<noteq> [] \<Longrightarrow> split_pat [c] (join [c] xs) = xs"
proof (induction xs)
  case (Cons x xs)
  show ?case
  proof (cases "xs = []")
    case True
    then show ?thesis using Cons.prems by (simp add: split_pat_None find_sub_single_None)
  next
    case False
    then have "find_sub [c] (join [c] (x # xs)) = Some (x, join [c] xs)"
      using Cons.prems by (simp add: join_Cons find_sub_single_append)
    then show ?thesis using Cons False by (simp add: split_pat_Some)
  qed
qed simp

definition replace_char :: "char \<Rightarrow> string \<Rightarrow> string \<Rightarrow> string" where
  "replace_char c r s = concat (map (\<lambda>d. if d = c then r else [d]) s)"

definition is_whitespace :: "string \<Rightarrow> bool" where
  \<comment> \<open>\<open>char::is_whitespace\<close>, on the UTF-8 bytes of one character\<close>
  "is_whitespace u \<longleftrightarrow> map code u \<in> set
     ([[9], [10], [11], [12], [13], [32], [194, 133], [194, 160], [225, 154, 128],
       [226, 128, 168], [226, 128, 169], [226, 128, 175], [226, 129, 159], [227, 128, 128]]
      @ map (\<lambda>n. [226, 128, n]) [128..<139])"

definition trim :: "string \<Rightarrow> string" where
  "trim s = concat (rev (dropWhile is_whitespace (rev (dropWhile is_whitespace (uchars s)))))"

subsection \<open>Decimal numbers\<close>

definition digit_char :: "nat \<Rightarrow> char" where
  "digit_char d = char_of (48 + d)"

definition digit_val :: "char \<Rightarrow> nat" where
  "digit_val c = code c - 48"

fun show_nat :: "nat \<Rightarrow> string" where
  "show_nat n = (if n < 10 then [digit_char n] else show_nat (n div 10) @ [digit_char (n mod 10)])"

declare show_nat.simps [simp del]

lemma show_nat_code [code]:
  "show_nat n = (if n < 10 then [digit_char n]
     else show_nat (n div 10) @ [digit_char (n mod 10)])"
  by (rule show_nat.simps)

definition digits_val :: "string \<Rightarrow> nat" where
  "digits_val ds = foldl (\<lambda>n c. 10 * n + digit_val c) 0 ds"

definition parse_u64 :: "string \<Rightarrow> u64 option" where
  \<comment> \<open>\<open>u64::from_str\<close> and, on the 64-bit targets, \<open>usize::from_str\<close>: an optional
     plus sign, at least one digit, and no overflow\<close>
  "parse_u64 s =
     (let ds = (case s of [] \<Rightarrow> [] | c # cs \<Rightarrow> if c = CHR ''+'' then cs else s)
      in if ds = [] \<or> \<not> list_all is_digit ds then None
         else if digits_val ds < 2 ^ 64 then Some (of_nat (digits_val ds)) else None)"

lemma parse_u64_code [code]:
  "parse_u64 s =
     (let ds = (case s of [] \<Rightarrow> [] | c # cs \<Rightarrow> if c = CHR ''+'' then cs else s)
      in if ds = [] \<or> \<not> list_all is_digit ds then None
         else if int (digits_val ds) < 18446744073709551616 then Some (of_nat (digits_val ds))
         else None)"
proof -
  have "n < 2 ^ 64 \<longleftrightarrow> int n < 18446744073709551616" for n :: nat by auto
  then show ?thesis unfolding parse_u64_def by presburger
qed

lemma is_digit_digit_char: "d < 10 \<Longrightarrow> is_digit (digit_char d)"
  by (simp add: is_digit_def digit_char_def)

lemma digit_val_digit_char [simp]: "d < 10 \<Longrightarrow> digit_val (digit_char d) = d"
  by (simp add: digit_val_def digit_char_def)

lemma show_nat_digits: "list_all is_digit (show_nat n)"
proof (induction n rule: show_nat.induct)
  case (1 n)
  then show ?case
    by (subst show_nat.simps) (auto simp: is_digit_digit_char)
qed

lemma show_nat_nonempty: "show_nat n \<noteq> []"
  by (subst show_nat.simps) simp

lemma digits_val_snoc: "digits_val (ds @ [c]) = 10 * digits_val ds + digit_val c"
  by (simp add: digits_val_def)

lemma digits_val_show_nat [simp]: "digits_val (show_nat n) = n"
proof (induction n rule: show_nat.induct)
  case (1 n)
  show ?case
  proof (cases "n < 10")
    case True
    then show ?thesis by (subst show_nat.simps) (simp add: digits_val_def)
  next
    case False
    with 1 show ?thesis by (subst show_nat.simps) (simp add: digits_val_snoc)
  qed
qed

lemma show_nat_inject [simp]: "show_nat m = show_nat n \<longleftrightarrow> m = n"
  using digits_val_show_nat by metis

lemma digit_not_plus: "is_digit c \<Longrightarrow> c \<noteq> CHR ''+''"
  by (auto simp: is_digit_def code_def)

lemma show_nat_no_plus: "show_nat n = c # cs \<Longrightarrow> c \<noteq> CHR ''+''"
  using show_nat_digits[of n] digit_not_plus by auto

lemma parse_u64_show: "parse_u64 (show_nat (unat (w :: u64))) = Some w"
proof -
  obtain c cs where s: "show_nat (unat w) = c # cs"
    using show_nat_nonempty by (cases "show_nat (unat w)") auto
  then have ds: "(case show_nat (unat w) of [] \<Rightarrow> [] | c # cs \<Rightarrow>
      if c = CHR ''+'' then cs else show_nat (unat w)) = show_nat (unat w)"
    using show_nat_no_plus[OF s] by simp
  have "unat w < 2 ^ LENGTH(64)" by (rule unsigned_less)
  then show ?thesis
    unfolding parse_u64_def ds Let_def
    using show_nat_digits[of "unat w"] show_nat_nonempty[of "unat w"] by simp
qed

lemma parse_u64_chars:
  "parse_u64 s = Some n \<Longrightarrow> c \<in> set s \<Longrightarrow> is_digit c \<or> c = CHR ''+''"
  by (auto simp: parse_u64_def Let_def list_all_iff split: list.splits if_splits)

end
