(* ===== verification/Paths.thy ===== *)
theory Paths
  imports Strs
begin

section \<open>Paths: std::path on Unix\<close>

text \<open>
  A \<open>PathBuf\<close> is modelled by its components, which is what \<open>Path\<close>'s equality, order,
  \<open>parent\<close>, \<open>file_name\<close>, \<open>components\<close>, \<open>join\<close> and \<open>with_extension\<close>
  see. \<open>path_of\<close> is the parse of the text that \<open>Path::components\<close> makes: repeated
  separators and inner dots vanish, dot-dot stays.
\<close>

datatype Component = RootDir | CurDir | ParentDir | Normal string

type_synonym Path = "Component list"

text \<open>\<open>Component\<close> derives \<open>Ord\<close>: constructor order, then the name.\<close>

fun comp_rank :: "Component \<Rightarrow> nat" where
  "comp_rank RootDir = 0"
| "comp_rank CurDir = 1"
| "comp_rank ParentDir = 2"
| "comp_rank (Normal _) = 3"

fun comp_name :: "Component \<Rightarrow> string" where
  "comp_name (Normal s) = s"
| "comp_name _ = []"

lemma comp_key_inject: "comp_rank a = comp_rank b \<Longrightarrow> comp_name a = comp_name b \<Longrightarrow> a = b"
  by (cases a; cases b) simp_all

instantiation Component :: linorder
begin

definition less_eq_Component :: "Component \<Rightarrow> Component \<Rightarrow> bool" where
  "less_eq_Component a b \<longleftrightarrow>
     comp_rank a < comp_rank b \<or> comp_rank a = comp_rank b \<and> comp_name a \<le> comp_name b"

definition less_Component :: "Component \<Rightarrow> Component \<Rightarrow> bool" where
  "less_Component a b \<longleftrightarrow>
     comp_rank a < comp_rank b \<or> comp_rank a = comp_rank b \<and> comp_name a < comp_name b"

instance
  by standard (auto simp: less_eq_Component_def less_Component_def intro: comp_key_inject)

end

definition normal_components :: "string list \<Rightarrow> Path" where
  "normal_components ps = List.map_filter
     (\<lambda>p. if p = [] \<or> p = ''.'' then None
          else if p = ''..'' then Some ParentDir else Some (Normal p)) ps"

definition path_of :: "string \<Rightarrow> Path" where
  "path_of s =
     (let parts = split_pat ''/'' s
      in if starts_with s ''/'' then RootDir # normal_components parts
         else case parts of
                [] \<Rightarrow> []
              | p # ps \<Rightarrow> (if p = ''.'' then [CurDir] else []) @ normal_components parts)"

definition is_absolute :: "Path \<Rightarrow> bool" where
  "is_absolute p \<longleftrightarrow> (case p of RootDir # _ \<Rightarrow> True | _ \<Rightarrow> False)"

definition path_join :: "Path \<Rightarrow> Path \<Rightarrow> Path" where
  \<comment> \<open>\<open>Path::join\<close>: an absolute right-hand side replaces the left one\<close>
  "path_join p q =
     (if is_absolute q then q
      else if p = [] then q
      else p @ filter (\<lambda>c. c \<noteq> CurDir) q)"

definition join_str :: "Path \<Rightarrow> string \<Rightarrow> Path" where
  "join_str p s = path_join p (path_of s)"

definition path_parent :: "Path \<Rightarrow> Path option" where
  "path_parent p = (case rev p of [] \<Rightarrow> None | RootDir # _ \<Rightarrow> None | _ # cs \<Rightarrow> Some (rev cs))"

definition file_name :: "Path \<Rightarrow> string option" where
  "file_name p = (case rev p of Normal n # _ \<Rightarrow> Some n | _ \<Rightarrow> None)"

definition rsplit_once :: "char \<Rightarrow> string \<Rightarrow> (string \<times> string) option" where
  "rsplit_once c s = map_option (\<lambda>(a, b). (rev b, rev a)) (split_once c (rev s))"

definition file_stem_of :: "string \<Rightarrow> string" where
  "file_stem_of n =
     (case rsplit_once CHR ''.'' n of
        None \<Rightarrow> n
      | Some (before, after) \<Rightarrow> if before = [] then n else before)"

definition with_extension :: "Path \<Rightarrow> string \<Rightarrow> Path" where
  "with_extension p ext =
     (case rev p of
        Normal n # cs \<Rightarrow>
          rev cs @ [Normal (file_stem_of n @ (if ext = [] then [] else ''.'' @ ext))]
      | _ \<Rightarrow> p)"

definition comp_display :: "Component \<Rightarrow> string" where
  "comp_display c = (case c of RootDir \<Rightarrow> [] | CurDir \<Rightarrow> ''.'' | ParentDir \<Rightarrow> ''..'' | Normal s \<Rightarrow> s)"

definition path_display :: "Path \<Rightarrow> string" where
  "path_display p =
     (case p of
        RootDir # cs \<Rightarrow> ''/'' @ join ''/'' (map comp_display cs)
      | _ \<Rightarrow> join ''/'' (map comp_display p))"

definition path_starts_with :: "Path \<Rightarrow> Path \<Rightarrow> bool" where
  "path_starts_with p base \<longleftrightarrow> take (length base) p = base"

subsection \<open>Names that are one component\<close>

text \<open>
  A name with no separator that is not a dot or a dot-dot parses to one normal component, so
  joining it goes down exactly one directory.
\<close>

definition plain_name :: "string \<Rightarrow> bool" where
  "plain_name s \<longleftrightarrow> s \<noteq> [] \<and> s \<noteq> ''.'' \<and> s \<noteq> ''..'' \<and> CHR ''/'' \<notin> set s"

lemma path_of_plain:
  assumes "plain_name s"
  shows "path_of s = [Normal s]"
proof -
  have n: "CHR ''/'' \<notin> set s" and ne: "s \<noteq> []" "s \<noteq> ''.''" "s \<noteq> ''..''"
    using assms by (auto simp: plain_name_def)
  have "\<not> starts_with s ''/''" using n by (auto simp: starts_with_iff)
  moreover have "split_pat ''/'' s = [s]" using n by (simp add: split_pat_None find_sub_single_None)
  ultimately show ?thesis
    using ne by (simp add: path_of_def normal_components_def map_filter_simps)
qed

lemma join_str_plain [path_simps]: "plain_name s \<Longrightarrow> p \<noteq> [] \<Longrightarrow> join_str p s = p @ [Normal s]"
  by (simp add: join_str_def path_of_plain path_join_def is_absolute_def)

lemma join_str_plain_ne: "plain_name s \<Longrightarrow> join_str p s \<noteq> []"
  by (simp add: join_str_def path_of_plain path_join_def is_absolute_def)

lemma file_name_snoc [simp]: "file_name (p @ [Normal n]) = Some n"
  by (simp add: file_name_def)

lemma path_parent_snoc [simp]: "c \<noteq> RootDir \<Longrightarrow> path_parent (p @ [c]) = Some p"
  by (cases c) (simp_all add: path_parent_def)

lemma path_parent_Some: "path_parent p = Some q \<Longrightarrow> \<exists>c. p = q @ [c]"
  by (cases p rule: rev_cases) (auto simp: path_parent_def split: Component.splits)

lemma path_starts_with_append [simp]: "path_starts_with (p @ q) p"
  by (simp add: path_starts_with_def)

lemma path_starts_with_iff: "path_starts_with p base \<longleftrightarrow> (\<exists>q. p = base @ q)"
  by (metis append_eq_conv_conj path_starts_with_append path_starts_with_def append_take_drop_id)

subsection \<open>The temporary name differs from the target\<close>

lemma rsplit_once_Some:
  "rsplit_once c s = Some (a, b) \<Longrightarrow> s = a @ c # b \<and> c \<notin> set b"
proof -
  assume "rsplit_once c s = Some (a, b)"
  then have "split_once c (rev s) = Some (rev b, rev a)"
    by (auto simp: rsplit_once_def)
  then have "rev s = rev b @ c # rev a \<and> c \<notin> set (rev b)" by (rule split_once_Some)
  then have "rev (rev s) = rev (rev b @ c # rev a) \<and> c \<notin> set b" by simp
  then show ?thesis by simp
qed

lemma file_stem_of_cases:
  "file_stem_of n = n \<or> (\<exists>e. n = file_stem_of n @ ''.'' @ e \<and> CHR ''.'' \<notin> set e)"
  by (auto simp: file_stem_of_def dest: rsplit_once_Some split: option.splits)

lemma with_extension_snoc:
  "ext \<noteq> [] \<Longrightarrow> with_extension (p @ [Normal n]) ext = p @ [Normal (file_stem_of n @ ''.'' @ ext)]"
  by (simp add: with_extension_def)

lemma with_extension_neq:
  assumes "CHR ''.'' \<in> set ext"
  shows "with_extension (p @ [Normal n]) ext \<noteq> p @ [Normal n]"
proof
  have ne: "ext \<noteq> []" using assms by auto
  assume "with_extension (p @ [Normal n]) ext = p @ [Normal n]"
  then have eq: "file_stem_of n @ ''.'' @ ext = n" using ne by (simp add: with_extension_snoc)
  have "file_stem_of n = n \<or> (\<exists>e. n = file_stem_of n @ ''.'' @ e \<and> CHR ''.'' \<notin> set e)"
    by (rule file_stem_of_cases)
  then show False
  proof
    assume "file_stem_of n = n"
    with eq show False by simp
  next
    assume "\<exists>e. n = file_stem_of n @ ''.'' @ e \<and> CHR ''.'' \<notin> set e"
    then obtain e where "n = file_stem_of n @ ''.'' @ e" "CHR ''.'' \<notin> set e" by blast
    with eq have "file_stem_of n @ ''.'' @ e = file_stem_of n @ ''.'' @ ext" by simp
    then have "e = ext" by simp
    with \<open>CHR ''.'' \<notin> set e\<close> assms show False by simp
  qed
qed

end
