(* ===== verification/BTree.thy ===== *)
theory BTree
  imports Prelude
begin

section \<open>BTreeMap: ordered maps\<close>

text \<open>
  \<open>std::collections::BTreeMap\<close> as the list of its entries in key order, which is all that
  its lookups and iterations show. The order invariant is in the type, so no theorem needs it as
  a hypothesis. \<open>bt_insert\<close> replaces the value of a present key, as
  \<open>BTreeMap::insert\<close> does; \<open>bt_of_list\<close> is \<open>collect\<close>, where the last of two
  equal keys wins. A \<open>BTreeSet\<close> is a map to \<open>unit\<close>.
\<close>

typedef (overloaded) ('k::linorder, 'v) btree =
  "{xs :: ('k \<times> 'v) list. sorted_wrt (<) (map fst xs)}"
  by (rule exI[of _ "[]"]) simp

setup_lifting type_definition_btree

fun entries_insert :: "'k::linorder \<Rightarrow> 'v \<Rightarrow> ('k \<times> 'v) list \<Rightarrow> ('k \<times> 'v) list" where
  "entries_insert k v [] = [(k, v)]"
| "entries_insert k v ((k', v') # xs) =
     (if k < k' then (k, v) # (k', v') # xs
      else if k = k' then (k, v) # xs
      else (k', v') # entries_insert k v xs)"

lemma set_fst_entries_insert:
  "fst ` set (entries_insert k v xs) = insert k (fst ` set xs)"
proof (induction xs)
  case Nil
  then show ?case by simp
next
  case (Cons x xs)
  then show ?case by (cases x) (simp, blast)
qed

lemma sorted_fst_Cons:
  "sorted_wrt (<) (map fst ((k, v) # xs)) \<longleftrightarrow>
    (\<forall>y\<in>fst ` set xs. k < y) \<and> sorted_wrt (<) (map fst xs)"
  by simp

lemma sorted_entries_insert:
  "sorted_wrt (<) (map fst xs) \<Longrightarrow> sorted_wrt (<) (map fst (entries_insert k v xs))"
proof (induction k v xs rule: entries_insert.induct)
  case (1 k v)
  then show ?case by simp
next
  case (2 k v k' v' xs)
  then have lt: "\<forall>y\<in>fst ` set xs. k' < y" and so: "sorted_wrt (<) (map fst xs)"
    unfolding sorted_fst_Cons by auto
  consider "k < k'" | "k = k'" | "k' < k" by fastforce
  then show ?case
  proof cases
    case 1
    with lt have "\<forall>y\<in>fst ` set xs. k < y" using less_trans by blast
    with 1 2(2) show ?thesis by (simp add: sorted_fst_Cons)
  next
    case 2
    with lt so show ?thesis by (simp add: sorted_fst_Cons)
  next
    case 3
    then have ne: "\<not> k < k'" "k \<noteq> k'" by auto
    then have so': "sorted_wrt (<) (map fst (entries_insert k v xs))" using "2.IH" so by blast
    have "\<forall>y\<in>fst ` set (entries_insert k v xs). k' < y"
      using lt 3 by (simp add: set_fst_entries_insert)
    with so' ne show ?thesis by (simp add: sorted_fst_Cons)
  qed
qed

lemma map_of_entries_insert:
  "sorted_wrt (<) (map fst xs) \<Longrightarrow> map_of (entries_insert k v xs) = (map_of xs)(k \<mapsto> v)"
  by (induction xs) auto

lift_definition bt_entries :: "('k::linorder, 'v) btree \<Rightarrow> ('k \<times> 'v) list" is "\<lambda>xs. xs" .

lift_definition bt_empty :: "('k::linorder, 'v) btree" is "[]" by simp

lift_definition bt_insert :: "'k::linorder \<Rightarrow> 'v \<Rightarrow> ('k, 'v) btree \<Rightarrow> ('k, 'v) btree"
  is entries_insert by (rule sorted_entries_insert)

lift_definition bt_remove :: "'k::linorder \<Rightarrow> ('k, 'v) btree \<Rightarrow> ('k, 'v) btree"
  is "\<lambda>k. filter (\<lambda>e. fst e \<noteq> k)"
  by (auto simp: sorted_wrt_map intro: sorted_wrt_filter)

lift_definition bt_map :: "('k::linorder \<Rightarrow> 'v \<Rightarrow> 'w) \<Rightarrow> ('k, 'v) btree \<Rightarrow> ('k, 'w) btree"
  is "\<lambda>f. map (\<lambda>(k, v). (k, f k v))"
  by (simp add: case_prod_unfold comp_def)

definition bt_get :: "('k::linorder, 'v) btree \<Rightarrow> 'k \<Rightarrow> 'v option" where
  "bt_get m k = map_of (bt_entries m) k"

definition bt_keys :: "('k::linorder, 'v) btree \<Rightarrow> 'k list" where
  "bt_keys m = map fst (bt_entries m)"

definition bt_values :: "('k::linorder, 'v) btree \<Rightarrow> 'v list" where
  "bt_values m = map snd (bt_entries m)"

definition bt_contains :: "('k::linorder, 'v) btree \<Rightarrow> 'k \<Rightarrow> bool" where
  "bt_contains m k \<longleftrightarrow> bt_get m k \<noteq> None"

definition bt_is_empty :: "('k::linorder, 'v) btree \<Rightarrow> bool" where
  "bt_is_empty m \<longleftrightarrow> bt_entries m = []"

definition bt_len :: "('k::linorder, 'v) btree \<Rightarrow> nat" where
  "bt_len m = length (bt_entries m)"

definition bt_of_list :: "('k::linorder \<times> 'v) list \<Rightarrow> ('k, 'v) btree" where
  "bt_of_list xs = fold (\<lambda>(k, v). bt_insert k v) xs bt_empty"

lemma bt_eq_iff: "m = m' \<longleftrightarrow> bt_entries m = bt_entries m'"
  by transfer simp

instantiation btree :: (linorder, equal) equal
begin

definition equal_btree :: "('a, 'b) btree \<Rightarrow> ('a, 'b) btree \<Rightarrow> bool" where
  "equal_btree m m' \<longleftrightarrow> bt_entries m = bt_entries m'"

instance
  by standard (simp add: equal_btree_def bt_eq_iff)

end

lemma bt_entries_empty [simp]: "bt_entries bt_empty = []"
  by transfer simp

lemma bt_entries_insert: "bt_entries (bt_insert k v m) = entries_insert k v (bt_entries m)"
  by transfer simp

lemma bt_sorted: "sorted_wrt (<) (bt_keys m)"
  unfolding bt_keys_def by transfer simp

lemma bt_distinct_keys [simp]: "distinct (bt_keys m)"
  using bt_sorted strict_sorted_iff by blast

lemma bt_distinct_entries [simp]: "distinct (bt_entries m)"
  using bt_distinct_keys[of m] unfolding bt_keys_def distinct_map by blast

lemma bt_get_empty [simp]: "bt_get bt_empty k = None"
  by (simp add: bt_get_def)

lemma bt_get_insert: "bt_get (bt_insert k v m) = (bt_get m)(k \<mapsto> v)"
proof
  fix x
  have "map_of (bt_entries (bt_insert k v m)) = (map_of (bt_entries m))(k \<mapsto> v)"
    unfolding bt_entries_insert
    by (rule map_of_entries_insert) (use bt_sorted[of m] in \<open>simp add: bt_keys_def\<close>)
  then show "bt_get (bt_insert k v m) x = ((bt_get m)(k \<mapsto> v)) x"
    by (simp add: bt_get_def)
qed

lemma bt_get_insert_same [simp]: "bt_get (bt_insert k v m) k = Some v"
  by (simp add: bt_get_insert)

lemma bt_get_insert_other [simp]: "k' \<noteq> k \<Longrightarrow> bt_get (bt_insert k v m) k' = bt_get m k'"
  by (simp add: bt_get_insert)

lemma map_of_filter_neq:
  "map_of (filter (\<lambda>e. fst e \<noteq> k) xs) k' = (if k' = k then None else map_of xs k')"
  by (induction xs) auto

lemma bt_get_remove: "bt_get (bt_remove k m) k' = (if k' = k then None else bt_get m k')"
  unfolding bt_get_def by (simp add: bt_remove.rep_eq bt_entries.rep_eq map_of_filter_neq)

lemma bt_get_Some_entries: "bt_get m k = Some v \<longleftrightarrow> (k, v) \<in> set (bt_entries m)"
proof -
  have "distinct (map fst (bt_entries m))" using bt_distinct_keys by (simp add: bt_keys_def)
  then show ?thesis by (simp add: bt_get_def)
qed

lemma bt_in_keys: "k \<in> set (bt_keys m) \<longleftrightarrow> (\<exists>v. bt_get m k = Some v)"
  by (force simp: bt_keys_def bt_get_Some_entries)

lemma bt_in_keys_get: "k \<in> set (bt_keys m) \<longleftrightarrow> bt_get m k \<noteq> None"
  by (simp add: bt_in_keys)

lemma bt_in_values: "v \<in> set (bt_values m) \<longleftrightarrow> (\<exists>k. bt_get m k = Some v)"
  by (force simp: bt_values_def bt_get_Some_entries)

lemma bt_contains_iff: "bt_contains m k \<longleftrightarrow> k \<in> set (bt_keys m)"
  by (simp add: bt_contains_def bt_in_keys_get)

lemma bt_keys_insert [simp]: "set (bt_keys (bt_insert k v m)) = insert k (set (bt_keys m))"
  by (auto simp: bt_in_keys_get bt_get_insert simp del: not_None_eq split: if_splits)

lemma bt_keys_empty [simp]: "bt_keys bt_empty = []"
  by (simp add: bt_keys_def)

lemma bt_keys_eqI: "bt_get m = bt_get m' \<Longrightarrow> bt_keys m = bt_keys m'"
  by (rule strict_sorted_equal) (auto simp: bt_sorted bt_in_keys)

lemma bt_eqI: "(\<And>k. bt_get m k = bt_get m' k) \<Longrightarrow> m = m'"
proof -
  assume g: "\<And>k. bt_get m k = bt_get m' k"
  have e: "bt_entries m = map (\<lambda>k. (k, the (bt_get m k))) (bt_keys m)" for m :: "('a, 'b) btree"
    unfolding bt_keys_def map_map comp_def
    by (rule map_idI[symmetric]) (auto simp: bt_get_Some_entries[THEN iffD2])
  have "bt_keys m = bt_keys m'" using g by (intro bt_keys_eqI) blast
  with g e[of m] e[of m'] show ?thesis by (simp add: bt_eq_iff)
qed

lemma map_of_map_values: "map_of (map (\<lambda>(k, v). (k, f k v)) xs) k = map_option (f k) (map_of xs k)"
  by (induction xs) auto

lemma bt_get_map: "bt_get (bt_map f m) k = map_option (f k) (bt_get m k)"
  unfolding bt_get_def by (simp add: bt_map.rep_eq bt_entries.rep_eq map_of_map_values)

lemma bt_keys_map [simp]: "bt_keys (bt_map f m) = bt_keys m"
  by (simp add: bt_keys_def bt_entries.rep_eq bt_map.rep_eq case_prod_unfold comp_def)

lemma bt_len_keys: "bt_len m = length (bt_keys m)"
  by (simp add: bt_len_def bt_keys_def)

lemma bt_is_empty_iff: "bt_is_empty m \<longleftrightarrow> bt_keys m = []"
  by (simp add: bt_is_empty_def bt_keys_def)

lemma bt_get_of_list: "bt_get (bt_of_list xs) = map_of (rev xs)"
proof (induction xs rule: rev_induct)
  case Nil
  then show ?case by (simp add: bt_of_list_def fun_eq_iff)
next
  case (snoc x xs)
  then show ?case by (cases x) (simp add: bt_of_list_def bt_get_insert)
qed

lemma bt_of_list_simps [code]:
  "bt_of_list xs = fold (\<lambda>(k, v). bt_insert k v) xs bt_empty"
  by (simp add: bt_of_list_def)

end
