(* ===== verification/Domain.thy ===== *)
theory Domain
  imports Paths BTree
begin

section \<open>Data: flows, jobs, runs, errors\<close>

text \<open>
  The data the program passes around. Types of the two upstream crates (D2,
  \<open>gaussian_job_shared\<close>; A1, \<open>slurm_async_runner\<close>) are modelled by the fields the
  program's own struct literals and matches name. A value of an A1 type that the program only
  copies (time limit, array spec, dependency, resource spec, mail types) is carried by its TOML
  text; a UUID by its canonical text, which \<open>to_string\<close> returns; an instant by a number.
  Functions of third-party crates are the fields of the record \<open>crates\<close>, an argument of
  every definition that calls them.
\<close>

subsection \<open>Newtypes\<close>

datatype JobId = JobId (jid: string)

datatype Uuid = Uuid (uuid_str: string)

datatype Program = Program (prog: string)

datatype DependencyType = DependencyType (kind_str: string)

type_synonym DateTime = int

type_synonym a1_text = string

type_synonym SlurmDependency = a1_text

instantiation JobId :: linorder
begin

definition less_eq_JobId :: "JobId \<Rightarrow> JobId \<Rightarrow> bool" where
  "less_eq_JobId a b \<longleftrightarrow> jid a \<le> jid b"

definition less_JobId :: "JobId \<Rightarrow> JobId \<Rightarrow> bool" where
  "less_JobId a b \<longleftrightarrow> jid a < jid b"

instance
  by standard (auto simp: less_eq_JobId_def less_JobId_def JobId.expand)

end

subsection \<open>Lifecycle (job/lifecycle.rs)\<close>

datatype Lifecycle = Queued | Running | Success | Failed | Skipped

fun lifecycle_rank :: "Lifecycle \<Rightarrow> nat" where
  "lifecycle_rank Queued = 0"
| "lifecycle_rank Running = 1"
| "lifecycle_rank Success = 2"
| "lifecycle_rank Failed = 3"
| "lifecycle_rank Skipped = 4"

lemma lifecycle_rank_inject [simp]: "lifecycle_rank a = lifecycle_rank b \<longleftrightarrow> a = b"
  by (cases a; cases b) simp_all

instantiation Lifecycle :: linorder
begin

definition less_eq_Lifecycle :: "Lifecycle \<Rightarrow> Lifecycle \<Rightarrow> bool" where
  "less_eq_Lifecycle a b \<longleftrightarrow> lifecycle_rank a \<le> lifecycle_rank b"

definition less_Lifecycle :: "Lifecycle \<Rightarrow> Lifecycle \<Rightarrow> bool" where
  "less_Lifecycle a b \<longleftrightarrow> lifecycle_rank a < lifecycle_rank b"

instance
  by standard (auto simp: less_eq_Lifecycle_def less_Lifecycle_def)

end

definition is_terminal :: "Lifecycle \<Rightarrow> bool" where
  "is_terminal l = (case l of Success \<Rightarrow> True | Failed \<Rightarrow> True | Skipped \<Rightarrow> True | _ \<Rightarrow> False)"

lemma is_terminal_simps [simp]:
  "is_terminal Success" "is_terminal Failed" "is_terminal Skipped"
  "\<not> is_terminal Queued" "\<not> is_terminal Running"
  by (simp_all add: is_terminal_def)

lemma not_terminal_cases: "\<not> is_terminal l \<longleftrightarrow> l = Queued \<or> l = Running"
  by (cases l) simp_all

subsection \<open>SLURM states (the A1 enum, as matched exhaustively in runner/transition.rs)\<close>

datatype JobState =
    JsPending | JsConfiguring | JsRequeued | JsRequeueFed | JsRequeueHold | JsResvDelHold
  | JsSuspended | JsStopped
  | JsRunning | JsCompleting | JsResizing | JsSignaling | JsStageOut
  | JsCompleted
  | JsBootFail | JsCancelled | JsDeadline | JsFailed | JsNodeFail | JsOutOfMemory
  | JsPreempted | JsRevoked | JsSpecialExit | JsTimeout
  | JsUnknown

record JobStatus =
  js_state :: JobState
  js_reason :: string

subsection \<open>Job runs, jobs and flows\<close>

record JobRun =
  lifecycle :: Lifecycle
  updated_at :: DateTime
  slurm_jobid :: "u64 option"
  slurm_status :: "JobStatus option"
  run_note :: "string option"

record SlurmJobConfig =
  partition_name :: string
  time_limit :: "a1_text option"
  log_stdout :: "string option"
  log_stderr :: "string option"
  comment :: "string option"
  job_name :: "string option"
  array_spec :: "a1_text option"
  dependency :: "SlurmDependency option"
  mail_user :: "string option"
  mail_types :: "a1_text option"
  resource_spec :: "a1_text option"

record CommonConfig =
  slurm_default :: SlurmJobConfig
  project_root :: string

record JobEdge =
  edge_from :: JobId
  edge_kind :: DependencyType

record JobSpec =
  program :: Program
  body :: string
  config :: SlurmJobConfig

record Job =
  spec :: JobSpec
  parents :: "JobEdge list"

record JobFlow =
  flow_id :: Uuid
  created_at :: DateTime
  tags :: "(string, string) btree"
  jobs :: "(JobId, Job) btree"

text \<open>A \<open>toml::Value\<close>: floats and datetimes are carried by the text \<open>to_string\<close> prints.\<close>

datatype Toml =
    TString string
  | TInteger int
  | TFloat string
  | TBoolean bool
  | TDatetime string
  | TArray "Toml list"
  | TTable "(string \<times> Toml) list"

record ExperimentPlan =
  plan_jobs :: "(JobId, (string, Toml) btree) btree"

subsection \<open>Errors (error.rs)\<close>

datatype IoKind = NotFound | AlreadyExists | NotADirectory | IsADirectory | InvalidInput | InvalidData
  | OtherKind

datatype IoError = IoError (io_kind: IoKind) (io_text: string)

datatype JobManagerError =
    Io Path IoError
  | TomlParse Path string
  | TomlSer string
  | FlowNotFound Uuid Path
  | JobNotFound Uuid JobId
  | StatusNotFound Uuid JobId
  | SubmitFailed string
  | Slurm string
  | InvalidStepId string
  | InvalidJobId string
  | ReservedJobId string
  | JobIdParseError string string string
  | DependencyCycle Uuid "JobId list"
  | MissingPlanEntry Uuid JobId
  | RenderError JobId string
  | FileTooLarge Path nat nat
  | PartitionMissing JobId
  | PartitionWrongType JobId string
  | LogDirMissing JobId string Path
  | SnapshotMissing Path string
  | RootInferenceFailed Path
  | JoinFailed string string
  | Other string

subsection \<open>Third-party crates\<close>

record crates =
  jobid_display :: "JobId \<Rightarrow> string"
  jobids_debug :: "JobId list \<Rightarrow> string"
  dep_from_str :: "string \<Rightarrow> string + SlurmDependency"
  os_bytes :: "Path \<Rightarrow> string" \<comment> \<open>how the path, here its components, is spelled\<close>
  uuid_parse :: "string \<Rightarrow> string + Uuid"
  to_rfc3339 :: "DateTime \<Rightarrow> string"
  to_rfc3339_secs :: "DateTime \<Rightarrow> string"
  parse_rfc3339 :: "string \<Rightarrow> string + DateTime"
  toml_display :: "Toml \<Rightarrow> string"
  toml_de_value :: "string \<Rightarrow> string + Toml"
  toml_value_flow :: "Toml \<Rightarrow> string + JobFlow"
  toml_de_flow :: "string \<Rightarrow> string + JobFlow"
  toml_ser_flow :: "JobFlow \<Rightarrow> string + string"
  toml_de_plan :: "string \<Rightarrow> string + ExperimentPlan"
  toml_ser_plan :: "ExperimentPlan \<Rightarrow> string + string"
  toml_de_run :: "string \<Rightarrow> string + JobRun"
  toml_ser_run :: "JobRun \<Rightarrow> string + string"
  toml_de_common :: "string \<Rightarrow> string + CommonConfig"
  toml_ser_common :: "CommonConfig \<Rightarrow> string + string"

subsection \<open>The Display of an error (the error attributes of error.rs)\<close>

definition em_dash :: string where
  "em_dash = map char_of [226, 128, 148 :: nat]"

fun err_display :: "crates \<Rightarrow> JobManagerError \<Rightarrow> string" where
  "err_display cr (Io path source) =
     ''io error at '' @ path_display path @ '': '' @ io_text source"
| "err_display cr (TomlParse path source) =
     ''toml parse error at '' @ path_display path @ '': '' @ source"
| "err_display cr (TomlSer e) = ''toml serialize error: '' @ e"
| "err_display cr (FlowNotFound u root) =
     ''flow uuid '' @ uuid_str u @ '' not found under '' @ path_display root"
| "err_display cr (JobNotFound flow job) =
     ''job id '' @ jobid_display cr job @ '' not found in flow '' @ uuid_str flow"
| "err_display cr (StatusNotFound flow job) =
     ''status file missing for flow '' @ uuid_str flow @ '' job '' @ jobid_display cr job"
| "err_display cr (SubmitFailed source) = ''sbatch submission failed: '' @ source"
| "err_display cr (Slurm e) = ''slurm facade error: '' @ e"
| "err_display cr (InvalidStepId s) =
     ''invalid step id '' @ [CHR 0x27] @ s @ [CHR 0x27] @ '': must match [A-Za-z0-9_-]+''"
| "err_display cr (InvalidJobId s) =
     ''invalid job id '' @ [CHR 0x27] @ s @ [CHR 0x27] @ '': must match [A-Za-z0-9_'' @ [CHR 0x5C]
       @ ''-=]+''"
| "err_display cr (ReservedJobId s) =
     ''reserved id '' @ [CHR 0x27] @ s @ [CHR 0x27]
       @ '' (reserved: flow, plan, experiment, derived, status)''"
| "err_display cr (JobIdParseError i piece reason) =
     ''job id parse error in '' @ [CHR 0x27] @ i @ [CHR 0x27] @ '' at piece '' @ [CHR 0x27] @ piece
       @ [CHR 0x27] @ '': '' @ reason"
| "err_display cr (DependencyCycle flow remaining) =
     ''dependency cycle detected in flow '' @ uuid_str flow
       @ ''; remaining jobs (cycle members or downstream of them): '' @ jobids_debug cr remaining"
| "err_display cr (MissingPlanEntry flow job) =
     ''missing plan entry for job '' @ jobid_display cr job @ '' in flow '' @ uuid_str flow"
| "err_display cr (RenderError job reason) =
     ''bash render failed for job '' @ jobid_display cr job @ '': '' @ reason"
| "err_display cr (FileTooLarge path sz limit) =
     ''toml file too large: '' @ path_display path @ '' is '' @ show_nat sz @ '' bytes, limit is ''
       @ show_nat limit @ '' bytes (set JM_MAX_TOML_SIZE to override)''"
| "err_display cr (PartitionMissing job) =
     ''partition is required but missing: job='' @ jobid_display cr job
       @ '' has no partition and common.toml [slurm_default] has no partition either''"
| "err_display cr (PartitionWrongType job found) =
     ''partition for job='' @ jobid_display cr job @ '' must be a string, but found TOML type ''
       @ [CHR 0x27] @ found @ [CHR 0x27] @ ''; rewrite as `partition = '' @ [CHR 0x22] @ ''<name>''
       @ [CHR 0x22] @ ''`''"
| "err_display cr (LogDirMissing job field dir) =
     ''log directory does not exist: job='' @ jobid_display cr job @ '' '' @ field
       @ '' resolves to '' @ path_display dir @ '', which sbatch will NOT create '' @ em_dash
       @ '' SLURM would fail the job opaquely. Run `mkdir -p '' @ path_display dir
       @ ''` or fix the path in flow.toml / common.toml.''"
| "err_display cr (SnapshotMissing path u) =
     ''effective snapshot missing at '' @ path_display path @ '' (uuid='' @ u
       @ ''): run `jm render <uuid>` first to materialize''"
| "err_display cr (RootInferenceFailed path) =
     ''cannot infer root from flow.toml path '' @ path_display path
       @ '': expected <root>/<flow_uuid>/flow.toml layout''"
| "err_display cr (JoinFailed op source) = op @ '' blocking task failed: '' @ source"
| "err_display cr (Other s) = s"

end
