(* ===== verification/World.thy ===== *)
theory World
  imports Domain
begin

section \<open>The world: std::fs, std::env and the clock\<close>

text \<open>
  Effectful code is a function from a world to a result and a world. The world holds the file
  system (an association list, whose order is the arbitrary order in which \<open>read_dir\<close>
  lists), a fault schedule that may make any system call fail with any error, the clock, and
  what the process is called and sees (pid, thread, environment), and the lines printed. Record
  extension leaves room for the state of an executor. Paths are looked up by their components:
  symbolic links and dot-dot are not resolved. A failing write leaves an arbitrary prefix of
  its data, a failing directory creation leaves the ancestors created before it. A path without a
  node is missing, or not a directory when it goes through a file. The content of a file is its
  bytes; reading it as text needs them to be UTF-8. The length that the system reports for a
  directory is a field of the world that nothing the program does depends on but the size limit.
\<close>

datatype node = Dir | File string

datatype fault = Fault (fault_error: IoError) (fault_written: nat)

record world =
  w_fs :: "(Path \<times> node) list"
  w_fault :: "nat \<Rightarrow> fault option"
  w_clock :: "nat \<Rightarrow> DateTime"
  w_step :: nat
  w_pid :: nat
  w_tid :: string
  w_env :: "string \<Rightarrow> string option"
  w_dir_len :: "Path \<Rightarrow> nat"
  w_out :: "string list"

type_synonym ('s, 'e, 'a) act = "'s \<Rightarrow> ('e + 'a) \<times> 's"
type_synonym ('x, 'a) sys = "('x world_scheme, IoError, 'a) act"
type_synonym ('x, 'a) io = "('x world_scheme, JobManagerError, 'a) act"

subsection \<open>Sequencing\<close>

definition ret :: "'a \<Rightarrow> ('s, 'e, 'a) act" where
  "ret x w = (Ok x, w)"

definition fail :: "'e \<Rightarrow> ('s, 'e, 'a) act" where
  "fail e w = (Err e, w)"

definition act_bind :: "('s, 'e, 'a) act \<Rightarrow> ('a \<Rightarrow> ('s, 'e, 'b) act) \<Rightarrow> ('s, 'e, 'b) act" where
  "act_bind m f w = (case m w of (Err e, w1) \<Rightarrow> (Err e, w1) | (Ok x, w1) \<Rightarrow> f x w1)"

definition act_map_err :: "('e \<Rightarrow> 'f) \<Rightarrow> ('s, 'e, 'a) act \<Rightarrow> ('s, 'f, 'a) act" where
  "act_map_err f m w = (case m w of (r, w1) \<Rightarrow> (map_err f r, w1))"

definition act_try :: "('s, 'e, 'a) act \<Rightarrow> ('s, 'f, 'e + 'a) act" where
  \<comment> \<open>run and hand the result over as a value\<close>
  "act_try m w = (case m w of (r, w1) \<Rightarrow> (Ok r, w1))"

definition act_lift :: "'e + 'a \<Rightarrow> ('s, 'e, 'a) act" where
  "act_lift r w = (r, w)"

fun act_foldM :: "('b \<Rightarrow> 'a \<Rightarrow> ('s, 'e, 'b) act) \<Rightarrow> 'b \<Rightarrow> 'a list \<Rightarrow> ('s, 'e, 'b) act" where
  \<comment> \<open>a for loop over the list that threads its mutable locals\<close>
  "act_foldM f acc [] = ret acc"
| "act_foldM f acc (x # xs) = act_bind (f acc x) (\<lambda>acc'. act_foldM f acc' xs)"

lemma act_bind_Ok [io_simps]:
  "act_bind m f w = (Ok y, w') \<longleftrightarrow> (\<exists>x w1. m w = (Ok x, w1) \<and> f x w1 = (Ok y, w'))"
  by (auto simp: act_bind_def split: prod.splits sum.splits)

lemma act_bind_Err [io_simps]:
  "act_bind m f w = (Err e, w') \<longleftrightarrow>
     m w = (Err e, w') \<or> (\<exists>x w1. m w = (Ok x, w1) \<and> f x w1 = (Err e, w'))"
  by (auto simp: act_bind_def split: prod.splits sum.splits)

lemma act_bind_run: "m w = (Ok x, w1) \<Longrightarrow> act_bind m f w = f x w1"
  by (simp add: act_bind_def)

lemma ret_eq [io_simps]: "ret x w = (r, w') \<longleftrightarrow> r = Ok x \<and> w' = w"
  by (auto simp: ret_def)

lemma fail_eq [io_simps]: "fail e w = (r, w') \<longleftrightarrow> r = Err e \<and> w' = w"
  by (auto simp: fail_def)

lemma act_lift_eq [io_simps]: "act_lift r w = (r', w') \<longleftrightarrow> r = r' \<and> w' = w"
  by (auto simp: act_lift_def)

lemma act_map_err_Ok [io_simps]: "act_map_err f m w = (Ok x, w') \<longleftrightarrow> m w = (Ok x, w')"
  by (auto simp: act_map_err_def res_simps split: prod.splits)

lemma act_map_err_Err [io_simps]:
  "act_map_err f m w = (Err e, w') \<longleftrightarrow> (\<exists>e'. m w = (Err e', w') \<and> e = f e')"
  by (auto simp: act_map_err_def res_simps split: prod.splits)

lemma act_try_eq [io_simps]: "act_try m w = (r, w') \<longleftrightarrow> (\<exists>r'. m w = (r', w') \<and> r = Ok r')"
  by (auto simp: act_try_def split: prod.splits)

lemma ret_run [simp]: "ret x w = (Ok x, w)"
  by (simp add: ret_def)

lemma fail_run [simp]: "fail e w = (Err e, w)"
  by (simp add: fail_def)

subsection \<open>The file system\<close>

definition node_at :: "Path \<Rightarrow> 'x world_scheme \<Rightarrow> node option" where
  "node_at p w = (if p = [] \<or> p = [RootDir] then Some Dir else map_of (w_fs w) p)"

definition put_node :: "Path \<Rightarrow> node \<Rightarrow> 'x world_scheme \<Rightarrow> 'x world_scheme" where
  "put_node p n w = w\<lparr>w_fs := AList.update p n (w_fs w)\<rparr>"

definition del_node :: "Path \<Rightarrow> 'x world_scheme \<Rightarrow> 'x world_scheme" where
  "del_node p w = w\<lparr>w_fs := filter (\<lambda>e. fst e \<noteq> p) (w_fs w)\<rparr>"

definition next_step :: "'x world_scheme \<Rightarrow> 'x world_scheme" where
  "next_step w = w\<lparr>w_step := Suc (w_step w)\<rparr>"

definition io_error :: "IoKind \<Rightarrow> IoError" where
  "io_error k = IoError k
     (case k of
        NotFound \<Rightarrow> ''No such file or directory (os error 2)''
      | AlreadyExists \<Rightarrow> ''File exists (os error 17)''
      | NotADirectory \<Rightarrow> ''Not a directory (os error 20)''
      | IsADirectory \<Rightarrow> ''Is a directory (os error 21)''
      | InvalidInput \<Rightarrow> ''path has no file name''
      | InvalidData \<Rightarrow> ''stream did not contain valid UTF-8''
      | OtherKind \<Rightarrow> ''other error'')"

definition syscall :: "('x, 'a) sys \<Rightarrow> ('x, 'a) sys" where
  "syscall f w =
     (case w_fault w (w_step w) of
        Some flt \<Rightarrow> (Err (fault_error flt), next_step w)
      | None \<Rightarrow> f (next_step w))"

fun ancestors :: "Path \<Rightarrow> Path list" where
  "ancestors [] = []"
| "ancestors (c # cs) = [c] # map ((#) c) (ancestors cs)"

definition below_file :: "Path \<Rightarrow> 'x world_scheme \<Rightarrow> bool" where
  \<comment> \<open>looking the path up goes through something that is not a directory\<close>
  "below_file p w = list_ex (\<lambda>q. case node_at q w of Some (File _) \<Rightarrow> True | _ \<Rightarrow> False) (butlast (ancestors p))"

definition no_entry :: "Path \<Rightarrow> 'x world_scheme \<Rightarrow> IoError" where
  "no_entry p w = io_error (if below_file p w then NotADirectory else NotFound)"

definition metadata :: "Path \<Rightarrow> ('x, node) sys" where
  "metadata p = syscall (\<lambda>w. case node_at p w of
      None \<Rightarrow> (Err (no_entry p w), w) | Some n \<Rightarrow> (Ok n, w))"

definition path_exists :: "Path \<Rightarrow> ('x world_scheme, 'e, bool) act" where
  "path_exists p w = (case metadata p w of (r, w1) \<Rightarrow> (Ok (is_ok r), w1))"

definition path_is_dir :: "Path \<Rightarrow> ('x world_scheme, 'e, bool) act" where
  "path_is_dir p w = (case metadata p w of (r, w1) \<Rightarrow> (Ok (r = Ok Dir), w1))"

definition path_is_file :: "Path \<Rightarrow> ('x world_scheme, 'e, bool) act" where
  "path_is_file p w = (case metadata p w of (r, w1) \<Rightarrow>
      (Ok (case r of Ok (File _) \<Rightarrow> True | _ \<Rightarrow> False), w1))"

definition node_len :: "'x world_scheme \<Rightarrow> Path \<Rightarrow> node \<Rightarrow> nat" where
  "node_len w p n = (case n of Dir \<Rightarrow> w_dir_len w p | File s \<Rightarrow> length s)"

definition read_to_string :: "Path \<Rightarrow> ('x, string) sys" where
  "read_to_string p = syscall (\<lambda>w. case node_at p w of
      None \<Rightarrow> (Err (no_entry p w), w)
    | Some Dir \<Rightarrow> (Err (io_error IsADirectory), w)
    | Some (File s) \<Rightarrow> if utf8 s then (Ok s, w) else (Err (io_error InvalidData), w))"

definition mkdir :: "Path \<Rightarrow> ('x, unit) sys" where
  "mkdir p = syscall (\<lambda>w. case node_at p w of
      None \<Rightarrow> (Ok (), put_node p Dir w)
    | Some Dir \<Rightarrow> (Ok (), w)
    | Some (File _) \<Rightarrow> (Err (io_error NotADirectory), w))"

definition create_dir_all :: "Path \<Rightarrow> ('x, unit) sys" where
  "create_dir_all p = act_foldM (\<lambda>_. mkdir) () (ancestors p)"

definition parent_is_dir :: "Path \<Rightarrow> 'x world_scheme \<Rightarrow> bool" where
  "parent_is_dir p w = (case path_parent p of None \<Rightarrow> False | Some q \<Rightarrow> node_at q w = Some Dir)"

definition file_create :: "Path \<Rightarrow> ('x, unit) sys" where
  "file_create p = syscall (\<lambda>w.
      if node_at p w = Some Dir then (Err (io_error IsADirectory), w)
      else if \<not> parent_is_dir p w then (Err (no_entry p w), w)
      else (Ok (), put_node p (File []) w))"

definition write_all :: "Path \<Rightarrow> string \<Rightarrow> ('x, unit) sys" where
  "write_all p bytes w =
     (case w_fault w (w_step w) of
        Some flt \<Rightarrow> (Err (fault_error flt),
           put_node p (File (take (fault_written flt) bytes)) (next_step w))
      | None \<Rightarrow> (Ok (), put_node p (File bytes) (next_step w)))"

definition sync_all :: "('x, unit) sys" where
  "sync_all = syscall (\<lambda>w. (Ok (), w))"

definition set_permissions :: "Path \<Rightarrow> ('x, unit) sys" where
  "set_permissions p = syscall (\<lambda>w. (Ok (), w))"

definition rename_file :: "Path \<Rightarrow> Path \<Rightarrow> ('x, unit) sys" where
  "rename_file src dst = syscall (\<lambda>w. case node_at src w of
      Some (File s) \<Rightarrow>
        if node_at dst w = Some Dir then (Err (io_error IsADirectory), w)
        else if \<not> parent_is_dir dst w then (Err (no_entry dst w), w)
        else (Ok (), put_node dst (File s) (del_node src w))
    | _ \<Rightarrow> (Err (no_entry src w), w))"

definition remove_file :: "Path \<Rightarrow> ('x, unit) sys" where
  "remove_file p = syscall (\<lambda>w. case node_at p w of
      Some (File _) \<Rightarrow> (Ok (), del_node p w)
    | Some Dir \<Rightarrow> (Err (io_error IsADirectory), w)
    | None \<Rightarrow> (Err (no_entry p w), w))"

definition remove_dir_all :: "Path \<Rightarrow> ('x, unit) sys" where
  "remove_dir_all p = syscall (\<lambda>w.
      (Ok (), w\<lparr>w_fs := filter (\<lambda>e. \<not> path_starts_with (fst e) p) (w_fs w)\<rparr>))"

definition read_dir :: "Path \<Rightarrow> ('x, Path list) sys" where
  "read_dir p = syscall (\<lambda>w. case node_at p w of
      Some Dir \<Rightarrow> (Ok (filter (\<lambda>q. path_parent q = Some p) (remdups (map fst (w_fs w)))), w)
    | Some (File _) \<Rightarrow> (Err (io_error NotADirectory), w)
    | None \<Rightarrow> (Err (no_entry p w), w))"

definition clock_now :: "('x world_scheme, 'e, DateTime) act" where
  "clock_now w = (Ok (w_clock w (w_step w)), next_step w)"

definition print_str :: "string \<Rightarrow> ('x world_scheme, 'e, unit) act" where
  "print_str s w = (Ok (), w\<lparr>w_out := w_out w @ [s]\<rparr>)"

subsection \<open>Reading back what was put\<close>

lemma node_at_next_step [simp]: "node_at p (next_step w) = node_at p w"
  by (simp add: node_at_def next_step_def)

lemma below_file_next_step [simp]:
  "below_file p (next_step w) = below_file p w" "no_entry p (next_step w) = no_entry p w"
  by (simp_all add: below_file_def no_entry_def)

lemma node_at_out [simp]: "node_at p (w\<lparr>w_out := x\<rparr>) = node_at p w"
  by (simp add: node_at_def)

lemma node_at_put_same [simp]: "p \<noteq> [] \<Longrightarrow> p \<noteq> [RootDir] \<Longrightarrow> node_at p (put_node p n w) = Some n"
  by (simp add: node_at_def put_node_def update_conv')

lemma node_at_put_other [simp]: "q \<noteq> p \<Longrightarrow> node_at q (put_node p n w) = node_at q w"
  by (simp add: node_at_def put_node_def update_conv')

lemma node_at_del_same [simp]: "p \<noteq> [] \<Longrightarrow> p \<noteq> [RootDir] \<Longrightarrow> node_at p (del_node p w) = None"
  by (simp add: node_at_def del_node_def map_of_filter_neq)

lemma node_at_del_other [simp]: "q \<noteq> p \<Longrightarrow> node_at q (del_node p w) = node_at q w"
  by (simp add: node_at_def del_node_def map_of_filter_neq)

lemma parent_is_dir_next_step [simp]: "parent_is_dir p (next_step w) = parent_is_dir p w"
  by (simp add: parent_is_dir_def split: option.splits)

lemma parent_is_dir_put_File:
  "parent_is_dir p w \<Longrightarrow> node_at q w \<noteq> Some Dir \<Longrightarrow> parent_is_dir p (put_node q n w)"
  by (cases "path_parent p = Some q")
    (auto simp: parent_is_dir_def split: option.splits dest: node_at_put_other)

lemma parent_is_dir_nonroot: "parent_is_dir p w \<Longrightarrow> p \<noteq> [] \<and> p \<noteq> [RootDir]"
  by (auto simp: parent_is_dir_def path_parent_def split: option.splits)

subsection \<open>What every action of the program respects\<close>

text \<open>
  A relation between the worlds before and after that is reflexive and transitive is respected
  by a compound action when it is respected by its parts. The locale states this once; it is
  interpreted at the frame relations below, and in later theories at others.
\<close>

definition obeys :: "('s \<Rightarrow> 's \<Rightarrow> bool) \<Rightarrow> ('s, 'e, 'a) act \<Rightarrow> bool" where
  "obeys R m \<longleftrightarrow> (\<forall>w. R w (snd (m w)))"

lemma obeysD: "obeys R m \<Longrightarrow> m w = (r, w') \<Longrightarrow> R w w'"
  by (metis obeys_def snd_conv)

lemma obeysI: "(\<And>w r w'. m w = (r, w') \<Longrightarrow> R w w') \<Longrightarrow> obeys R m"
  unfolding obeys_def by (metis prod.collapse)

locale world_preorder =
  fixes R :: "'s \<Rightarrow> 's \<Rightarrow> bool"
  assumes R_refl: "R w w"
    and R_trans: "R w1 w2 \<Longrightarrow> R w2 w3 \<Longrightarrow> R w1 w3"
begin

lemma obeys_ret: "obeys R (ret x)"
  by (simp add: obeys_def R_refl)

lemma obeys_fail: "obeys R (fail e)"
  by (simp add: obeys_def R_refl)

lemma obeys_lift: "obeys R (act_lift r)"
  by (simp add: obeys_def act_lift_def R_refl)

lemma obeys_bind:
  assumes "obeys R m" and "\<And>x. obeys R (f x)"
  shows "obeys R (act_bind m f)"
  unfolding obeys_def
proof
  fix w
  obtain r w1 where m: "m w = (r, w1)" by fastforce
  with assms(1) have "R w w1" by (rule obeysD)
  then show "R w (snd (act_bind m f w))"
    using m assms(2) by (cases r) (auto simp: act_bind_def obeys_def intro: R_trans)
qed

lemma obeys_bind_res:
  assumes "obeys R m" and "\<And>w x w1. m w = (Ok x, w1) \<Longrightarrow> obeys R (f x)"
  shows "obeys R (act_bind m f)"
  unfolding obeys_def
proof
  fix w
  obtain r w1 where m: "m w = (r, w1)" by fastforce
  with assms(1) have "R w w1" by (rule obeysD)
  then show "R w (snd (act_bind m f w))"
    using m assms(2)[of w] by (cases r) (auto simp: act_bind_def obeys_def intro: R_trans)
qed

lemma obeys_map_err: "obeys R m \<Longrightarrow> obeys R (act_map_err f m)"
  by (rule obeysI) (auto simp: act_map_err_def dest: obeysD split: prod.splits)

lemma obeys_try: "obeys R m \<Longrightarrow> obeys R (act_try m)"
  by (rule obeysI) (auto simp: act_try_def dest: obeysD split: prod.splits)

lemma obeys_if: "obeys R a \<Longrightarrow> obeys R b \<Longrightarrow> obeys R (if c then a else b)"
  by simp

lemma obeys_foldM:
  "(\<And>acc x. x \<in> set xs \<Longrightarrow> obeys R (f acc x)) \<Longrightarrow> obeys R (act_foldM f acc xs)"
  by (induction xs arbitrary: acc) (simp_all add: obeys_ret obeys_bind)

end

definition same_host :: "'x world_scheme \<Rightarrow> 'x world_scheme \<Rightarrow> bool" where
  \<comment> \<open>what no action changes\<close>
  "same_host w w' \<longleftrightarrow> w_fault w' = w_fault w \<and> w_clock w' = w_clock w \<and> w_pid w' = w_pid w
     \<and> w_tid w' = w_tid w \<and> w_env w' = w_env w \<and> w_dir_len w' = w_dir_len w"

definition changes_only :: "Path set \<Rightarrow> 'x world_scheme \<Rightarrow> 'x world_scheme \<Rightarrow> bool" where
  "changes_only S w w' \<longleftrightarrow> same_host w w' \<and> world.more w' = world.more w
     \<and> (\<forall>p. p \<notin> S \<longrightarrow> node_at p w' = node_at p w)"

lemma same_host_refl [simp]: "same_host w w"
  by (simp add: same_host_def)

lemma same_host_trans: "same_host w1 w2 \<Longrightarrow> same_host w2 w3 \<Longrightarrow> same_host w1 w3"
  by (simp add: same_host_def)

interpretation frame: world_preorder "changes_only S" for S
  by unfold_locales (auto simp: changes_only_def intro: same_host_trans)

definition files_only :: "Path set \<Rightarrow> 'x world_scheme \<Rightarrow> 'x world_scheme \<Rightarrow> bool" where
  \<comment> \<open>the same, but the executor's state may change\<close>
  "files_only S w w' \<longleftrightarrow> same_host w w' \<and> (\<forall>p. p \<notin> S \<longrightarrow> node_at p w' = node_at p w)"

interpretation files: world_preorder "files_only S" for S
  by unfold_locales (auto simp: files_only_def intro: same_host_trans)

lemma obeys_files: "obeys (changes_only S) m \<Longrightarrow> S \<subseteq> T \<Longrightarrow> obeys (files_only T) m"
  unfolding obeys_def changes_only_def files_only_def by blast

lemma changes_only_mono: "changes_only S w w' \<Longrightarrow> S \<subseteq> T \<Longrightarrow> changes_only T w w'"
  by (auto simp: changes_only_def)

lemma obeys_mono: "obeys (changes_only S) m \<Longrightarrow> S \<subseteq> T \<Longrightarrow> obeys (changes_only T) m"
  unfolding obeys_def using changes_only_mono by blast

lemma changes_only_next_step [simp]: "changes_only S w (next_step w)"
  by (simp add: changes_only_def same_host_def next_step_def node_at_def)

lemma changes_only_put: "p \<in> S \<Longrightarrow> changes_only S w (put_node p n w)"
proof -
  assume "p \<in> S"
  then have "\<forall>q. q \<notin> S \<longrightarrow> node_at q (put_node p n w) = node_at q w"
    using node_at_put_other by metis
  then show ?thesis by (simp add: changes_only_def same_host_def put_node_def)
qed

lemma changes_only_del: "p \<in> S \<Longrightarrow> changes_only S w (del_node p w)"
proof -
  assume "p \<in> S"
  then have "\<forall>q. q \<notin> S \<longrightarrow> node_at q (del_node p w) = node_at q w"
    using node_at_del_other by metis
  then show ?thesis by (simp add: changes_only_def same_host_def del_node_def)
qed

lemma obeys_syscall:
  assumes "\<And>w. changes_only S w (snd (f w))"
  shows "obeys (changes_only S) (syscall f)"
  unfolding obeys_def
proof
  fix w
  show "changes_only S w (snd (syscall f w))"
    using assms[of "next_step w"]
    by (auto simp: syscall_def split: option.splits
        intro: frame.R_trans[OF changes_only_next_step])
qed

lemma obeys_metadata [inv_intros]: "obeys (changes_only S) (metadata p)"
  unfolding metadata_def by (rule obeys_syscall) (simp split: option.splits add: frame.R_refl)

lemma obeys_path_exists [inv_intros]: "obeys (changes_only S) (path_exists p)"
  by (rule obeysI) (auto simp: path_exists_def dest: obeysD[OF obeys_metadata] split: prod.splits)

lemma obeys_path_is_dir [inv_intros]: "obeys (changes_only S) (path_is_dir p)"
  by (rule obeysI) (auto simp: path_is_dir_def dest: obeysD[OF obeys_metadata] split: prod.splits)

lemma obeys_path_is_file [inv_intros]: "obeys (changes_only S) (path_is_file p)"
  by (rule obeysI) (auto simp: path_is_file_def dest: obeysD[OF obeys_metadata] split: prod.splits)

lemma obeys_read_to_string [inv_intros]: "obeys (changes_only S) (read_to_string p)"
  unfolding read_to_string_def
  by (rule obeys_syscall) (auto split: option.splits node.splits intro: frame.R_refl)

lemma obeys_read_dir [inv_intros]: "obeys (changes_only S) (read_dir p)"
  unfolding read_dir_def
  by (rule obeys_syscall) (simp split: option.splits node.splits add: frame.R_refl)

lemma obeys_sync_all [inv_intros]: "obeys (changes_only S) sync_all"
  unfolding sync_all_def by (rule obeys_syscall) (simp add: frame.R_refl)

lemma obeys_set_permissions [inv_intros]: "obeys (changes_only S) (set_permissions p)"
  unfolding set_permissions_def by (rule obeys_syscall) (simp add: frame.R_refl)

lemma obeys_clock_now [inv_intros]: "obeys (changes_only S) clock_now"
  by (simp add: obeys_def clock_now_def)

lemma obeys_print_str [inv_intros]: "obeys (changes_only S) (print_str s)"
  by (simp add: obeys_def print_str_def changes_only_def same_host_def)

lemma obeys_mkdir: "p \<in> S \<Longrightarrow> obeys (changes_only S) (mkdir p)"
  unfolding mkdir_def
  by (rule obeys_syscall)
    (auto split: option.splits node.splits intro: changes_only_put frame.R_refl)

lemma obeys_create_dir_all:
  "set (ancestors p) \<subseteq> S \<Longrightarrow> obeys (changes_only S) (create_dir_all p)"
  unfolding create_dir_all_def by (rule frame.obeys_foldM) (auto intro: obeys_mkdir)

lemma obeys_file_create: "p \<in> S \<Longrightarrow> obeys (changes_only S) (file_create p)"
  unfolding file_create_def
  by (rule obeys_syscall) (auto intro: changes_only_put frame.R_refl)

lemma obeys_write_all: "p \<in> S \<Longrightarrow> obeys (changes_only S) (write_all p b)"
  unfolding obeys_def write_all_def
  by (auto split: option.splits intro: frame.R_trans[OF changes_only_next_step] changes_only_put)

lemma obeys_rename:
  "src \<in> S \<Longrightarrow> dst \<in> S \<Longrightarrow> obeys (changes_only S) (rename_file src dst)"
  unfolding rename_file_def
  by (rule obeys_syscall)
    (auto split: option.splits node.splits
      intro: frame.R_trans[OF changes_only_del changes_only_put] frame.R_refl)

lemma obeys_remove_file: "p \<in> S \<Longrightarrow> obeys (changes_only S) (remove_file p)"
  unfolding remove_file_def
  by (rule obeys_syscall)
    (auto split: option.splits node.splits intro: changes_only_del frame.R_refl)

lemma map_of_filter_fst:
  "map_of (filter (\<lambda>e. P (fst e)) xs) q = (if P q then map_of xs q else None)"
  by (induction xs) auto

lemma obeys_remove_dir_all:
  assumes "\<And>q. path_starts_with q p \<Longrightarrow> q \<in> S"
  shows "obeys (changes_only S) (remove_dir_all p)"
  unfolding remove_dir_all_def
proof (rule obeys_syscall)
  fix w :: "'a world_scheme"
  show "changes_only S w (snd (Ok (),
      w\<lparr>w_fs := filter (\<lambda>e. \<not> path_starts_with (fst e) p) (w_fs w)\<rparr>))"
    using assms
    by (auto simp: changes_only_def same_host_def node_at_def
        map_of_filter_fst[where P = "\<lambda>q. \<not> path_starts_with q p"])
qed

end
