(* ===== verification/Storage.thy ===== *)
theory Storage
  imports World
begin

section \<open>Size-limited reads and atomic writes (persistence/mod.rs)\<close>

text \<open>
  Every reader goes through \<open>read_toml_string\<close>, every writer through \<open>atomic_write\<close>. The
  lemmas say what a read returns, and what a write leaves behind under any schedule of faults:
  the target holds the old content or the whole new content, never anything between.
\<close>

definition DEFAULT_MAX_TOML_SIZE :: u64 where
  "DEFAULT_MAX_TOML_SIZE = 10 * 1024 * 1024"

definition max_toml_size :: "'x world_scheme \<Rightarrow> u64" where
  "max_toml_size w =
     (case w_env w ''JM_MAX_TOML_SIZE'' of
        None \<Rightarrow> DEFAULT_MAX_TOML_SIZE
      | Some s \<Rightarrow>
          (case parse_u64 s of
             None \<Rightarrow> DEFAULT_MAX_TOML_SIZE
           | Some n \<Rightarrow> if 0 < n then n else DEFAULT_MAX_TOML_SIZE))"

definition read_toml_string :: "Path \<Rightarrow> ('x, string) io" where
  "read_toml_string path =
     act_bind (act_map_err (Io path) (metadata path)) (\<lambda>md w.
       let limit = max_toml_size w
       in if unat limit < node_len w path md
          then (Err (FileTooLarge path (node_len w path md) (unat limit)), w)
          else act_map_err (Io path) (read_to_string path) w)"

definition tmp_text :: "nat \<Rightarrow> DateTime \<Rightarrow> string \<Rightarrow> string" where
  \<comment> \<open>the format of the last line\<close>
  "tmp_text pid nanos tid =
     ''toml.'' @ show_nat pid @ ''.'' @ show_nat (nat nanos) @ ''.''
       @ take 8 (filter is_digit tid) @ ''.tmp''"

definition tmp_extension :: "('x world_scheme, 'e, string) act" where
  "tmp_extension = act_bind clock_now (\<lambda>nanos w. (Ok (tmp_text (w_pid w) nanos (w_tid w)), w))"

definition write_and_sync :: "Path \<Rightarrow> string \<Rightarrow> ('x, unit) io" where
  \<comment> \<open>the closure of the same name\<close>
  "write_and_sync tmp bytes =
     act_bind (act_map_err (Io tmp) (file_create tmp)) (\<lambda>_.
     act_bind (act_map_err (Io tmp) (write_all tmp bytes)) (\<lambda>_.
     act_map_err (Io tmp) sync_all))"

definition ensure_parent :: "Path \<Rightarrow> ('x, unit) io" where
  "ensure_parent path =
     (case path_parent path of
        None \<Rightarrow> ret ()
      | Some parent \<Rightarrow> act_map_err (Io parent) (create_dir_all parent))"

definition replace_via :: "Path \<Rightarrow> Path \<Rightarrow> string \<Rightarrow> ('x, unit) io" where
  \<comment> \<open>write the temporary, rename it over the target, remove it when either failed\<close>
  "replace_via tmp path bytes =
     act_bind
       (act_try (act_bind (write_and_sync tmp bytes)
          (\<lambda>_. act_map_err (Io path) (rename_file tmp path))))
       (\<lambda>result. act_bind
          (if is_err result
           then act_bind (act_try (remove_file tmp)) (\<lambda>_. ret ())
           else ret ())
          (\<lambda>_. act_lift result))"

definition atomic_write :: "Path \<Rightarrow> string \<Rightarrow> ('x, unit) io" where
  "atomic_write path bytes =
     act_bind (ensure_parent path) (\<lambda>_.
     act_bind tmp_extension (\<lambda>ext.
     replace_via (with_extension path ext) path bytes))"

subsection \<open>Faultless runs\<close>

definition no_faults :: "'x world_scheme \<Rightarrow> bool" where
  "no_faults w \<longleftrightarrow> (\<forall>n. w_fault w n = None)"

definition advance :: "nat \<Rightarrow> 'x world_scheme \<Rightarrow> 'x world_scheme" where
  "advance k w = w\<lparr>w_step := w_step w + k\<rparr>"

lemma next_step_advance: "next_step w = advance 1 w"
  by (simp add: next_step_def advance_def)

lemma advance_simps [simp]:
  "advance j (advance k w) = advance (k + j) w"
  "node_at p (advance k w) = node_at p w"
  "no_faults (advance k w) = no_faults w"
  "w_env (advance k w) = w_env w"
  "w_fault (advance k w) = w_fault w"
  "w_clock (advance k w) = w_clock w"
  "w_step (advance k w) = w_step w + k"
  "w_pid (advance k w) = w_pid w"
  "w_tid (advance k w) = w_tid w"
  "w_fs (advance k w) = w_fs w"
  "world.more (advance k w) = world.more w"
  "w_dir_len (advance k w) = w_dir_len w"
  "node_len (advance k w) = node_len w"
  "max_toml_size (advance k w) = max_toml_size w"
  "parent_is_dir p (advance k w) = parent_is_dir p w"
  "below_file p (advance k w) = below_file p w"
  "no_entry p (advance k w) = no_entry p w"
  by (simp_all add: advance_def node_at_def no_faults_def max_toml_size_def parent_is_dir_def
      node_len_def[abs_def] below_file_def no_entry_def split: option.splits)

lemma syscall_run: "no_faults w \<Longrightarrow> syscall f w = f (advance 1 w)"
  by (simp add: syscall_def no_faults_def next_step_advance)

lemma path_exists_run: "no_faults w \<Longrightarrow> path_exists p w = (Ok (node_at p w \<noteq> None), advance 1 w)"
  by (simp add: path_exists_def metadata_def syscall_run split: option.splits)

lemma read_toml_string_run:
  assumes "no_faults w"
  shows "read_toml_string p w =
    (case node_at p w of
       None \<Rightarrow> (Err (Io p (no_entry p w)), advance 1 w)
     | Some n \<Rightarrow>
         if unat (max_toml_size w) < node_len w p n
         then (Err (FileTooLarge p (node_len w p n) (unat (max_toml_size w))), advance 1 w)
         else (case n of Dir \<Rightarrow> (Err (Io p (io_error IsADirectory)), advance 2 w)
               | File s \<Rightarrow> (if utf8 s then Ok s else Err (Io p (io_error InvalidData)), advance 2 w)))"
proof (cases "node_at p w")
  case None
  then have "metadata p w = (Err (no_entry p w), advance 1 w)"
    using assms by (simp add: metadata_def syscall_run)
  then show ?thesis using None by (simp add: read_toml_string_def act_bind_def act_map_err_def)
next
  case (Some n)
  then have md: "metadata p w = (Ok n, advance 1 w)" using assms by (simp add: metadata_def syscall_run)
  have "read_to_string p (advance 1 w) = (case n of Dir \<Rightarrow> (Err (io_error IsADirectory), advance 2 w)
      | File s \<Rightarrow> (if utf8 s then Ok s else Err (io_error InvalidData), advance 2 w))"
    using assms Some by (simp add: read_to_string_def syscall_run numeral_2_eq_2 split: node.split)
  then show ?thesis
    using md Some
    by (simp add: read_toml_string_def act_bind_def act_map_err_def Let_def split: node.split)
qed

text \<open>The same under any faults.\<close>

lemma read_toml_string_result:
  "fst (read_toml_string p w) = (case w_fault w (w_step w) of
       Some flt \<Rightarrow> Err (Io p (fault_error flt))
     | None \<Rightarrow> (case node_at p w of
           None \<Rightarrow> Err (Io p (no_entry p w))
         | Some n \<Rightarrow>
             if unat (max_toml_size w) < node_len w p n
             then Err (FileTooLarge p (node_len w p n) (unat (max_toml_size w)))
             else (case w_fault w (Suc (w_step w)) of
                 Some flt \<Rightarrow> Err (Io p (fault_error flt))
               | None \<Rightarrow> (case n of
                     Dir \<Rightarrow> Err (Io p (io_error IsADirectory))
                   | File t \<Rightarrow> if utf8 t then Ok t else Err (Io p (io_error InvalidData))))))"
proof (cases "w_fault w (w_step w)")
  case None
  then have md: "metadata p w = (case node_at p w of None \<Rightarrow> (Err (no_entry p w), next_step w) | Some n \<Rightarrow> (Ok n, next_step w))"
    by (simp add: metadata_def syscall_def split: option.split)
  show ?thesis
  proof (cases "node_at p w")
    case (Some n)
    then show ?thesis
      using md None
      by (cases n; cases "w_fault w (Suc (w_step w))")
        (simp_all add: read_toml_string_def act_bind_def act_map_err_def read_to_string_def syscall_def Let_def
          next_step_advance)
  qed (use md None in \<open>simp add: read_toml_string_def act_bind_def act_map_err_def\<close>)
qed (simp add: read_toml_string_def act_bind_def act_map_err_def metadata_def syscall_def)

lemma max_toml_size_host: "same_host w w' \<Longrightarrow> max_toml_size w' = max_toml_size w"
  by (simp add: same_host_def max_toml_size_def)

text \<open>Whatever the faults, a read returns the content and stays below the limit.\<close>

lemma syscall_Ok: "syscall f w = (Ok x, w') \<Longrightarrow> f (next_step w) = (Ok x, w')"
  by (auto simp: syscall_def split: option.splits)

lemma read_toml_string_Ok:
  assumes "read_toml_string p w = (Ok s, w')"
  shows "node_at p w = Some (File s) \<and> length s \<le> unat (max_toml_size w) \<and> utf8 s"
proof -
  from assms obtain md w1 where md: "metadata p w = (Ok md, w1)"
    and lim: "\<not> unat (max_toml_size w1) < node_len w1 p md" and rd: "read_to_string p w1 = (Ok s, w')"
    by (auto simp: read_toml_string_def io_simps Let_def split: if_splits)
  have 1: "node_at p w = Some md \<and> w1 = next_step w"
    using syscall_Ok[OF md[unfolded metadata_def]] by (auto split: option.splits)
  have 2: "node_at p w1 = Some (File s)" "utf8 s"
    using syscall_Ok[OF rd[unfolded read_to_string_def]] by (auto split: option.splits node.splits if_splits)
  have "max_toml_size w1 = max_toml_size w" using 1 by (simp add: next_step_advance)
  then show ?thesis using 1 2 lim by (simp add: node_len_def)
qed

lemma obeys_read_toml_string [inv_intros]: "obeys (changes_only S) (read_toml_string p)"
  unfolding read_toml_string_def
proof (rule frame.obeys_bind)
  show "obeys (changes_only S) (act_map_err (Io p) (metadata p))"
    by (intro frame.obeys_map_err obeys_metadata)
  show "obeys (changes_only S) (\<lambda>w. let limit = max_toml_size w
      in if unat limit < node_len w p md then (Err (FileTooLarge p (node_len w p md) (unat limit)), w)
         else act_map_err (Io p) (read_to_string p) w)" for md
    using frame.obeys_map_err[OF obeys_read_to_string, of S "Io p" p]
    by (auto simp: obeys_def Let_def frame.R_refl)
qed

subsection \<open>The temporary file\<close>

lemma clock_now_eq: "clock_now w = (Ok (w_clock w (w_step w)), next_step w)"
  by (simp add: clock_now_def)

definition tmp_of :: "'x world_scheme \<Rightarrow> Path \<Rightarrow> Path" where
  \<comment> \<open>the temporary that a write started in this world picks\<close>
  "tmp_of w path = with_extension path (tmp_text (w_pid w) (w_clock w (w_step w)) (w_tid w))"

definition temporaries :: "Path \<Rightarrow> Path set" where
  "temporaries path = {with_extension path (tmp_text pid nanos tid) | pid nanos tid. True}"

lemma tmp_of_temporaries [simp]: "tmp_of w path \<in> temporaries path"
  by (auto simp: tmp_of_def temporaries_def)

lemma tmp_extension_run:
  "tmp_extension w = (Ok (tmp_text (w_pid w) (w_clock w (w_step w)) (w_tid w)), next_step w)"
  by (simp add: tmp_extension_def act_bind_def clock_now_eq next_step_advance)

lemma obeys_tmp_extension [inv_intros]: "obeys (changes_only S) tmp_extension"
  by (simp add: obeys_def tmp_extension_run)

subsection \<open>What a write changes\<close>

lemma obeys_write_and_sync: "tmp \<in> S \<Longrightarrow> obeys (changes_only S) (write_and_sync tmp b)"
  unfolding write_and_sync_def
  by (intro frame.obeys_bind frame.obeys_map_err obeys_file_create obeys_write_all obeys_sync_all)

lemma obeys_replace_via:
  "tmp \<in> S \<Longrightarrow> path \<in> S \<Longrightarrow> obeys (changes_only S) (replace_via tmp path b)"
  unfolding replace_via_def
  by (intro frame.obeys_bind frame.obeys_map_err frame.obeys_try frame.obeys_if frame.obeys_ret
      frame.obeys_lift obeys_write_and_sync obeys_rename obeys_remove_file)

lemma obeys_ensure_parent:
  assumes "\<And>q. path_parent path = Some q \<Longrightarrow> set (ancestors q) \<subseteq> S"
  shows "obeys (changes_only S) (ensure_parent path)"
  unfolding ensure_parent_def
  using assms
  by (auto split: option.splits intro!: frame.obeys_ret frame.obeys_map_err obeys_create_dir_all)

lemma replace_via_Ok:
  assumes "replace_via tmp path b w = (Ok u, w')" and neq: "tmp \<noteq> path"
  shows "node_at path w' = Some (File b) \<and> node_at tmp w' = None"
proof -
  from assms obtain w1 where ws: "write_and_sync tmp b w = (Ok (), w1)"
    and rn: "rename_file tmp path w1 = (Ok (), w')"
    by (auto simp: replace_via_def io_simps split: if_splits)
  from ws obtain w2 w3 where "file_create tmp w = (Ok (), w2)"
    and wa: "write_all tmp b w2 = (Ok (), w3)" and sy: "sync_all w3 = (Ok (), w1)"
    by (auto simp: write_and_sync_def io_simps)
  then have tmp: "tmp \<noteq> [] \<and> tmp \<noteq> [RootDir]"
    by (auto simp: file_create_def syscall_def split: option.splits if_splits
        dest: parent_is_dir_nonroot)
  have "node_at tmp w3 = Some (File b)"
    using wa tmp by (auto simp: write_all_def split: option.splits)
  moreover have "node_at tmp w1 = node_at tmp w3"
    using obeysD[OF obeys_sync_all[of "{}"] sy] by (simp add: changes_only_def)
  ultimately have c: "node_at tmp w1 = Some (File b)" by simp
  have "parent_is_dir path w1 \<and> w' = put_node path (File b) (del_node tmp (next_step w1))"
    using syscall_Ok[OF rn[unfolded rename_file_def]] c by (auto split: if_splits)
  then show ?thesis using neq tmp parent_is_dir_nonroot by fastforce
qed

lemma replace_via_Err:
  assumes r: "replace_via tmp path b w = (Err e, w')" and neq: "tmp \<noteq> path"
  shows "node_at path w' = node_at path w"
proof -
  from r obtain w1 where t: "act_bind (write_and_sync tmp b)
      (\<lambda>_. act_map_err (Io path) (rename_file tmp path)) w = (Err e, w1)"
    and rm: "\<exists>x. remove_file tmp w1 = (x, w')"
    by (auto simp: replace_via_def io_simps split: if_splits)
  have fr: "changes_only {tmp} a c \<Longrightarrow> node_at path c = node_at path a" for a c :: "'a world_scheme"
    using neq by (auto simp: changes_only_def)
  have rn_err: "node_at path w3 = node_at path w2" if "rename_file tmp path w2 = (Err e', w3)" for w2 w3 e'
    using that by (auto simp: rename_file_def syscall_def split: option.splits node.splits if_splits)
  have "node_at path w1 = node_at path w"
  proof (cases "\<exists>w2. write_and_sync tmp b w = (Ok (), w2)")
    case True
    then obtain w2 e' where ws: "write_and_sync tmp b w = (Ok (), w2)"
      and rn: "rename_file tmp path w2 = (Err e', w1)"
      using t by (auto simp: io_simps)
    show ?thesis using rn_err[OF rn] fr[OF obeysD[OF obeys_write_and_sync ws]] by simp
  next
    case False
    then have "write_and_sync tmp b w = (Err e, w1)" using t by (auto simp: io_simps)
    from fr[OF obeysD[OF obeys_write_and_sync this]] show ?thesis by simp
  qed
  moreover have "node_at path w' = node_at path w1"
    using rm fr[OF obeysD[OF obeys_remove_file]] by auto
  ultimately show ?thesis by simp
qed

lemma set_ancestors: "set (ancestors p) = {q. q \<noteq> [] \<and> (\<exists>r. p = q @ r)}"
proof (induction p)
  case (Cons c cs)
  show ?case
  proof (intro set_eqI iffI)
    fix q
    assume "q \<in> set (ancestors (c # cs))"
    then show "q \<in> {q. q \<noteq> [] \<and> (\<exists>r. c # cs = q @ r)}" using Cons by auto
  next
    fix q
    assume "q \<in> {q. q \<noteq> [] \<and> (\<exists>r. c # cs = q @ r)}"
    then obtain q' r where "q = c # q'" "cs = q' @ r" by (cases q) auto
    then show "q \<in> set (ancestors (c # cs))" using Cons by (cases "q' = []") auto
  qed
qed simp

definition dirs_above :: "Path \<Rightarrow> Path set" where
  \<comment> \<open>the directories that writing a file may create\<close>
  "dirs_above path = {q. q \<noteq> [] \<and> length q < length path \<and> path_starts_with path q}"

lemma ancestors_dirs_above: "path_parent p = Some q \<Longrightarrow> set (ancestors q) \<subseteq> dirs_above p"
  by (drule path_parent_Some) (auto simp: set_ancestors dirs_above_def path_starts_with_iff)

lemma path_not_above [simp]: "p \<notin> dirs_above p"
  by (simp add: dirs_above_def)

lemma atomic_write_parts:
  assumes "atomic_write path b w = (r, w')"
  obtains (prepared) w1 where "ensure_parent path w = (Ok (), w1)"
      "replace_via (tmp_of w1 path) path b (next_step w1) = (r, w')"
  | (unprepared) e where "ensure_parent path w = (Err e, w')" "r = Err e"
proof (cases "ensure_parent path w")
  case (Pair x w1)
  show thesis
  proof (cases x)
    case (Inl e)
    with assms Pair unprepared show thesis by (auto simp: atomic_write_def act_bind_def)
  next
    case (Inr u)
    with assms Pair prepared show thesis
      by (simp add: atomic_write_def act_bind_def tmp_extension_run tmp_of_def)
  qed
qed

lemma atomic_write_frame:
  "obeys (changes_only ({path} \<union> dirs_above path \<union> temporaries path))
     (atomic_write path b)"
proof (rule obeysI)
  fix w r w'
  let ?S = "{path} \<union> dirs_above path \<union> temporaries path"
  have ep: "obeys (changes_only ?S) (ensure_parent path)"
    by (rule obeys_ensure_parent) (use ancestors_dirs_above in blast)
  assume "atomic_write path b w = (r, w')"
  then show "changes_only ?S w w'"
  proof (cases rule: atomic_write_parts)
    case (prepared w1)
    have 1: "changes_only ?S w w1" by (rule obeysD[OF ep prepared(1)])
    have "obeys (changes_only ?S) (replace_via (tmp_of w1 path) path b)"
      by (rule obeys_replace_via) auto
    then have 2: "changes_only ?S (next_step w1) w'" using prepared(2) by (rule obeysD)
    show ?thesis
      by (rule frame.R_trans[OF 1 frame.R_trans[OF changes_only_next_step 2]])
  next
    case (unprepared e)
    then show ?thesis using obeysD[OF ep] by blast
  qed
qed

lemma tmp_of_neq: "file_name path \<noteq> None \<Longrightarrow> tmp_of w path \<noteq> path"
proof -
  assume "file_name path \<noteq> None"
  then obtain q n where "path = q @ [Normal n]"
    by (cases path rule: rev_cases) (auto simp: file_name_def split: Component.splits)
  then show ?thesis by (simp add: tmp_of_def with_extension_neq tmp_text_def)
qed

lemma ensure_parent_keeps: "ensure_parent path w = (r, w') \<Longrightarrow> node_at path w' = node_at path w"
proof -
  assume r: "ensure_parent path w = (r, w')"
  have "obeys (changes_only (dirs_above path)) (ensure_parent path)"
    by (rule obeys_ensure_parent) (rule ancestors_dirs_above)
  then have "changes_only (dirs_above path) w w'" using r by (rule obeysD)
  then show ?thesis by (simp add: changes_only_def)
qed

lemma atomic_write_Ok:
  assumes "atomic_write path b w = (Ok u, w')" and "file_name path \<noteq> None"
  shows "node_at path w' = Some (File b)"
  using assms by (cases rule: atomic_write_parts) (auto dest: replace_via_Ok[OF _ tmp_of_neq])

lemma atomic_write_Err:
  assumes "atomic_write path b w = (Err e, w')" and "file_name path \<noteq> None"
  shows "node_at path w' = node_at path w"
  using assms(1)
proof (cases rule: atomic_write_parts)
  case (prepared w1)
  have "node_at path w' = node_at path (next_step w1)"
    using prepared(2) tmp_of_neq[OF assms(2)] by (rule replace_via_Err)
  then show ?thesis using ensure_parent_keeps[OF prepared(1)] by simp
next
  case (unprepared e')
  from unprepared(1) show ?thesis by (rule ensure_parent_keeps)
qed

subsection \<open>A write succeeds when nothing stands in its way\<close>

definition writable :: "Path \<Rightarrow> 'x world_scheme \<Rightarrow> bool" where
  \<comment> \<open>no file where a directory must be, no directory where a file must be\<close>
  "writable path w \<longleftrightarrow> file_name path \<noteq> None
     \<and> (\<forall>q\<in>dirs_above path. \<forall>s. node_at q w \<noteq> Some (File s))
     \<and> (\<forall>q\<in>insert path (temporaries path). node_at q w \<noteq> Some Dir)"

lemma mkdir_run:
  assumes "no_faults w" and "p \<noteq> []" and nf: "\<And>s. node_at p w \<noteq> Some (File s)"
  obtains w1 where "mkdir p w = (Ok (), w1)" "no_faults w1"
    "\<And>q. node_at q w1 = (if q = p then Some Dir else node_at q w)"
proof (cases "node_at p w")
  case None
  then have "p \<noteq> [RootDir]" by (auto simp: node_at_def)
  moreover have "mkdir p w = (Ok (), put_node p Dir (advance 1 w))"
    using assms None by (simp add: mkdir_def syscall_run)
  moreover have "no_faults (put_node p Dir (advance 1 w))"
    using assms by (simp add: no_faults_def put_node_def)
  ultimately show thesis using assms(2) by (intro that) auto
next
  case (Some n)
  then have "n = Dir" using nf by (cases n) auto
  then show thesis using assms Some that[of "advance 1 w"] by (simp add: mkdir_def syscall_run)
qed

lemma mkdir_fold_run:
  assumes "no_faults w" and "\<And>q s. q \<in> set qs \<Longrightarrow> q \<noteq> [] \<and> node_at q w \<noteq> Some (File s)"
  shows "\<exists>w'. act_foldM (\<lambda>_. mkdir) () qs w = (Ok (), w') \<and> no_faults w'
    \<and> (\<forall>q. node_at q w' = (if q \<in> set qs then Some Dir else node_at q w))"
  using assms
proof (induction qs arbitrary: w)
  case (Cons p qs)
  then obtain w1 where m: "mkdir p w = (Ok (), w1)" and nf: "no_faults w1"
    and n: "\<And>q. node_at q w1 = (if q = p then Some Dir else node_at q w)"
    using mkdir_run[of w p] by (metis list.set_intros(1))
  have "q \<noteq> [] \<and> node_at q w1 \<noteq> Some (File s)" if "q \<in> set qs" for q s
    unfolding n using that Cons.prems(2)[of q s] by simp
  from Cons.IH[OF nf this] obtain w' where "act_foldM (\<lambda>_. mkdir) () qs w1 = (Ok (), w')" "no_faults w'"
    "\<forall>q. node_at q w' = (if q \<in> set qs then Some Dir else node_at q w1)"
    by blast
  then show ?case using m n by (intro exI[of _ w']) (simp add: act_bind_def)
qed simp

lemma ensure_parent_run:
  assumes nf: "no_faults w" and wr: "writable path w"
  shows "\<exists>w'. ensure_parent path w = (Ok (), w') \<and> no_faults w' \<and> parent_is_dir path w'
    \<and> (\<forall>q. q \<notin> dirs_above path \<longrightarrow> node_at q w' = node_at q w)"
proof -
  obtain q n where p: "path = q @ [Normal n]"
    using wr by (cases path rule: rev_cases) (auto simp: writable_def file_name_def split: Component.splits)
  then have par: "path_parent path = Some q" by simp
  have sub: "set (ancestors q) \<subseteq> dirs_above path" using par by (rule ancestors_dirs_above)
  obtain w' where w': "act_foldM (\<lambda>_. mkdir) () (ancestors q) w = (Ok (), w')" "no_faults w'"
    "\<forall>r. node_at r w' = (if r \<in> set (ancestors q) then Some Dir else node_at r w)"
    using mkdir_fold_run[OF nf, of "ancestors q"] sub wr by (auto simp: writable_def dirs_above_def)
  have "node_at q w' = Some Dir"
  proof (cases "q = []")
    case False
    then have "q \<in> set (ancestors q)" by (auto simp: set_ancestors)
    then show ?thesis using w'(3) by simp
  qed (simp add: node_at_def)
  then show ?thesis
    using w' par sub
    by (intro exI[of _ w']) (auto simp: ensure_parent_def create_dir_all_def act_map_err_def parent_is_dir_def)
qed

lemma replace_via_run:
  assumes nf: "no_faults w" and pd: "parent_is_dir path w" "path_parent tmp = path_parent path"
    and nd: "node_at path w \<noteq> Some Dir" "node_at tmp w \<noteq> Some Dir" and neq: "tmp \<noteq> path"
  shows "is_ok (fst (replace_via tmp path b w))"
proof -
  have pt: "parent_is_dir tmp w" using pd by (simp add: parent_is_dir_def)
  have tmp: "tmp \<noteq> []" "tmp \<noteq> [RootDir]" using parent_is_dir_nonroot[OF pt] by auto
  let ?w1 = "put_node tmp (File []) (advance 1 w)"
  let ?w2 = "put_node tmp (File b) (next_step ?w1)"
  let ?w3 = "advance 1 ?w2"
  have nf1: "no_faults ?w1" and nf2: "no_faults ?w2"
    using nf by (simp_all add: no_faults_def put_node_def next_step_def)
  have "file_create tmp w = (Ok (), ?w1)" using nf pt nd by (simp add: file_create_def syscall_run)
  moreover have "write_all tmp b ?w1 = (Ok (), ?w2)" using nf1 by (simp add: write_all_def no_faults_def)
  moreover have "sync_all ?w2 = (Ok (), ?w3)" using nf2 by (simp add: sync_all_def syscall_run)
  ultimately have ws: "write_and_sync tmp b w = (Ok (), ?w3)"
    by (simp add: write_and_sync_def act_bind_def act_map_err_def)
  have t3: "node_at tmp (advance 1 ?w3) = Some (File b)" using tmp by simp
  have p3: "node_at path (advance 1 ?w3) = node_at path w" using neq by simp
  have "parent_is_dir path ?w1" using pd(1) nd(2) by (intro parent_is_dir_put_File) simp_all
  then have "parent_is_dir path ?w2"
    using tmp by (intro parent_is_dir_put_File) simp_all
  then have "is_ok (fst (rename_file tmp path ?w3))"
    using nf2 t3 p3 nd(1) by (simp add: rename_file_def syscall_run)
  then obtain w4 where "rename_file tmp path ?w3 = (Ok (), w4)"
    by (cases "rename_file tmp path ?w3"; cases "fst (rename_file tmp path ?w3)") auto
  then show ?thesis using ws by (simp add: replace_via_def act_bind_def act_try_def act_map_err_def act_lift_def)
qed

lemma atomic_write_run:
  assumes "no_faults w" and wr: "writable path w"
  shows "is_ok (fst (atomic_write path b w))"
proof -
  obtain w1 where e: "ensure_parent path w = (Ok (), w1)" and nf: "no_faults w1"
    and pd: "parent_is_dir path w1" and same: "\<forall>q. q \<notin> dirs_above path \<longrightarrow> node_at q w1 = node_at q w"
    using ensure_parent_run[OF assms] by blast
  obtain q n where p: "path = q @ [Normal n]"
    using wr by (cases path rule: rev_cases) (auto simp: writable_def file_name_def split: Component.splits)
  let ?tmp = "tmp_of w1 path"
  have ne: "?tmp \<noteq> path" using wr by (intro tmp_of_neq) (simp add: writable_def)
  have tq: "\<exists>m. ?tmp = q @ [Normal m]" using p by (simp add: tmp_of_def with_extension_def)
  then have par: "path_parent ?tmp = path_parent path" and na: "?tmp \<notin> dirs_above path"
    using p by (auto simp: dirs_above_def)
  have "node_at path w1 \<noteq> Some Dir" "node_at ?tmp w1 \<noteq> Some Dir"
    using same na wr by (auto simp: writable_def)
  then have "is_ok (fst (replace_via ?tmp path b (next_step w1)))"
    using nf pd par ne by (intro replace_via_run) (simp_all add: next_step_advance)
  then show ?thesis
    using e by (simp add: atomic_write_def act_bind_def tmp_extension_run tmp_of_def)
qed

subsection \<open>Shapes\<close>

text \<open>
  \<open>shaped D F\<close>: whatever changed is now a directory, at a path of \<open>D\<close>, or is not a
  directory, at a path of \<open>F\<close>. An action with this frame keeps the files it may yet write
  writable.
\<close>

definition shaped :: "Path set \<Rightarrow> Path set \<Rightarrow> 'x world_scheme \<Rightarrow> 'x world_scheme \<Rightarrow> bool" where
  "shaped D F w w' \<longleftrightarrow> same_host w w' \<and> (\<forall>p. node_at p w' = node_at p w
     \<or> p \<in> D \<and> node_at p w' = Some Dir \<or> p \<in> F \<and> node_at p w' \<noteq> Some Dir)"

interpretation shape: world_preorder "shaped D F" for D F
proof
  fix w1 w2 w3 :: "'a world_scheme"
  assume "shaped D F w1 w2" and "shaped D F w2 w3"
  then show "shaped D F w1 w3" unfolding shaped_def using same_host_trans by metis
qed (simp add: shaped_def)

lemma shaped_of_reader: "obeys (changes_only {}) m \<Longrightarrow> obeys (shaped D F) m"
  by (auto simp: obeys_def changes_only_def shaped_def)

lemma shaped_next_step [simp]: "shaped D F w (next_step w)"
  by (simp add: shaped_def same_host_def next_step_def node_at_def)

lemma obeys_shaped_syscall:
  assumes "\<And>w. shaped D F w (snd (f w))"
  shows "obeys (shaped D F) (syscall f)"
  unfolding obeys_def
proof
  fix w
  show "shaped D F w (snd (syscall f w))"
    using assms[of "next_step w"]
    by (auto simp: syscall_def split: option.splits intro: shape.R_trans[OF shaped_next_step])
qed

lemma node_at_put_cases: "node_at q (put_node p n w) = node_at q w \<or> q = p \<and> node_at q (put_node p n w) = Some n"
  by (cases "q = p"; cases "p = [] \<or> p = [RootDir]") (auto simp: node_at_def put_node_def update_conv')

lemma node_at_del_cases: "node_at q (del_node p w) = node_at q w \<or> q = p \<and> node_at q (del_node p w) = None"
  by (auto simp: node_at_def del_node_def map_of_filter_neq)

lemma shaped_put:
  assumes "n = Dir \<and> p \<in> D \<or> n \<noteq> Dir \<and> p \<in> F"
  shows "shaped D F w (put_node p n w)"
  unfolding shaped_def
proof (intro conjI allI)
  show "same_host w (put_node p n w)" by (simp add: same_host_def put_node_def)
  show "node_at q (put_node p n w) = node_at q w \<or> q \<in> D \<and> node_at q (put_node p n w) = Some Dir
      \<or> q \<in> F \<and> node_at q (put_node p n w) \<noteq> Some Dir" for q
    using node_at_put_cases[of q p n w] assms by (elim disjE conjE) simp_all
qed

lemma shaped_del:
  assumes "p \<in> F"
  shows "shaped D F w (del_node p w)"
  unfolding shaped_def
proof (intro conjI allI)
  show "same_host w (del_node p w)" by (simp add: same_host_def del_node_def)
  show "node_at q (del_node p w) = node_at q w \<or> q \<in> D \<and> node_at q (del_node p w) = Some Dir
      \<or> q \<in> F \<and> node_at q (del_node p w) \<noteq> Some Dir" for q
    using node_at_del_cases[of q p w] assms by (metis option.distinct(1))
qed

lemma obeys_shaped_mkdir: "p \<in> D \<Longrightarrow> obeys (shaped D F) (mkdir p)"
  unfolding mkdir_def
  by (rule obeys_shaped_syscall) (auto split: option.splits node.splits intro: shaped_put shape.R_refl)

lemma obeys_shaped_create: "p \<in> F \<Longrightarrow> obeys (shaped D F) (file_create p)"
  unfolding file_create_def
  by (rule obeys_shaped_syscall) (auto intro: shaped_put shape.R_refl)

lemma obeys_shaped_write: "p \<in> F \<Longrightarrow> obeys (shaped D F) (write_all p b)"
  unfolding obeys_def write_all_def
  by (auto split: option.splits intro!: shape.R_trans[OF shaped_next_step] shaped_put)

lemma obeys_shaped_remove: "p \<in> F \<Longrightarrow> obeys (shaped D F) (remove_file p)"
  unfolding remove_file_def
  by (rule obeys_shaped_syscall) (auto split: option.splits node.splits intro: shaped_del shape.R_refl)

lemma shaped_rename: "p \<in> F \<Longrightarrow> q \<in> F \<Longrightarrow> shaped D F w (put_node q (File s) (del_node p w))"
  by (rule shape.R_trans[OF shaped_del shaped_put]) simp_all

lemma obeys_shaped_rename: "p \<in> F \<Longrightarrow> q \<in> F \<Longrightarrow> obeys (shaped D F) (rename_file p q)"
  unfolding rename_file_def
  by (rule obeys_shaped_syscall) (simp add: shape.R_refl shaped_rename split: option.split node.split)

lemmas obeys_shaped_ops =
  obeys_shaped_mkdir obeys_shaped_create obeys_shaped_write obeys_shaped_remove obeys_shaped_rename

lemma obeys_shaped_ensure:
  "dirs_above path \<subseteq> D \<Longrightarrow> obeys (shaped D F) (ensure_parent path)"
  unfolding ensure_parent_def create_dir_all_def
  using ancestors_dirs_above[of path]
  by (auto split: option.split
      intro!: shape.obeys_ret shape.obeys_map_err shape.obeys_foldM obeys_shaped_mkdir)

lemma obeys_shaped_write_and_sync: "tmp \<in> F \<Longrightarrow> obeys (shaped D F) (write_and_sync tmp b)"
  unfolding write_and_sync_def
  by (intro shape.obeys_bind shape.obeys_map_err obeys_shaped_ops shaped_of_reader[OF obeys_sync_all])

lemma obeys_shaped_atomic_write:
  assumes "dirs_above path \<subseteq> D" and "insert path (temporaries path) \<subseteq> F"
  shows "obeys (shaped D F) (atomic_write path b)"
proof (rule obeysI)
  fix w r w'
  assume "atomic_write path b w = (r, w')"
  then show "shaped D F w w'"
  proof (cases rule: atomic_write_parts)
    case (prepared w1)
    have "tmp_of w1 path \<in> F" using assms(2) tmp_of_temporaries by blast
    then have "obeys (shaped D F) (replace_via (tmp_of w1 path) path b)"
      unfolding replace_via_def using assms(2)
      by (intro shape.obeys_bind shape.obeys_map_err shape.obeys_try shape.obeys_if shape.obeys_ret
          shape.obeys_lift obeys_shaped_write_and_sync obeys_shaped_ops) auto
    then show ?thesis
      using obeysD[OF obeys_shaped_ensure[OF assms(1)] prepared(1)]
        obeysD[where m = "replace_via (tmp_of w1 path) path b", OF _ prepared(2)]
      by (metis shape.R_trans shaped_next_step)
  next
    case (unprepared e)
    then show ?thesis using obeysD[OF obeys_shaped_ensure[OF assms(1)]] by blast
  qed
qed

lemma writable_shaped:
  assumes "writable path w" and "shaped D F w w'"
    and "dirs_above path \<inter> F = {}" and "insert path (temporaries path) \<inter> D = {}"
  shows "writable path w'"
proof -
  have "node_at q w' \<noteq> Some (File s)" if "q \<in> dirs_above path" for q s
  proof -
    have "q \<notin> F" using assms(3) that by blast
    then have "node_at q w' = node_at q w \<or> node_at q w' = Some Dir" using assms(2) unfolding shaped_def by blast
    then show ?thesis using assms(1) that by (auto simp: writable_def)
  qed
  moreover have "node_at q w' \<noteq> Some Dir" if "q \<in> insert path (temporaries path)" for q
  proof -
    have "q \<notin> D" using assms(4) that by blast
    then have "node_at q w' = node_at q w \<or> node_at q w' \<noteq> Some Dir" using assms(2) unfolding shaped_def by blast
    then show ?thesis using assms(1) that unfolding writable_def by metis
  qed
  ultimately show ?thesis using assms(1) by (simp add: writable_def)
qed

text \<open>
  C8. A write is atomic under every fault schedule: when \<open>atomic_write\<close> reports success the
  target holds exactly the new bytes, and when it reports an error the target is what it was.
  Nothing else changes but the directories above the target and temporaries with a name derived
  from it, and the host and the executor's state are untouched.
\<close>

theorem atomic_write_atomic:
  assumes "file_name path \<noteq> None" and "atomic_write path bytes w = (r, w')"
  shows "node_at path w' = (if is_ok r then Some (File bytes) else node_at path w)
    \<and> (\<forall>q. q \<notin> insert path (dirs_above path \<union> temporaries path) \<longrightarrow> node_at q w' = node_at q w)
    \<and> same_host w w' \<and> world.more w' = world.more w"
proof -
  have "node_at path w' = (if is_ok r then Some (File bytes) else node_at path w)"
    using assms by (cases r) (auto dest: atomic_write_Ok atomic_write_Err)
  moreover have "changes_only ({path} \<union> dirs_above path \<union> temporaries path) w w'"
    using assms(2) by (rule obeysD[OF atomic_write_frame])
  ultimately show ?thesis by (auto simp: changes_only_def)
qed

subsection \<open>A torn write\<close>

definition quiet_world :: "(Path \<times> node) list \<Rightarrow> world" where
  "quiet_world fs = \<lparr>w_fs = fs, w_fault = (\<lambda>_. None), w_clock = int, w_step = 0, w_pid = 42,
     w_tid = ''ThreadId(7)'', w_env = (\<lambda>_. None), w_dir_len = (\<lambda>_. 4096), w_out = []\<rparr>"

definition torn_world :: world where
  \<comment> \<open>the write of the data stops after two bytes\<close>
  "torn_world = (quiet_world [(path_of ''/d'', Dir), (path_of ''/d/x.toml'', File ''old'')])
     \<lparr>w_fault := (\<lambda>n. if n = 4 then Some (Fault (io_error OtherKind) 2) else None)\<rparr>"

lemma torn_run:
  "is_err (fst (atomic_write (path_of ''/d/x.toml'') ''new'' torn_world))"
  "node_at (path_of ''/d/x.toml'') torn_world = Some (File ''old'')"
  "file_name (path_of ''/d/x.toml'') \<noteq> None"
  by code_simp+

lemma atomic_write_atomic_witness:
  "node_at (path_of ''/d/x.toml'') (snd (atomic_write (path_of ''/d/x.toml'') ''new'' torn_world))
     = Some (File ''old'')"
  using atomic_write_atomic[OF torn_run(3) prod.collapse[symmetric], of "''new''" torn_world]
    torn_run(1,2)
  by (simp add: is_err_def is_ok_def split: sum.splits)

end
