(* ===== verification/JobIds.thy ===== *)
theory JobIds
  imports Domain
begin

section \<open>Job identifiers (jobid.rs)\<close>

text \<open>
  The naming rules of step and job identifiers, the encoder \<open>build_job_id\<close> and the parser
  \<open>parse_job_id\<close>. A step id is over letters, digits, underscore and dash and is not
  reserved; a job id is a step id followed by axis assignments, separated by a double underscore.
\<close>

definition RESERVED_IDS :: "string list" where
  "RESERVED_IDS = [''flow'', ''plan'', ''experiment'', ''derived'', ''status'']"

definition valid_step_id_char :: "char \<Rightarrow> bool" where
  "valid_step_id_char c \<longleftrightarrow> is_ascii_alphanumeric c \<or> c = CHR ''_'' \<or> c = CHR ''-''"

definition valid_job_id_char :: "char \<Rightarrow> bool" where
  "valid_job_id_char c \<longleftrightarrow> valid_step_id_char c \<or> c = CHR ''=''"

definition validate_step_id :: "string \<Rightarrow> JobManagerError + string" where
  "validate_step_id s =
     (if s = [] \<or> \<not> list_all valid_step_id_char s then Err (InvalidStepId s)
      else if s \<in> set RESERVED_IDS then Err (ReservedJobId s)
      else Ok s)"

record JobIdParts =
  source_step_id :: string
  axis_combo :: "(string \<times> usize) list"

definition encode_axis :: "string \<times> usize \<Rightarrow> string" where
  "encode_axis a = (case a of (ax, idx) \<Rightarrow> ax @ ''='' @ show_nat (unat idx))"

definition build_job_id :: "string \<Rightarrow> (string \<times> usize) list \<Rightarrow> string" where
  "build_job_id step combo =
     (if combo = [] then step
      else step @ concat (map (\<lambda>a. ''__'' @ encode_axis a) combo))"

definition parse_axis :: "crates \<Rightarrow> string \<Rightarrow> string \<Rightarrow> JobManagerError + string \<times> usize" where
  \<comment> \<open>the body of the loop over the pieces after the first\<close>
  "parse_axis cr s piece =
     (case split_once CHR ''='' piece of
        None \<Rightarrow> Err (JobIdParseError s piece
          (''expected '' @ [CHR 0x27] @ ''<axis>=<idx>'' @ [CHR 0x27]))
      | Some (ax, idx_str) \<Rightarrow>
          (case validate_step_id ax of
             Err e \<Rightarrow> Err (JobIdParseError s piece
               (''invalid axis name '' @ [CHR 0x27] @ ax @ [CHR 0x27] @ '': '' @ err_display cr e))
           | Ok _ \<Rightarrow>
               (case parse_u64 idx_str of
                  None \<Rightarrow> Err (JobIdParseError s piece
                    (''invalid index '' @ [CHR 0x27] @ idx_str @ [CHR 0x27]))
                | Some idx \<Rightarrow> Ok (ax, idx))))"

definition parse_job_id :: "crates \<Rightarrow> string \<Rightarrow> JobManagerError + JobIdParts" where
  "parse_job_id cr s =
     (if s = [] then Err (InvalidJobId [])
      else case split_pat ''__'' s of
             [] \<Rightarrow> Err (InvalidJobId [])
           | step # pieces \<Rightarrow>
               res_bind (validate_step_id step) (\<lambda>_.
               res_bind (traverse (parse_axis cr s) pieces) (\<lambda>combo.
               Ok \<lparr>source_step_id = step, axis_combo = combo\<rparr>)))"

definition validate_job_id :: "crates \<Rightarrow> string \<Rightarrow> JobManagerError + string" where
  "validate_job_id cr s =
     (if s = [] \<or> \<not> list_all valid_job_id_char s then Err (InvalidJobId s)
      else res_bind (parse_job_id cr s) (\<lambda>_. Ok s))"

subsection \<open>What the validators accept\<close>

lemma validate_step_id_Ok:
  "validate_step_id s = Ok t \<longleftrightarrow>
    t = s \<and> s \<noteq> [] \<and> list_all valid_step_id_char s \<and> s \<notin> set RESERVED_IDS"
  by (auto simp: validate_step_id_def)

lemma digit_valid_step: "is_digit c \<Longrightarrow> valid_step_id_char c"
  by (simp add: valid_step_id_char_def is_ascii_alphanumeric_def)

lemma valid_step_not:
  "valid_step_id_char c \<Longrightarrow> c \<noteq> CHR ''/'' \<and> c \<noteq> CHR ''.'' \<and> c \<noteq> CHR ''='' \<and> c \<noteq> CHR ''+''"
  by (auto simp: valid_step_id_char_def is_ascii_alphanumeric_def is_digit_def is_upper_def
      is_lower_def code_def)

lemma parse_axis_Ok:
  "parse_axis cr s piece = Ok (ax, idx) \<longleftrightarrow>
    (\<exists>idx_str. split_once CHR ''='' piece = Some (ax, idx_str) \<and> validate_step_id ax = Ok ax
      \<and> parse_u64 idx_str = Some idx)"
  by (auto simp: parse_axis_def validate_step_id_def split: option.splits sum.splits if_splits)

lemma parse_job_id_Ok:
  "parse_job_id cr s = Ok parts \<longleftrightarrow>
    s \<noteq> [] \<and> (\<exists>step pieces combo. split_pat ''__'' s = step # pieces
      \<and> validate_step_id step = Ok step
      \<and> list_all2 (\<lambda>p a. parse_axis cr s p = Ok a) pieces combo
      \<and> parts = \<lparr>source_step_id = step, axis_combo = combo\<rparr>)"
  by (auto simp: parse_job_id_def res_simps traverse_Ok_list_all2 validate_step_id_Ok
      split: list.splits)

lemma parse_axis_chars:
  assumes "parse_axis cr s piece = Ok a" and "c \<in> set piece"
  shows "valid_step_id_char c \<or> c = CHR ''='' \<or> c = CHR ''+''"
proof -
  obtain ax idx where a: "a = (ax, idx)" by fastforce
  with assms(1) obtain str where sp: "split_once CHR ''='' piece = Some (ax, str)"
    and v: "validate_step_id ax = Ok ax" and p: "parse_u64 str = Some idx"
    by (auto simp: parse_axis_Ok)
  have "piece = ax @ CHR ''='' # str" using split_once_Some[OF sp] by simp
  with assms(2) consider "c \<in> set ax" | "c = CHR ''=''" | "c \<in> set str" by auto
  then show ?thesis
  proof cases
    case 1
    with v show ?thesis by (auto simp: validate_step_id_Ok list_all_iff)
  next
    case 2
    then show ?thesis by simp
  next
    case 3
    with parse_u64_chars[OF p] digit_valid_step show ?thesis by blast
  qed
qed

lemma parse_job_id_chars:
  assumes "parse_job_id cr s = Ok parts" and "c \<in> set s"
  shows "valid_step_id_char c \<or> c = CHR ''='' \<or> c = CHR ''+''"
proof -
  from assms(1) obtain step pieces combo where sp: "split_pat ''__'' s = step # pieces"
    and v: "validate_step_id step = Ok step"
    and ps: "list_all2 (\<lambda>p a. parse_axis cr s p = Ok a) pieces combo"
    by (auto simp: parse_job_id_Ok)
  have "c \<in> set ''__'' \<union> (\<Union>x\<in>set (step # pieces). set x)"
    using set_split_pat[of s "''__''"] assms(2) sp by auto
  then consider "c = CHR ''_''" | "c \<in> set step" | p where "p \<in> set pieces" "c \<in> set p" by auto
  then show ?thesis
  proof cases
    case 1
    then show ?thesis by (simp add: valid_step_id_char_def)
  next
    case 2
    with v show ?thesis by (auto simp: validate_step_id_Ok list_all_iff)
  next
    case 3
    then obtain a where "parse_axis cr s p = Ok a" using list_all2_in_left[OF ps] by blast
    with 3 show ?thesis using parse_axis_chars by blast
  qed
qed

text \<open>A parsed identifier is a plain name: it goes down exactly one directory.\<close>

lemma parse_job_id_plain: "parse_job_id cr s = Ok parts \<Longrightarrow> plain_name s"
proof -
  assume p: "parse_job_id cr s = Ok parts"
  have ok: "valid_step_id_char c \<or> c = CHR ''='' \<or> c = CHR ''+''" if "c \<in> set s" for c
    using parse_job_id_chars[OF p that] .
  have "s \<noteq> []" using p by (simp add: parse_job_id_Ok)
  moreover have "CHR ''.'' \<notin> set s" "CHR ''/'' \<notin> set s"
    using ok valid_step_not by fastforce+
  ultimately show ?thesis by (auto simp: plain_name_def)
qed

subsection \<open>Encoding and parsing are inverse\<close>

definition id_encodable :: "string \<Rightarrow> (string \<times> usize) list \<Rightarrow> bool" where
  \<comment> \<open>what \<open>build_job_id\<close> must be given for the parser to recover it\<close>
  "id_encodable step combo \<longleftrightarrow>
     validate_step_id step = Ok step \<and> find_sub ''__'' step = None
     \<and> (combo = [] \<or> \<not> ends_with_char step CHR ''_'')
     \<and> list_all (\<lambda>(ax, idx). validate_step_id ax = Ok ax \<and> find_sub ''__'' ax = None) combo"

lemma build_job_id_join: "build_job_id step combo = join ''__'' (step # map encode_axis combo)"
proof (induction combo arbitrary: step)
  case Nil
  then show ?case by (simp add: build_job_id_def)
next
  case (Cons a combo)
  have "join ''__'' (step # map encode_axis (a # combo))
      = step @ ''__'' @ join ''__'' (encode_axis a # map encode_axis combo)"
    by simp
  also have "\<dots> = step @ ''__'' @ build_job_id (encode_axis a) combo"
    using Cons.IH by simp
  also have "\<dots> = build_job_id step (a # combo)" by (simp add: build_job_id_def)
  finally show ?case by simp
qed

lemma eq_notin_axis: "validate_step_id ax = Ok ax \<Longrightarrow> CHR ''='' \<notin> set ax"
  using valid_step_not by (fastforce simp: validate_step_id_Ok list_all_iff)

lemma encode_axis_parse:
  "validate_step_id ax = Ok ax \<Longrightarrow> parse_axis cr s (encode_axis (ax, idx)) = Ok (ax, idx)"
  by (simp add: parse_axis_Ok encode_axis_def split_once_append eq_notin_axis parse_u64_show)

lemma show_nat_last_not_underscore: "\<not> ends_with_char (x @ show_nat n) CHR ''_''"
proof -
  have "is_digit (last (show_nat n))"
    using show_nat_digits[of n] show_nat_nonempty[of n] by (simp add: list_all_iff)
  then have "last (show_nat n) \<noteq> CHR ''_''" by (auto simp: is_digit_def code_def)
  then show ?thesis using show_nat_nonempty[of n] by (simp add: ends_with_char_iff)
qed

lemma find_sub_append_None:
  \<comment> \<open>no separator appears when the second part holds none of its characters\<close>
  assumes "find_sub [c, c] a = None" and "c \<notin> set b"
  shows "find_sub [c, c] (a @ b) = None"
proof (rule ccontr)
  assume "find_sub [c, c] (a @ b) \<noteq> None"
  then obtain x y where "find_sub [c, c] (a @ b) = Some (x, y)" by auto
  then have eq: "a @ b = x @ [c, c] @ y" by (rule find_sub_Some)
  then obtain us where "a = x @ us \<and> us @ b = [c, c] @ y \<or> a @ us = x \<and> b = us @ [c, c] @ y"
    using append_eq_append_conv2 by blast
  then show False
  proof
    assume h: "a = x @ us \<and> us @ b = [c, c] @ y"
    then consider "us = []" | "us = [c]" | zs where "us = c # c # zs"
      by (cases us rule: remdups_adj.cases) auto
    then show False
    proof cases
      case 3
      with h have "a = x @ [c, c] @ zs" by simp
      with assms(1) find_sub_None show False by blast
    qed (use h assms(2) in auto)
  qed (use assms(2) in auto)
qed

lemma encode_axis_no_sep:
  assumes "find_sub ''__'' ax = None"
  shows "find_sub ''__'' (encode_axis (ax, idx)) = None"
proof -
  have "CHR ''_'' \<notin> set (show_nat n)" for n
    using show_nat_digits[of n] by (auto simp: list_all_iff is_digit_def code_def)
  then show ?thesis
    using assms by (simp add: encode_axis_def find_sub_append_None)
qed

lemma parse_build_encodable:
  assumes "id_encodable step combo"
  shows "parse_job_id cr (build_job_id step combo) =
    Ok \<lparr>source_step_id = step, axis_combo = combo\<rparr>"
proof -
  let ?xs = "step # map encode_axis combo"
  have ax: "\<forall>(a, i)\<in>set combo. validate_step_id a = Ok a \<and> find_sub ''__'' a = None"
    using assms by (auto simp: id_encodable_def list_all_iff)
  have "\<forall>x\<in>set ?xs. find_sub ''__'' x = None"
    using assms ax by (auto simp: id_encodable_def encode_axis_no_sep)
  moreover have "\<forall>x\<in>set (butlast ?xs). \<not> ends_with_char x CHR ''_''"
  proof
    fix x
    assume "x \<in> set (butlast ?xs)"
    then have "combo \<noteq> [] \<and> (x = step \<or> x \<in> encode_axis ` set combo)"
      by (auto split: if_splits dest: in_set_butlastD)
    then show "\<not> ends_with_char x CHR ''_''"
      using assms show_nat_last_not_underscore[of "_ @ ''=''"]
      by (auto simp: id_encodable_def encode_axis_def)
  qed
  ultimately have "split_pat ''__'' (join ''__'' ?xs) = ?xs"
    by (intro split_pat_join_double) auto
  then have sp: "split_pat ''__'' (build_job_id step combo) = ?xs" by (simp add: build_job_id_join)
  have v: "validate_step_id step = Ok step" using assms by (simp add: id_encodable_def)
  then have "build_job_id step combo \<noteq> []" by (simp add: build_job_id_def validate_step_id_Ok)
  moreover have "list_all2 (\<lambda>p a. parse_axis cr s p = Ok a) (map encode_axis combo) combo" for s
    using ax by (auto simp: list_all2_map1 list_all2_same encode_axis_parse)
  ultimately show ?thesis using sp v by (auto simp: parse_job_id_Ok)
qed

lemma encodable_parse_build:
  assumes "parse_job_id cr (build_job_id step combo) = Ok \<lparr>source_step_id = step, axis_combo = combo\<rparr>"
  shows "id_encodable step combo"
proof -
  let ?s = "build_job_id step combo"
  from assms obtain pieces where sp: "split_pat ''__'' ?s = step # pieces"
    and v: "validate_step_id step = Ok step"
    and ps: "list_all2 (\<lambda>p a. parse_axis cr ?s p = Ok a) pieces combo"
    by (auto simp: parse_job_id_Ok)
  have nosep: "find_sub ''__'' x = None" if "x \<in> set (step # pieces)" for x
    using split_pat_pieces[of "''__''" x ?s] sp that by simp
  have ax: "validate_step_id ax = Ok ax \<and> find_sub ''__'' ax = None" if mem: "(ax, idx) \<in> set combo" for ax idx
  proof -
    obtain p where p: "p \<in> set pieces" "parse_axis cr ?s p = Ok (ax, idx)"
      using list_all2_in_right[OF ps mem] by blast
    then obtain str where so: "split_once CHR ''='' p = Some (ax, str)"
      and vx: "validate_step_id ax = Ok ax" by (auto simp: parse_axis_Ok)
    have "p = ax @ CHR ''='' # str" using split_once_Some[OF so] by simp
    moreover have "find_sub ''__'' p = None" using nosep p(1) by simp
    ultimately have "find_sub ''__'' ax = None" using find_sub_prefix_None by blast
    with vx show ?thesis by simp
  qed
  have "\<not> ends_with_char step CHR ''_''" if ne: "combo \<noteq> []"
  proof
    assume "ends_with_char step CHR ''_''"
    then obtain t where t: "step = t @ ''_''"
      by (cases step rule: rev_cases) (auto simp: ends_with_char_iff)
    obtain a rest where c: "combo = a # rest" using ne by (cases combo) auto
    have s: "?s = t @ ''__'' @ (''_'' @ encode_axis a @ concat (map (\<lambda>a. ''__'' @ encode_axis a) rest))"
      by (simp add: build_job_id_def c t)
    then have "find_sub ''__'' ?s \<noteq> None" using find_sub_None by blast
    then obtain x y where xy: "find_sub ''__'' ?s = Some (x, y)" by auto
    then have "x = step" using sp by (simp add: split_pat_Some)
    moreover have "length x \<le> length t" using xy s by (rule find_sub_leftmost)
    ultimately show False using t by simp
  qed
  with v nosep ax show ?thesis by (auto simp: id_encodable_def list_all_iff)
qed

text \<open>
  C23. Building a job identifier and parsing it gives back the step id and the axis
  assignments exactly when the step id is valid, no name holds a double underscore, and, if there
  is an axis, the step id does not end with an underscore.
\<close>

theorem parse_build_roundtrip:
  "parse_job_id cr (build_job_id step combo) = Ok \<lparr>source_step_id = step, axis_combo = combo\<rparr>
    \<longleftrightarrow> id_encodable step combo"
  using parse_build_encodable encodable_parse_build by blast

text \<open>
  A step id that the validator accepts can still build an identifier that the parser
  rejects: a double underscore inside it is read as a separator.
\<close>

theorem valid_step_unparsable:
  "validate_step_id ''a__b'' = Ok ''a__b'' \<and> build_job_id ''a__b'' [] = ''a__b''
    \<and> is_err (parse_job_id cr (build_job_id ''a__b'' []))"
proof -
  have "split_pat ''__'' ''a__b'' = [''a'', ''b'']"
    by (simp add: split_pat_Some split_pat_None)
  moreover have "split_once CHR ''='' ''b'' = None" by (simp add: split_once_def)
  moreover have "validate_step_id ''a'' = Ok ''a''" by code_simp
  ultimately have "is_err (parse_job_id cr ''a__b'')"
    by (simp add: parse_job_id_def parse_axis_def)
  moreover have "validate_step_id ''a__b'' = Ok ''a__b''" by code_simp
  ultimately show ?thesis by (simp add: build_job_id_def)
qed

end
