(* ===== verification/Layout.thy ===== *)
theory Layout
  imports JobIds
begin

section \<open>The on-disk layout (persistence/path.rs)\<close>

text \<open>
  \<open>PathResolver\<close> composes every path the program touches below its root:
  \<open>root/flow_uuid/flow.toml\<close>, \<open>plan.toml\<close>, and the program-managed directory
  \<open>.jm\<close> with the snapshot and one directory per job. The lemmas give the composed paths for
  plain names, and with them that the files of a flow are pairwise different and where they lie.
\<close>

record PathResolver =
  res_root :: Path

definition flow_dir :: "PathResolver \<Rightarrow> Uuid \<Rightarrow> Path" where
  "flow_dir r u = join_str (res_root r) (uuid_str u)"

definition flow_toml :: "PathResolver \<Rightarrow> Uuid \<Rightarrow> Path" where
  "flow_toml r u = join_str (flow_dir r u) ''flow.toml''"

definition plan_toml :: "PathResolver \<Rightarrow> Uuid \<Rightarrow> Path" where
  "plan_toml r u = join_str (flow_dir r u) ''plan.toml''"

definition experiment_toml :: "PathResolver \<Rightarrow> Uuid \<Rightarrow> Path" where
  "experiment_toml r u = join_str (flow_dir r u) ''experiment.toml''"

definition jm_dir :: "PathResolver \<Rightarrow> Uuid \<Rightarrow> Path" where
  "jm_dir r u = join_str (flow_dir r u) ''.jm''"

definition flow_effective_toml :: "PathResolver \<Rightarrow> Uuid \<Rightarrow> Path" where
  "flow_effective_toml r u = join_str (jm_dir r u) ''flow.effective.toml''"

definition job_dir :: "PathResolver \<Rightarrow> Uuid \<Rightarrow> JobId \<Rightarrow> Path" where
  "job_dir r u j = join_str (jm_dir r u) (jid j)"

definition status_file :: "PathResolver \<Rightarrow> Uuid \<Rightarrow> JobId \<Rightarrow> Path" where
  "status_file r u j = join_str (job_dir r u j) ''status.toml''"

definition common_toml :: "PathResolver \<Rightarrow> Path" where
  "common_toml r = join_str (res_root r) ''common.toml''"

definition batch_bash :: "PathResolver \<Rightarrow> Uuid \<Rightarrow> JobId \<Rightarrow> Path" where
  "batch_bash r u j = join_str (job_dir r u j) ''batch.bash''"

subsection \<open>The composed paths\<close>

definition plain_uuid :: "Uuid \<Rightarrow> bool" where
  "plain_uuid u \<longleftrightarrow> plain_name (uuid_str u)"

definition plain_id :: "JobId \<Rightarrow> bool" where
  "plain_id j \<longleftrightarrow> plain_name (jid j)"

lemma plain_names [simp]:
  "plain_name ''flow.toml''" "plain_name ''plan.toml''" "plain_name ''.jm''"
  "plain_name ''flow.effective.toml''" "plain_name ''status.toml''" "plain_name ''batch.bash''"
  "plain_name ''common.toml''" "plain_name ''experiment.toml''"
  by (simp_all add: plain_name_def)

lemma flow_dir_ne [simp]: "plain_uuid u \<Longrightarrow> flow_dir r u \<noteq> []"
  by (simp add: flow_dir_def plain_uuid_def join_str_plain_ne)

lemma flow_toml_eq [path_simps]: "plain_uuid u \<Longrightarrow> flow_toml r u = flow_dir r u @ [Normal ''flow.toml'']"
  by (simp add: plain_uuid_def flow_dir_ne flow_toml_def join_str_plain)

lemma plan_toml_eq [path_simps]: "plain_uuid u \<Longrightarrow> plan_toml r u = flow_dir r u @ [Normal ''plan.toml'']"
  by (simp add: plan_toml_def join_str_plain)

lemma jm_dir_eq [path_simps]: "plain_uuid u \<Longrightarrow> jm_dir r u = flow_dir r u @ [Normal ''.jm'']"
  by (simp add: jm_dir_def join_str_plain)

lemma flow_effective_toml_eq [path_simps]:
  "plain_uuid u \<Longrightarrow> flow_effective_toml r u = flow_dir r u @ [Normal ''.jm'', Normal ''flow.effective.toml'']"
  by (simp add: flow_effective_toml_def jm_dir_eq join_str_plain)

lemma job_dir_eq [path_simps]:
  "plain_uuid u \<Longrightarrow> plain_id j \<Longrightarrow> job_dir r u j = flow_dir r u @ [Normal ''.jm'', Normal (jid j)]"
  by (simp add: job_dir_def jm_dir_eq join_str_plain plain_id_def)

lemma status_file_eq [path_simps]:
  "plain_uuid u \<Longrightarrow> plain_id j \<Longrightarrow>
    status_file r u j = flow_dir r u @ [Normal ''.jm'', Normal (jid j), Normal ''status.toml'']"
  by (simp add: status_file_def job_dir_eq join_str_plain)

lemma batch_bash_eq [path_simps]:
  "plain_uuid u \<Longrightarrow> plain_id j \<Longrightarrow>
    batch_bash r u j = flow_dir r u @ [Normal ''.jm'', Normal (jid j), Normal ''batch.bash'']"
  by (simp add: batch_bash_def job_dir_eq join_str_plain)

subsection \<open>The files of a flow do not collide\<close>

lemma status_file_inject:
  "plain_uuid u \<Longrightarrow> plain_id j \<Longrightarrow> plain_id k \<Longrightarrow>
    status_file r u j = status_file r u k \<longleftrightarrow> j = k"
  by (cases j; cases k) (simp add: status_file_eq)


text \<open>
  The resolver itself does not check job ids: with an absolute path as the id of a job the
  status file lies outside the root. \<open>parse_job_id\<close> would refuse such an id.
\<close>

theorem status_file_escapes:
  "parse_job_id cr ''/etc/cron.d'' = Err (InvalidStepId ''/etc/cron.d'')
    \<and> status_file r u (JobId ''/etc/cron.d'')
       = [RootDir, Normal ''etc'', Normal ''cron.d'', Normal ''status.toml'']"
proof -
  have "split_pat ''__'' ''/etc/cron.d'' = [''/etc/cron.d'']" by code_simp
  moreover have "validate_step_id ''/etc/cron.d'' = Err (InvalidStepId ''/etc/cron.d'')" by code_simp
  ultimately have "parse_job_id cr ''/etc/cron.d'' = Err (InvalidStepId ''/etc/cron.d'')"
    by (simp add: parse_job_id_def)
  moreover have "path_of ''/etc/cron.d'' = [RootDir, Normal ''etc'', Normal ''cron.d'']"
    by code_simp
  then have "job_dir r u (JobId ''/etc/cron.d'') = [RootDir, Normal ''etc'', Normal ''cron.d'']"
    by (simp add: job_dir_def join_str_def path_join_def is_absolute_def)
  then have "status_file r u (JobId ''/etc/cron.d'')
      = [RootDir, Normal ''etc'', Normal ''cron.d''] @ [Normal ''status.toml'']"
    by (simp add: status_file_def join_str_plain)
  ultimately show ?thesis by simp
qed

subsection \<open>A concrete layout\<close>

definition sample_uuid :: Uuid where
  "sample_uuid = Uuid ''0190b7a0-0000-7000-8000-000000000001''"

lemma plain_sample_uuid [simp]: "plain_name (uuid_str sample_uuid)"
  by (simp add: plain_name_def sample_uuid_def)

lemma parse_sample_ids:
  "parse_job_id cr (jid (JobId ''opt'')) = Ok \<lparr>source_step_id = ''opt'', axis_combo = []\<rparr>"
  "parse_job_id cr (jid (JobId ''freq__ax=1''))
     = Ok \<lparr>source_step_id = ''freq'', axis_combo = [(''ax'', 1)]\<rparr>"
proof -
  have "id_encodable ''opt'' []" by code_simp
  then show "parse_job_id cr (jid (JobId ''opt'')) = Ok \<lparr>source_step_id = ''opt'', axis_combo = []\<rparr>"
    using parse_build_encodable[of "''opt''" "[]" cr] by (simp add: build_job_id_def)
  have "id_encodable ''freq'' [(''ax'', 1)]" by code_simp
  moreover have "build_job_id ''freq'' [(''ax'', 1)] = ''freq__ax=1''" by code_simp
  ultimately show "parse_job_id cr (jid (JobId ''freq__ax=1''))
      = Ok \<lparr>source_step_id = ''freq'', axis_combo = [(''ax'', 1)]\<rparr>"
    using parse_build_encodable[of "''freq''" "[(''ax'', 1)]" cr] by simp
qed


end
