(* ===== verification/Topology.thy ===== *)
theory Topology
  imports Domain
begin

section \<open>Topological order (flow/topology.rs)\<close>

text \<open>
  Kahn's algorithm as the code runs it: an indegree map that starts at the number of parent
  edges, a queue, and the order built so far. \<open>relax\<close> is the body of the inner loop over the
  jobs, \<open>kahn\<close> the outer loop, which ends because every round removes one job from the queue
  and enters a job only when its counter leaves the positive ones. The lemmas bring one round to
  closed form, carry the loop invariant, and characterise when the function succeeds.
\<close>

type_synonym indegrees = "(JobId, nat) btree"

definition depends_on :: "Job \<Rightarrow> JobId \<Rightarrow> bool" where
  "depends_on job j \<longleftrightarrow> list_ex (\<lambda>e. edge_from e = j) (parents job)"

definition relax :: "JobId \<Rightarrow> JobId \<times> Job \<Rightarrow> indegrees \<times> JobId list \<Rightarrow> indegrees \<times> JobId list" where
  "relax j entry st =
     (case (entry, st) of ((other_jid, other_job), (indeg, queue)) \<Rightarrow>
        if depends_on other_job j then
          (case bt_get indeg other_jid of
             None \<Rightarrow> (indeg, queue)
           | Some c \<Rightarrow>
               if c > 0 then
                 (bt_insert other_jid (c - 1) indeg,
                  if c - 1 = 0 then queue @ [other_jid] else queue)
               else (indeg, queue))
        else (indeg, queue))"

definition relax_all ::
  "(JobId, Job) btree \<Rightarrow> JobId \<Rightarrow> indegrees \<times> JobId list \<Rightarrow> indegrees \<times> JobId list" where
  "relax_all js j st = fold (relax j) (bt_entries js) st"

definition waiting :: "indegrees \<Rightarrow> JobId set" where
  "waiting indeg = {k. \<exists>c. bt_get indeg k = Some c \<and> 0 < c}"

subsection \<open>One round in closed form\<close>

lemma finite_waiting: "finite (waiting indeg)"
proof (rule finite_subset)
  show "waiting indeg \<subseteq> set (bt_keys indeg)" by (auto simp: waiting_def bt_in_keys)
qed simp

lemma relax_step:
  assumes "relax j (k0, job0) (indeg, queue) = (i1, q1)"
  shows relax_step_get: "bt_get i1 k = (if k = k0 \<and> depends_on job0 j
      then map_option (\<lambda>c. c - 1) (bt_get indeg k) else bt_get indeg k)"
    and relax_step_queue:
      "q1 = queue @ (if depends_on job0 j \<and> bt_get indeg k0 = Some 1 then [k0] else [])"
  using assms by (auto simp: relax_def bt_get_insert split: if_splits option.splits)

lemma fold_relax_get:
  assumes "distinct (map fst xs)"
    and "fold (relax j) xs (indeg, queue) = (indeg', queue')"
  shows "bt_get indeg' k =
    (case map_of xs k of
       Some job \<Rightarrow> if depends_on job j then map_option (\<lambda>c. c - 1) (bt_get indeg k) else bt_get indeg k
     | None \<Rightarrow> bt_get indeg k)"
  using assms
proof (induction xs arbitrary: indeg queue)
  case (Cons x xs)
  obtain k0 job0 where x: "x = (k0, job0)" by fastforce
  obtain i1 q1 where r: "relax j (k0, job0) (indeg, queue) = (i1, q1)" by fastforce
  have "map_of xs k0 = None" using Cons.prems x by (simp add: map_of_eq_None_iff)
  then show ?case
    using Cons.IH[of i1 q1] Cons.prems r relax_step_get[OF r, of k] x by (auto split: option.splits)
qed simp

lemma fold_relax_queue:
  assumes "distinct (map fst xs)"
  shows "snd (fold (relax j) xs (indeg, queue)) =
    queue @ map fst (filter (\<lambda>(k, job). depends_on job j \<and> bt_get indeg k = Some 1) xs)"
  using assms
proof (induction xs arbitrary: indeg queue)
  case (Cons x xs)
  obtain k0 job0 where x: "x = (k0, job0)" by fastforce
  obtain i1 q1 where r: "relax j (k0, job0) (indeg, queue) = (i1, q1)" by fastforce
  have "bt_get i1 k = bt_get indeg k" if "(k, job) \<in> set xs" for k job
    using that Cons.prems relax_step_get[OF r, of k] x by force
  then have "filter (\<lambda>(k, job). depends_on job j \<and> bt_get i1 k = Some 1) xs =
      filter (\<lambda>(k, job). depends_on job j \<and> bt_get indeg k = Some 1) xs"
    by (intro filter_cong) auto
  then show ?case using Cons.IH[of i1 q1] Cons.prems r relax_step_queue[OF r] x by simp
qed simp

lemma relax_all_get:
  assumes "relax_all js j (indeg, queue) = (indeg', queue')"
  shows "bt_get indeg' k =
    (case bt_get js k of
       Some job \<Rightarrow> if depends_on job j then map_option (\<lambda>c. c - 1) (bt_get indeg k) else bt_get indeg k
     | None \<Rightarrow> bt_get indeg k)"
  using fold_relax_get[of "bt_entries js" j indeg queue indeg' queue' k] assms bt_distinct_keys[of js]
  by (simp add: relax_all_def bt_get_def bt_keys_def)

lemma relax_all_queue:
  assumes "relax_all js j (indeg, queue) = (indeg', queue')"
  shows "queue' = queue @
    filter (\<lambda>k. \<exists>job. bt_get js k = Some job \<and> depends_on job j \<and> bt_get indeg k = Some 1) (bt_keys js)"
proof -
  have "map fst (filter (\<lambda>(k, job). depends_on job j \<and> bt_get indeg k = Some 1) (bt_entries js)) =
      map fst (filter ((\<lambda>k. \<exists>job. bt_get js k = Some job \<and> depends_on job j
        \<and> bt_get indeg k = Some 1) \<circ> fst) (bt_entries js))"
    by (rule arg_cong[where f = "map fst"], rule filter_cong) (auto simp flip: bt_get_Some_entries)
  then show ?thesis
    using fold_relax_queue[of "bt_entries js" j indeg queue] assms bt_distinct_keys[of js]
    by (simp add: relax_all_def bt_keys_def filter_map)
qed

lemma relax_all_measure:
  assumes r: "relax_all js j (indeg, queue) = (indeg', queue')"
  shows "length queue' + card (waiting indeg') \<le> length queue + card (waiting indeg)"
proof -
  let ?new = "filter (\<lambda>k. \<exists>job. bt_get js k = Some job \<and> depends_on job j
    \<and> bt_get indeg k = Some 1) (bt_keys js)"
  have q: "queue' = queue @ ?new" using r by (rule relax_all_queue)
  have sub: "waiting indeg' \<subseteq> waiting indeg - set ?new"
    using relax_all_get[OF r] by (auto simp: waiting_def bt_in_keys split: option.splits if_splits)
  have new: "set ?new \<subseteq> waiting indeg" by (auto simp: waiting_def)
  have "card (waiting indeg') \<le> card (waiting indeg - set ?new)"
    using sub by (intro card_mono) (simp_all add: finite_waiting)
  also have "\<dots> = card (waiting indeg) - length ?new"
    using new distinct_card[of ?new] by (simp add: card_Diff_subset)
  finally have "card (waiting indeg') \<le> card (waiting indeg) - length ?new" .
  moreover have "length ?new \<le> card (waiting indeg)"
    using card_mono[OF finite_waiting new] distinct_card[of ?new] by simp
  ultimately show ?thesis using q by simp
qed

subsection \<open>The loop\<close>

function kahn ::
  "(JobId, Job) btree \<Rightarrow> indegrees \<Rightarrow> JobId list \<Rightarrow> JobId list \<Rightarrow> indegrees \<times> JobId list" where
  "kahn js indeg [] order = (indeg, order)"
| "kahn js indeg (j # queue) order =
     (case relax_all js j (indeg, queue) of
        (indeg', queue') \<Rightarrow> kahn js indeg' queue' (order @ [j]))"
  by pat_completeness auto
termination
proof (relation "measure (\<lambda>(js, indeg, queue, order). length queue + card (waiting indeg))")
  fix js :: "(JobId, Job) btree" and indeg j queue order indeg' queue'
  assume "(indeg', queue') = relax_all js j (indeg, queue)"
  then have "length queue' + card (waiting indeg') \<le> length queue + card (waiting indeg)"
    by (intro relax_all_measure) simp
  then show "((js, indeg', queue', order @ [j]), (js, indeg, j # queue, order))
      \<in> measure (\<lambda>(js, indeg, queue, order). length queue + card (waiting indeg))"
    by simp
qed simp

definition topological_order :: "(JobId, Job) btree \<Rightarrow> Uuid \<Rightarrow> JobManagerError + JobId list" where
  "topological_order js flow_uuid =
     (let indeg = bt_map (\<lambda>_ job. length (parents job)) js;
          queue = List.map_filter (\<lambda>(k, v). if v = 0 then Some k else None) (bt_entries indeg);
          (indeg', order) = kahn js indeg queue []
      in if length order \<noteq> bt_len js then
           Err (DependencyCycle flow_uuid
             (List.map_filter (\<lambda>(j, c). if 0 < c then Some j else None) (bt_entries indeg')))
         else Ok order)"

subsection \<open>The loop invariant\<close>

definition sources :: "Job \<Rightarrow> JobId set" where
  "sources job = edge_from ` set (parents job)"

lemma depends_on_sources: "depends_on job j \<longleftrightarrow> j \<in> sources job"
  by (auto simp: depends_on_def sources_def list_ex_iff)

lemma finite_sources [simp]: "finite (sources job)"
  by (simp add: sources_def)

lemma card_sources: "card (sources job) \<le> length (parents job)"
  using card_length[of "map edge_from (parents job)"] by (simp add: sources_def)

definition edges_left :: "Job \<Rightarrow> JobId set \<Rightarrow> nat" where
  "edges_left job V = length (parents job) - card (sources job \<inter> V)"

definition kahn_inv :: "(JobId, Job) btree \<Rightarrow> indegrees \<Rightarrow> JobId list \<Rightarrow> JobId list \<Rightarrow> bool" where
  "kahn_inv js indeg queue order \<longleftrightarrow>
     (\<forall>k. bt_get indeg k = map_option (\<lambda>job. edges_left job (set order)) (bt_get js k))
     \<and> distinct (order @ queue)
     \<and> (\<forall>k. k \<in> set (order @ queue) \<longleftrightarrow> bt_get indeg k = Some 0)
     \<and> (\<forall>k job p. k \<in> set order \<longrightarrow> bt_get js k = Some job \<longrightarrow> p \<in> sources job \<longrightarrow> precedes order p k)"

lemma edges_left_insert:
  assumes "v \<notin> V"
  shows "edges_left job (insert v V) = (if v \<in> sources job then edges_left job V - 1 else edges_left job V)"
  using assms by (simp add: edges_left_def Int_insert_right card_insert_if)

lemma edges_left_pos:
  assumes "v \<in> sources job" and "v \<notin> V"
  shows "0 < edges_left job V"
proof -
  have "sources job \<inter> V \<subset> sources job" using assms by blast
  then have "card (sources job \<inter> V) < card (sources job)" by (rule psubset_card_mono[OF finite_sources])
  then show ?thesis using card_sources[of job] by (simp add: edges_left_def)
qed

lemma edges_left_zero:
  "edges_left job V = 0 \<longleftrightarrow> sources job \<subseteq> V \<and> distinct (map edge_from (parents job))"
proof
  assume z: "edges_left job V = 0"
  have "sources job \<subseteq> V" using z edges_left_pos by (metis less_irrefl subsetI)
  moreover have "card (sources job) = length (parents job)"
    using z card_sources[of job] card_mono[OF finite_sources[of job], of "sources job \<inter> V"]
    by (simp add: edges_left_def)
  then have "distinct (map edge_from (parents job))"
    by (intro card_distinct) (simp add: sources_def)
  ultimately show "sources job \<subseteq> V \<and> distinct (map edge_from (parents job))" by simp
next
  assume h: "sources job \<subseteq> V \<and> distinct (map edge_from (parents job))"
  then have "card (sources job \<inter> V) = length (parents job)"
    using distinct_card[of "map edge_from (parents job)"] by (simp add: sources_def Int_absorb2)
  then show "edges_left job V = 0" by (simp add: edges_left_def)
qed

lemma kahn_inv_step:
  assumes inv: "kahn_inv js indeg (j # queue) order"
    and r: "relax_all js j (indeg, queue) = (indeg', queue')"
  shows "kahn_inv js indeg' queue' (order @ [j])"
proof -
  let ?new = "filter (\<lambda>k. \<exists>job. bt_get js k = Some job \<and> depends_on job j
    \<and> bt_get indeg k = Some 1) (bt_keys js)"
  have g: "bt_get indeg k = map_option (\<lambda>job. edges_left job (set order)) (bt_get js k)" for k
    using inv by (simp add: kahn_inv_def)
  have d: "distinct (order @ j # queue)" using inv by (simp add: kahn_inv_def)
  have zero: "k \<in> set (order @ j # queue) \<longleftrightarrow> bt_get indeg k = Some 0" for k
    using inv by (simp add: kahn_inv_def)
  have q: "queue' = queue @ ?new" using r by (rule relax_all_queue)
  have fresh: "j \<notin> set order" using d by simp
  have g': "bt_get indeg' k = map_option (\<lambda>job. edges_left job (set (order @ [j]))) (bt_get js k)" for k
    using relax_all_get[OF r, of k] g[of k] fresh
    by (auto simp: depends_on_sources edges_left_insert split: option.splits)
  have new: "k \<in> set ?new \<longleftrightarrow> bt_get indeg' k = Some 0 \<and> bt_get indeg k \<noteq> Some 0" for k
    using g'[of k] g[of k] fresh
    by (cases "bt_get js k") (auto simp: bt_in_keys depends_on_sources edges_left_insert)
  have keep: "bt_get indeg k = Some 0 \<Longrightarrow> bt_get indeg' k = Some 0" for k
    using relax_all_get[OF r, of k] by (auto split: option.splits)
  have "distinct (order @ j # queue @ ?new)" using d zero new by auto
  moreover have "k \<in> set (order @ j # queue @ ?new) \<longleftrightarrow> bt_get indeg' k = Some 0" for k
    using zero[of k] new[of k] keep[of k] by auto
  moreover have "precedes (order @ [j]) p k"
    if "k \<in> set (order @ [j])" "bt_get js k = Some job" "p \<in> sources job" for k job p
  proof (cases "k = j")
    case True
    then have "edges_left job (set order) = 0" using zero[of k] g[of k] that(2) by simp
    with that(3) True show ?thesis by (auto simp: edges_left_zero precedes_snoc)
  next
    case False
    with that inv show ?thesis by (auto simp: kahn_inv_def precedes_snoc)
  qed
  ultimately show ?thesis using g' q by (simp add: kahn_inv_def)
qed

lemma kahn_final:
  "kahn_inv js indeg queue order \<Longrightarrow> kahn js indeg queue order = (indeg', order') \<Longrightarrow>
    kahn_inv js indeg' [] order'"
proof (induction js indeg queue order rule: kahn.induct)
  case (1 js indeg order)
  then show ?case by simp
next
  case (2 js indeg j queue order)
  obtain i q where r: "relax_all js j (indeg, queue) = (i, q)" by fastforce
  with 2 show ?case using kahn_inv_step by simp
qed

lemma topological_order_run:
  obtains indeg order where
    "kahn_inv js indeg [] order"
    "topological_order js u =
      (if set order = set (bt_keys js) then Ok order
       else Err (DependencyCycle u (filter (\<lambda>k. k \<notin> set order) (bt_keys js))))"
proof -
  let ?indeg = "bt_map (\<lambda>_ job. length (parents job)) js"
  let ?queue = "List.map_filter (\<lambda>(k, v). if v = 0 then Some k else None) (bt_entries ?indeg)"
  obtain indeg order where k: "kahn js ?indeg ?queue [] = (indeg, order)" by fastforce
  have mf: "List.map_filter (\<lambda>(k, v). if P v then Some k else None) (bt_entries m)
      = filter (\<lambda>k. \<exists>v. bt_get m k = Some v \<and> P v) (bt_keys m)" for P and m :: indegrees
  proof -
    have "List.map_filter (\<lambda>(k, v). if P v then Some k else None) (bt_entries m)
        = map fst (filter (\<lambda>(k, v). P v) (bt_entries m))"
      unfolding List.map_filter_def by (auto simp: comp_def case_prod_unfold if_distrib cong: map_cong)
    also have "\<dots> = map fst (filter ((\<lambda>k. \<exists>v. bt_get m k = Some v \<and> P v) \<circ> fst) (bt_entries m))"
    proof (rule arg_cong[where f = "map fst"], rule filter_cong)
      fix e assume "e \<in> set (bt_entries m)"
      then have "bt_get m (fst e) = Some (snd e)" by (simp add: bt_get_Some_entries)
      then show "(case e of (k, v) \<Rightarrow> P v) = ((\<lambda>k. \<exists>v. bt_get m k = Some v \<and> P v) \<circ> fst) e"
        by (cases e) simp
    qed simp
    also have "\<dots> = filter (\<lambda>k. \<exists>v. bt_get m k = Some v \<and> P v) (bt_keys m)"
      by (simp add: bt_keys_def filter_map)
    finally show ?thesis .
  qed
  have "kahn_inv js ?indeg ?queue []"
    by (auto simp: kahn_inv_def mf bt_get_map edges_left_def bt_in_keys)
  then have inv: "kahn_inv js indeg [] order" using k by (rule kahn_final)
  then have g: "bt_get indeg k = map_option (\<lambda>job. edges_left job (set order)) (bt_get js k)"
    and z: "k \<in> set order \<longleftrightarrow> bt_get indeg k = Some 0" for k
    by (simp_all add: kahn_inv_def)
  have keys: "bt_keys indeg = bt_keys js"
    by (rule strict_sorted_equal) (use g bt_sorted in \<open>auto simp: bt_in_keys\<close>)
  have "set order \<subseteq> set (bt_keys indeg)" using z by (auto simp: bt_in_keys)
  then have sub: "set order \<subseteq> set (bt_keys js)" using keys by simp
  have "distinct order" using inv by (simp add: kahn_inv_def)
  then have len: "length order = bt_len js \<longleftrightarrow> set order = set (bt_keys js)"
    using sub card_subset_eq[of "set (bt_keys js)" "set order"]
    by (auto simp: bt_len_keys distinct_card[symmetric])
  have "filter (\<lambda>k. \<exists>v. bt_get indeg k = Some v \<and> 0 < v) (bt_keys indeg)
      = filter (\<lambda>k. k \<notin> set order) (bt_keys js)"
    unfolding keys
  proof (rule filter_cong)
    fix k
    assume "k \<in> set (bt_keys js)"
    then have "k \<in> set (bt_keys indeg)" using keys by simp
    then obtain c where "bt_get indeg k = Some c" by (auto simp: bt_in_keys)
    then show "(\<exists>v. bt_get indeg k = Some v \<and> 0 < v) = (k \<notin> set order)" using z[of k] by simp
  qed simp
  then show thesis
    using that[of indeg order] inv k len by (simp add: topological_order_def mf Let_def)
qed

subsection \<open>What the order is and when there is one\<close>

definition topo_sorted :: "(JobId, Job) btree \<Rightarrow> JobId list \<Rightarrow> bool" where
  \<comment> \<open>every job once, after the sources of all its parent edges\<close>
  "topo_sorted js order \<longleftrightarrow> distinct order \<and> set order = set (bt_keys js)
     \<and> (\<forall>k job. bt_get js k = Some job \<longrightarrow> (\<forall>e\<in>set (parents job). precedes order (edge_from e) k))"

definition no_duplicate_edges :: "(JobId, Job) btree \<Rightarrow> bool" where
  "no_duplicate_edges js \<longleftrightarrow>
     (\<forall>k job. bt_get js k = Some job \<longrightarrow> distinct (map edge_from (parents job)))"

lemma topological_order_sound:
  assumes "topological_order js u = Ok order"
  shows "topo_sorted js order" and "no_duplicate_edges js"
proof -
  obtain indeg order' where inv: "kahn_inv js indeg [] order'"
    and t: "topological_order js u = (if set order' = set (bt_keys js) then Ok order'
       else Err (DependencyCycle u (filter (\<lambda>k. k \<notin> set order') (bt_keys js))))"
    by (rule topological_order_run)
  have eq: "order' = order" and all: "set order = set (bt_keys js)"
    using t assms by (auto split: if_splits)
  have zero: "edges_left job (set order) = 0" if job: "bt_get js k = Some job" for k job
  proof -
    have "k \<in> set order" using all job by (auto simp: bt_in_keys)
    then show ?thesis using inv job eq by (simp add: kahn_inv_def)
  qed
  then show "no_duplicate_edges js" by (auto simp: no_duplicate_edges_def edges_left_zero)
  show "topo_sorted js order"
    using inv all eq by (auto simp: topo_sorted_def kahn_inv_def sources_def bt_in_keys)
qed

lemma split_unique:
  "us @ b # vs = us' @ b # vs' \<Longrightarrow> distinct (us @ b # vs) \<Longrightarrow> us = us'"
proof (induction us arbitrary: us')
  case Nil
  then show ?case by (cases us') auto
next
  case (Cons a us)
  then show ?case by (cases us') auto
qed

lemma topological_order_complete:
  assumes s: "topo_sorted js o'" and nd: "no_duplicate_edges js"
  shows "is_ok (topological_order js u)"
proof -
  obtain indeg order where inv: "kahn_inv js indeg [] order"
    and t: "topological_order js u = (if set order = set (bt_keys js) then Ok order
       else Err (DependencyCycle u (filter (\<lambda>k. k \<notin> set order) (bt_keys js))))"
    by (rule topological_order_run)
  have z: "k \<in> set order" if "bt_get js k = Some job" "edges_left job (set order) = 0" for k job
    using inv that by (simp add: kahn_inv_def)
  have "set us \<subseteq> set order" if "o' = us @ vs" for us vs
    using that
  proof (induction us arbitrary: vs rule: rev_induct)
    case (snoc b us)
    then have IH: "set us \<subseteq> set order" by simp
    have "b \<in> set (bt_keys js)" using s snoc.prems by (auto simp: topo_sorted_def)
    then obtain job where job: "bt_get js b = Some job" by (auto simp: bt_in_keys)
    have "sources job \<subseteq> set us"
    proof
      fix p
      assume "p \<in> sources job"
      then have "precedes o' p b" using s job by (auto simp: topo_sorted_def sources_def)
      then obtain us' vs' where "o' = us' @ b # vs'" and p: "p \<in> set us'" by (auto simp: precedes_def)
      moreover have "o' = us @ b # vs" using snoc.prems by simp
      moreover have "distinct o'" using s by (simp add: topo_sorted_def)
      ultimately have "us' = us" by (intro split_unique[of us' b vs' us vs]) simp_all
      with p show "p \<in> set us" by simp
    qed
    then have "edges_left job (set order) = 0"
      using IH nd job by (auto simp: edges_left_zero no_duplicate_edges_def)
    with job z IH show ?case by simp
  qed simp
  from this[of o' "[]"] have "set (bt_keys js) \<subseteq> set order" using s by (simp add: topo_sorted_def)
  moreover have "set order \<subseteq> set (bt_keys js)" using inv by (auto simp: kahn_inv_def bt_in_keys)
  ultimately show ?thesis using t by simp
qed

text \<open>
  C17. The order that \<open>topological_order\<close> returns lists every job of the flow exactly
  once, each after all of its parents.
\<close>

theorem topological_order_sorted:
  assumes "topological_order js u = Ok order"
  shows "distinct order \<and> set order = set (bt_keys js)
    \<and> (\<forall>k job e. bt_get js k = Some job \<and> e \<in> set (parents job) \<longrightarrow> precedes order (edge_from e) k)"
  using topological_order_sound(1)[OF assms] by (auto simp: topo_sorted_def)

text \<open>
  C6. The function succeeds exactly when the jobs can be listed with parents first and no job
  has two edges from one parent: a second edge counts twice in the indegree and is discounted
  once, so an acyclic flow with a duplicate edge is reported as a cycle.
\<close>

theorem topological_order_ok_iff:
  "is_ok (topological_order js u) \<longleftrightarrow> no_duplicate_edges js \<and> (\<exists>order. topo_sorted js order)"
proof
  assume "is_ok (topological_order js u)"
  then obtain order where "topological_order js u = Ok order"
    by (cases "topological_order js u") auto
  then show "no_duplicate_edges js \<and> (\<exists>order. topo_sorted js order)"
    using topological_order_sound by blast
next
  assume "no_duplicate_edges js \<and> (\<exists>order. topo_sorted js order)"
  then show "is_ok (topological_order js u)" using topological_order_complete by blast
qed

text \<open>
  C22. The error names the flow and, in key order and without repetition, a non-empty set of its
  jobs, each of which is blocked: it has a duplicate parent edge, or a parent that is not a job
  of the flow, or a parent in the set itself. Every job outside the set has all its parents
  outside it.
\<close>

theorem topological_order_error:
  assumes "topological_order js u = Err e"
  shows "\<exists>remaining. e = DependencyCycle u remaining \<and> remaining \<noteq> [] \<and> sorted_wrt (<) remaining
    \<and> set remaining \<subseteq> set (bt_keys js)
    \<and> (\<forall>k job. bt_get js k = Some job \<longrightarrow>
        (k \<in> set remaining \<longleftrightarrow> \<not> distinct (map edge_from (parents job))
           \<or> (\<exists>d\<in>set (parents job). edge_from d \<notin> set (bt_keys js) \<or> edge_from d \<in> set remaining)))"
proof -
  obtain indeg order where inv: "kahn_inv js indeg [] order"
    and t: "topological_order js u = (if set order = set (bt_keys js) then Ok order
       else Err (DependencyCycle u (filter (\<lambda>k. k \<notin> set order) (bt_keys js))))"
    by (rule topological_order_run)
  let ?rem = "filter (\<lambda>k. k \<notin> set order) (bt_keys js)"
  have sub: "set order \<subseteq> set (bt_keys js)" using inv by (auto simp: kahn_inv_def bt_in_keys)
  have e: "e = DependencyCycle u ?rem" and ne: "set order \<noteq> set (bt_keys js)"
    using t assms by (auto split: if_splits)
  have z: "k \<in> set order \<longleftrightarrow> edges_left job (set order) = 0" if "bt_get js k = Some job" for k job
    using inv that by (simp add: kahn_inv_def)
  have "?rem \<noteq> []" using ne sub by (auto simp: filter_empty_conv)
  moreover have "sorted_wrt (<) ?rem" by (rule sorted_wrt_filter[OF bt_sorted])
  moreover have "k \<in> set ?rem \<longleftrightarrow> \<not> distinct (map edge_from (parents job))
      \<or> (\<exists>d\<in>set (parents job). edge_from d \<notin> set (bt_keys js) \<or> edge_from d \<in> set ?rem)"
    if "bt_get js k = Some job" for k job
  proof -
    have "k \<in> set ?rem \<longleftrightarrow> \<not> (sources job \<subseteq> set order \<and> distinct (map edge_from (parents job)))"
      using z[OF that] that by (auto simp: edges_left_zero bt_in_keys)
    then show ?thesis using sub by (auto simp: sources_def)
  qed
  ultimately show ?thesis using e by auto
qed

subsection \<open>Concrete flows\<close>

definition plain_config :: SlurmJobConfig where
  "plain_config = \<lparr>partition_name = ''gr10'', time_limit = None, log_stdout = None,
     log_stderr = None, comment = None, job_name = None, array_spec = None, dependency = None,
     mail_user = None, mail_types = None, resource_spec = None\<rparr>"

definition job_after :: "string list \<Rightarrow> Job" where
  "job_after ps = \<lparr>spec = \<lparr>program = Program ''bash'', body = ''true'', config = plain_config\<rparr>,
     parents = map (\<lambda>p. \<lparr>edge_from = JobId p, edge_kind = DependencyType ''afterok''\<rparr>) ps\<rparr>"

definition diamond :: "(JobId, Job) btree" where
  "diamond = bt_of_list [(JobId ''a'', job_after [''c'']), (JobId ''b'', job_after [''c'']),
     (JobId ''c'', job_after []), (JobId ''d'', job_after [''a'', ''b''])]"

definition looped :: "(JobId, Job) btree" where
  "looped = bt_of_list [(JobId ''a'', job_after []), (JobId ''b'', job_after [''a'', ''c'']),
     (JobId ''c'', job_after [''b''])]"

definition doubled :: "(JobId, Job) btree" where
  \<comment> \<open>acyclic, but b names its parent twice\<close>
  "doubled = bt_of_list [(JobId ''a'', job_after []), (JobId ''b'', job_after [''a'', ''a''])]"

lemma diamond_order:
  "topological_order diamond u = Ok [JobId ''c'', JobId ''a'', JobId ''b'', JobId ''d'']"
  by code_simp

lemma topological_order_sorted_witness:
  "distinct [JobId ''c'', JobId ''a'', JobId ''b'', JobId ''d'']
    \<and> set [JobId ''c'', JobId ''a'', JobId ''b'', JobId ''d''] = set (bt_keys diamond)"
  using topological_order_sorted[OF diamond_order[of "Uuid ''u''"]] by blast

lemma looped_order:
  "topological_order looped u = Err (DependencyCycle u [JobId ''b'', JobId ''c''])"
  by code_simp

lemma topological_order_error_witness:
  "\<exists>remaining. DependencyCycle (Uuid ''u'') [JobId ''b'', JobId ''c''] = DependencyCycle (Uuid ''u'') remaining
    \<and> remaining \<noteq> []"
  using topological_order_error[OF looped_order[of "Uuid ''u''"]] by blast

lemma doubled_order:
  "topological_order doubled u = Err (DependencyCycle u [JobId ''b''])"
  by code_simp

end
