(* ===== verification/Samples.thy ===== *)
theory Samples
  imports Storage Layout Topology
begin

section \<open>Concrete instances for the witnesses\<close>

text \<open>
  Concrete third-party functions, flows and worlds at which the properties are evaluated. The
  codec of job runs is a real one, with a field per separator; flows, plans and configurations are
  told apart by a tag, which is all the concrete worlds need.
\<close>

definition show_state :: "JobState \<Rightarrow> string" where
  "show_state s = (case s of
     JsPending \<Rightarrow> ''PD'' | JsConfiguring \<Rightarrow> ''CF'' | JsRequeued \<Rightarrow> ''RQ'' | JsRequeueFed \<Rightarrow> ''RF''
   | JsRequeueHold \<Rightarrow> ''RH'' | JsResvDelHold \<Rightarrow> ''RD'' | JsSuspended \<Rightarrow> ''S'' | JsStopped \<Rightarrow> ''ST''
   | JsRunning \<Rightarrow> ''R'' | JsCompleting \<Rightarrow> ''CG'' | JsResizing \<Rightarrow> ''RS'' | JsSignaling \<Rightarrow> ''SI''
   | JsStageOut \<Rightarrow> ''SO'' | JsCompleted \<Rightarrow> ''CD'' | JsBootFail \<Rightarrow> ''BF'' | JsCancelled \<Rightarrow> ''CA''
   | JsDeadline \<Rightarrow> ''DL'' | JsFailed \<Rightarrow> ''F'' | JsNodeFail \<Rightarrow> ''NF'' | JsOutOfMemory \<Rightarrow> ''OOM''
   | JsPreempted \<Rightarrow> ''PR'' | JsRevoked \<Rightarrow> ''RV'' | JsSpecialExit \<Rightarrow> ''SE'' | JsTimeout \<Rightarrow> ''TO''
   | JsUnknown \<Rightarrow> ''?'')"

definition all_states :: "JobState list" where
  "all_states = [JsPending, JsConfiguring, JsRequeued, JsRequeueFed, JsRequeueHold, JsResvDelHold,
     JsSuspended, JsStopped, JsRunning, JsCompleting, JsResizing, JsSignaling, JsStageOut,
     JsCompleted, JsBootFail, JsCancelled, JsDeadline, JsFailed, JsNodeFail, JsOutOfMemory,
     JsPreempted, JsRevoked, JsSpecialExit, JsTimeout, JsUnknown]"

definition show_lifecycle :: "Lifecycle \<Rightarrow> string" where
  "show_lifecycle l = (case l of
     Queued \<Rightarrow> ''queued'' | Running \<Rightarrow> ''running'' | Success \<Rightarrow> ''success''
   | Failed \<Rightarrow> ''failed'' | Skipped \<Rightarrow> ''skipped'')"

definition mark :: "string \<Rightarrow> string" where
  \<comment> \<open>a field: every byte marked, and a final dot\<close>
  "mark f = concat (map (\<lambda>c. [CHR ''x'', c]) f) @ ''.''"

fun unmark :: "string \<Rightarrow> string \<Rightarrow> string list" where
  "unmark acc (m # cs) =
     (if m = CHR ''.'' then rev acc # unmark [] cs
      else case cs of [] \<Rightarrow> [] | c # ds \<Rightarrow> unmark (c # acc) ds)"
| "unmark acc [] = []"

lemma unmark_mark: "unmark acc (mark f @ r) = (rev acc @ f) # unmark [] r"
  by (induction f arbitrary: acc) (simp_all add: mark_def)

definition show_time :: "DateTime \<Rightarrow> string" where
  "show_time t = (if t < 0 then ''-'' else ''+'') @ show_nat (nat \<bar>t\<bar>)"

definition read_time :: "string \<Rightarrow> DateTime" where
  "read_time s = (if hd s = CHR ''-'' then - int (digits_val (tl s)) else int (digits_val (tl s)))"

definition encode_run :: "JobRun \<Rightarrow> string + string" where
  "encode_run r = Ok (concat (map mark
     [show_lifecycle (lifecycle r), show_time (updated_at r),
      (case slurm_jobid r of None \<Rightarrow> [] | Some n \<Rightarrow> show_nat (unat n)),
      (case slurm_status r of None \<Rightarrow> [] | Some st \<Rightarrow> show_state (js_state st)),
      (case slurm_status r of None \<Rightarrow> [] | Some st \<Rightarrow> js_reason st),
      (case run_note r of None \<Rightarrow> [] | Some n \<Rightarrow> CHR ''='' # n)]))"

definition decode_run :: "string \<Rightarrow> string + JobRun" where
  "decode_run t =
     (case unmark [] t of
        [l, u, i, s, rs, n] \<Rightarrow>
          (case List.find (\<lambda>x. show_lifecycle x = l) [Queued, Running, Success, Failed, Skipped] of
             Some lc \<Rightarrow>
               Ok \<lparr>lifecycle = lc, updated_at = read_time u, slurm_jobid = parse_u64 i,
                  slurm_status = map_option (\<lambda>st. \<lparr>js_state = st, js_reason = rs\<rparr>)
                    (List.find (\<lambda>x. show_state x = s) all_states),
                  run_note = (case n of [] \<Rightarrow> None | _ # m \<Rightarrow> Some m)\<rparr>
           | None \<Rightarrow> Err ''bad status'')
      | _ \<Rightarrow> Err ''bad status'')"

lemma find_lifecycle:
  "List.find (\<lambda>x. show_lifecycle x = show_lifecycle l) [Queued, Running, Success, Failed, Skipped] = Some l"
  by (cases l) (simp_all add: show_lifecycle_def)

lemma find_state: "List.find (\<lambda>x. show_state x = show_state s) all_states = Some s"
  by (cases s) (simp_all add: show_state_def all_states_def)

lemma find_no_state: "List.find (\<lambda>x. show_state x = []) all_states = None"
  by (simp add: show_state_def all_states_def)

lemma read_show_time: "read_time (show_time t) = t"
  by (simp add: read_time_def show_time_def)

lemma unmark_fields: "unmark [] (concat (map mark fs)) = fs"
  by (induction fs) (simp_all add: unmark_mark)

lemma read_state:
  "map_option (\<lambda>st. \<lparr>js_state = st, js_reason = (case o' of None \<Rightarrow> [] | Some st \<Rightarrow> js_reason st)\<rparr>)
     (List.find (\<lambda>x. show_state x = (case o' of None \<Rightarrow> [] | Some st \<Rightarrow> show_state (js_state st))) all_states) = o'"
  by (cases o') (simp_all add: find_state find_no_state)

lemma read_jobid: "parse_u64 (case i of None \<Rightarrow> [] | Some n \<Rightarrow> show_nat (unat n)) = i"
  by (cases i) (simp_all add: parse_u64_show, simp add: parse_u64_def)

lemma read_note: "(case (case n of None \<Rightarrow> [] | Some n \<Rightarrow> CHR ''='' # n) of [] \<Rightarrow> None | _ # m \<Rightarrow> Some m) = n"
  by (cases n) simp_all

lemma sample_texts_utf8 [simp]: "utf8 ''FLOW''" "utf8 ''PLAN''"
  by code_simp+

lemma mark_ascii: "list_all (\<lambda>c. code c < 128) f \<Longrightarrow> list_all (\<lambda>c. code c < 128) (mark f)"
  by (induction f) (simp_all add: mark_def code_def)

lemma show_nat_ascii: "list_all (\<lambda>c. code c < 128) (show_nat n)"
  using show_nat_digits[of n] by (auto simp: list_all_iff is_digit_def)

lemma encode_run_utf8:
  assumes "encode_run r = Ok t" and "run_note r = None" and "slurm_status r = None"
  shows "utf8 t"
proof -
  have "list_all (\<lambda>c. code c < 128) (show_lifecycle (lifecycle r))"
    by (cases "lifecycle r") (simp_all add: show_lifecycle_def code_def)
  moreover have "list_all (\<lambda>c. code c < 128) (show_time (updated_at r))"
    using show_nat_ascii by (simp add: show_time_def code_def)
  ultimately show ?thesis
    using assms show_nat_ascii
    by (auto simp: encode_run_def intro!: utf8_append utf8_ascii mark_ascii split: option.split)
qed

lemma decode_encode_run: "encode_run r = Ok t \<Longrightarrow> decode_run t = Ok r"
proof -
  assume "encode_run r = Ok t"
  then have t: "t = concat (map mark
     [show_lifecycle (lifecycle r), show_time (updated_at r),
      (case slurm_jobid r of None \<Rightarrow> [] | Some n \<Rightarrow> show_nat (unat n)),
      (case slurm_status r of None \<Rightarrow> [] | Some st \<Rightarrow> show_state (js_state st)),
      (case slurm_status r of None \<Rightarrow> [] | Some st \<Rightarrow> js_reason st),
      (case run_note r of None \<Rightarrow> [] | Some n \<Rightarrow> CHR ''='' # n)])"
    by (simp only: encode_run_def sum.inject)
  show ?thesis
    unfolding decode_run_def t unmark_fields list.case find_lifecycle option.case read_state read_jobid
      read_note read_show_time
    by simp
qed

definition sample_flow :: JobFlow where
  \<comment> \<open>b runs after a\<close>
  "sample_flow = \<lparr>flow_id = sample_uuid, created_at = 0, tags = bt_of_list [(''project'', ''p1'')],
     jobs = bt_of_list [(JobId ''a'', job_after []), (JobId ''b'', job_after [''a''])]\<rparr>"

definition sample_plan :: ExperimentPlan where
  "sample_plan = \<lparr>plan_jobs = bt_of_list
     [(JobId ''a'', bt_of_list [(''x'', TInteger 1)]), (JobId ''b'', bt_empty)]\<rparr>"

definition sample_common :: CommonConfig where
  "sample_common = \<lparr>slurm_default = plain_config, project_root = ''.''\<rparr>"

definition sample_crates :: crates where
  "sample_crates = \<lparr>
     jobid_display = jid,
     jobids_debug = (\<lambda>js. join '', '' (map jid js)),
     dep_from_str = Ok,
     os_bytes = path_display,
     uuid_parse = (\<lambda>s. Ok (Uuid s)),
     to_rfc3339 = (\<lambda>t. show_nat (nat t)),
     to_rfc3339_secs = (\<lambda>t. show_nat (nat t)),
     parse_rfc3339 = (\<lambda>s. case parse_u64 s of None \<Rightarrow> Err ''bad'' | Some n \<Rightarrow> Ok (int (unat n))),
     toml_display = (\<lambda>v. case v of TString s \<Rightarrow> s | TInteger n \<Rightarrow> show_nat (nat n) | _ \<Rightarrow> ''?''),
     toml_de_value = (\<lambda>t. if t = ''FLOW'' then Ok (TTable []) else Err ''bad''),
     toml_value_flow = (\<lambda>v. Ok sample_flow),
     toml_de_flow = (\<lambda>t. if t = ''FLOW'' then Ok sample_flow else Err ''bad''),
     toml_ser_flow = (\<lambda>f. Ok ''FLOW''),
     toml_de_plan = (\<lambda>t. if t = ''PLAN'' then Ok sample_plan else Err ''bad''),
     toml_ser_plan = (\<lambda>p. Ok ''PLAN''),
     toml_de_run = decode_run,
     toml_ser_run = encode_run,
     toml_de_common = (\<lambda>t. if t = ''COMMON'' then Ok sample_common else Err ''bad''),
     toml_ser_common = (\<lambda>c. Ok ''COMMON'')\<rparr>"

definition sample_root :: PathResolver where
  "sample_root = \<lparr>res_root = [RootDir, Normal ''data'']\<rparr>"

definition queued_run :: JobRun where
  "queued_run = \<lparr>lifecycle = Queued, updated_at = 3, slurm_jobid = Some 17, slurm_status = None,
     run_note = None\<rparr>"

definition queued_text :: string where
  "queued_text = (case encode_run queued_run of Ok t \<Rightarrow> t | Err _ \<Rightarrow> [])"

lemma encode_queued: "encode_run queued_run = Ok queued_text"
  by (simp add: queued_text_def encode_run_def)

lemma decode_queued: "decode_run queued_text = Ok queued_run"
  using encode_queued by (rule decode_encode_run)

lemma queued_text_length: "length queued_text < 100"
  by code_simp

end
