(* ===== verification/Persistence.thy ===== *)
theory Persistence
  imports Storage Layout Samples
begin

section \<open>Readers, writers and defaults (persistence/*.rs)\<close>

text \<open>
  One reader and one writer per file kind, over the size-limited read and the atomic write of
  theory Storage; the partition default that \<open>read_flow\<close> injects into the TOML tree before it
  is deserialised; and the merge of a job's configuration with the common defaults.
\<close>

subsection \<open>Partition defaults (persistence/flow.rs)\<close>

definition type_str :: "Toml \<Rightarrow> string" where
  "type_str v = (case v of
     TString _ \<Rightarrow> ''string'' | TInteger _ \<Rightarrow> ''integer'' | TFloat _ \<Rightarrow> ''float''
   | TBoolean _ \<Rightarrow> ''boolean'' | TDatetime _ \<Rightarrow> ''datetime'' | TArray _ \<Rightarrow> ''array''
   | TTable _ \<Rightarrow> ''table'')"

definition table_or_insert :: "string \<Rightarrow> Toml \<Rightarrow> (string \<times> Toml) list \<Rightarrow> (string \<times> Toml) list" where
  \<comment> \<open>\<open>entry(k).or_insert(d)\<close>\<close>
  "table_or_insert k d t = (case map_of t k of None \<Rightarrow> t @ [(k, d)] | Some _ \<Rightarrow> t)"

definition inject_job ::
  "string option \<Rightarrow> string \<times> Toml \<Rightarrow> JobManagerError + string \<times> Toml" where
  \<comment> \<open>the body of the loop\<close>
  "inject_job common_partition entry =
     (case entry of (job_id_str, job_val) \<Rightarrow>
       (case job_val of
          TTable job_t0 \<Rightarrow>
            (let job_t = table_or_insert ''config'' (TTable []) job_t0
             in case map_of job_t ''config'' of
                  Some (TTable cfg_t) \<Rightarrow>
                    (case map_of cfg_t ''partition'' of
                       Some (TString _) \<Rightarrow> Ok (job_id_str, TTable job_t)
                     | Some v \<Rightarrow> Err (PartitionWrongType (JobId job_id_str) (type_str v))
                     | None \<Rightarrow>
                         (case common_partition of
                            Some p \<Rightarrow> Ok (job_id_str, TTable (AList.update ''config''
                              (TTable (AList.update ''partition'' (TString p) cfg_t)) job_t))
                          | None \<Rightarrow> Err (PartitionMissing (JobId job_id_str))))
                | _ \<Rightarrow> Ok (job_id_str, TTable job_t))
        | _ \<Rightarrow> Ok entry))"

definition inject_partition_defaults :: "Toml \<Rightarrow> string option \<Rightarrow> JobManagerError + Toml" where
  "inject_partition_defaults v common_partition =
     (case v of
        TTable t \<Rightarrow>
          (case map_of t ''jobs'' of
             Some (TTable js) \<Rightarrow>
               map_ok (\<lambda>js'. TTable (AList.update ''jobs'' (TTable js') t))
                 (traverse (inject_job common_partition) js)
           | _ \<Rightarrow> Ok v)
      | _ \<Rightarrow> Ok v)"

subsection \<open>The readers and writers\<close>

definition read_toml :: "(string \<Rightarrow> string + 'a) \<Rightarrow> Path \<Rightarrow> ('x, 'a) io" where
  \<comment> \<open>the two lines the readers share: read, then \<open>toml::from_str\<close>\<close>
  "read_toml de path =
     act_bind (read_toml_string path) (\<lambda>text. act_lift (map_err (TomlParse path) (de text)))"

definition write_toml :: "string + string \<Rightarrow> Path \<Rightarrow> ('x, unit) io" where
  \<comment> \<open>the two lines the writers share: \<open>toml::to_string\<close>, then write\<close>
  "write_toml ser path = act_bind (act_lift (map_err TomlSer ser)) (atomic_write path)"

definition read_common :: "crates \<Rightarrow> Path \<Rightarrow> ('x, CommonConfig) io" where
  "read_common cr path = read_toml (toml_de_common cr) path"

definition write_common :: "crates \<Rightarrow> Path \<Rightarrow> CommonConfig \<Rightarrow> ('x, unit) io" where
  "write_common cr path common = write_toml (toml_ser_common cr common) path"

definition read_plan :: "crates \<Rightarrow> Path \<Rightarrow> ('x, ExperimentPlan) io" where
  "read_plan cr path = read_toml (toml_de_plan cr) path"

definition write_plan :: "crates \<Rightarrow> Path \<Rightarrow> ExperimentPlan \<Rightarrow> ('x, unit) io" where
  "write_plan cr path plan = write_toml (toml_ser_plan cr plan) path"

definition read_job_run :: "crates \<Rightarrow> Path \<Rightarrow> ('x, JobRun) io" where
  "read_job_run cr path = read_toml (toml_de_run cr) path"

definition write_job_run :: "crates \<Rightarrow> Path \<Rightarrow> JobRun \<Rightarrow> ('x, unit) io" where
  "write_job_run cr path run = write_toml (toml_ser_run cr run) path"

definition read_flow :: "crates \<Rightarrow> Path \<Rightarrow> CommonConfig \<Rightarrow> ('x, JobFlow) io" where
  "read_flow cr path common =
     act_bind (read_toml (toml_de_value cr) path) (\<lambda>v.
     let common_partition =
           (if partition_name (slurm_default common) = [] then None
            else Some (partition_name (slurm_default common)))
     in act_bind (act_lift (inject_partition_defaults v common_partition)) (\<lambda>v'.
        act_lift (map_err (TomlParse path) (toml_value_flow cr v'))))"

definition write_flow :: "crates \<Rightarrow> Path \<Rightarrow> JobFlow \<Rightarrow> ('x, unit) io" where
  "write_flow cr path flow = write_toml (toml_ser_flow cr flow) path"

definition uuid_hint :: "Path \<Rightarrow> string" where
  "uuid_hint path =
     (case Option.bind (Option.bind (path_parent path) path_parent) file_name of
        Some s \<Rightarrow> s
      | None \<Rightarrow> ''<path layout outside <root>/<uuid>/.jm/flow.effective.toml>'')"

definition read_flow_effective :: "crates \<Rightarrow> Path \<Rightarrow> ('x, JobFlow) io" where
  "read_flow_effective cr path =
     act_bind (path_exists path) (\<lambda>ex.
     if \<not> ex then fail (SnapshotMissing path (uuid_hint path))
     else read_toml (toml_de_flow cr) path)"

definition write_flow_effective :: "crates \<Rightarrow> Path \<Rightarrow> JobFlow \<Rightarrow> ('x, unit) io" where
  "write_flow_effective cr path flow = write_toml (toml_ser_flow cr flow) path"

subsection \<open>Defaults (persistence/common.rs)\<close>

definition synth_empty_common :: CommonConfig where
  "synth_empty_common =
     \<lparr>slurm_default = \<lparr>partition_name = [], time_limit = None, log_stdout = None, log_stderr = None,
        comment = None, job_name = None, array_spec = None, dependency = None, mail_user = None,
        mail_types = None, resource_spec = None\<rparr>,
      project_root = ''.''\<rparr>"

definition merge_with_defaults :: "CommonConfig \<Rightarrow> SlurmJobConfig \<Rightarrow> SlurmJobConfig" where
  "merge_with_defaults common ov =
     (let base = slurm_default common
      in \<lparr>partition_name = partition_name ov,
          time_limit = opt_or (time_limit ov) (time_limit base),
          log_stdout = opt_or (log_stdout ov) (log_stdout base),
          log_stderr = opt_or (log_stderr ov) (log_stderr base),
          comment = opt_or (comment ov) (comment base),
          job_name = opt_or (job_name ov) (job_name base),
          array_spec = opt_or (array_spec ov) (array_spec base),
          dependency = opt_or (dependency ov) (dependency base),
          mail_user = opt_or (mail_user ov) (mail_user base),
          mail_types = opt_or (mail_types ov) (mail_types base),
          resource_spec = opt_or (resource_spec ov) (resource_spec base)\<rparr>)"

subsection \<open>Readers do not write, writers change one file\<close>

lemma obeys_read_toml [inv_intros]: "obeys (changes_only S) (read_toml de path)"
  unfolding read_toml_def by (intro frame.obeys_bind frame.obeys_lift inv_intros)

lemma obeys_readers [inv_intros]:
  "obeys (changes_only S) (read_common cr path)"
  "obeys (changes_only S) (read_plan cr path)"
  "obeys (changes_only S) (read_job_run cr path)"
  "obeys (changes_only S) (read_flow cr path common)"
  "obeys (changes_only S) (read_flow_effective cr path)"
  unfolding read_common_def read_plan_def read_job_run_def read_flow_def read_flow_effective_def Let_def
  by (intro frame.obeys_bind frame.obeys_lift frame.obeys_if frame.obeys_fail inv_intros)+

definition write_set :: "Path \<Rightarrow> Path set" where
  \<comment> \<open>what writing a file may touch\<close>
  "write_set path = insert path (dirs_above path \<union> temporaries path)"

lemma obeys_write_toml: "write_set path \<subseteq> S \<Longrightarrow> obeys (changes_only S) (write_toml ser path)"
  unfolding write_toml_def
  by (intro frame.obeys_bind frame.obeys_lift obeys_mono[OF atomic_write_frame])
    (auto simp: write_set_def)

lemma obeys_writers:
  assumes "write_set path \<subseteq> S"
  shows "obeys (changes_only S) (write_common cr path common)"
    and "obeys (changes_only S) (write_plan cr path plan)"
    and "obeys (changes_only S) (write_job_run cr path run)"
    and "obeys (changes_only S) (write_flow cr path flow)"
    and "obeys (changes_only S) (write_flow_effective cr path flow)"
  unfolding write_common_def write_plan_def write_job_run_def write_flow_def write_flow_effective_def
  by (rule obeys_write_toml[OF assms])+

lemma read_toml_Ok:
  "read_toml de path w = (Ok x, w') \<Longrightarrow>
    \<exists>s. node_at path w = Some (File s) \<and> length s \<le> unat (max_toml_size w) \<and> utf8 s \<and> de s = Ok x"
  unfolding read_toml_def
  by (auto simp: io_simps res_simps dest!: read_toml_string_Ok)

lemma read_toml_run:
  "no_faults w \<Longrightarrow> node_at path w = Some (File s) \<Longrightarrow> length s \<le> unat (max_toml_size w) \<Longrightarrow>
    utf8 s \<Longrightarrow> read_toml de path w = (map_err (TomlParse path) (de s), advance 2 w)"
  by (simp add: read_toml_def act_bind_def read_toml_string_run node_len_def act_lift_def)

lemma write_toml_Ok:
  "write_toml ser path w = (Ok (), w') \<Longrightarrow> file_name path \<noteq> None \<Longrightarrow>
    \<exists>s. ser = Ok s \<and> node_at path w' = Some (File s)"
  by (auto simp: write_toml_def io_simps res_simps dest: atomic_write_Ok)

lemma write_toml_Err:
  "write_toml ser path w = (Err e, w') \<Longrightarrow> file_name path \<noteq> None \<Longrightarrow>
    node_at path w' = node_at path w"
  by (auto simp: write_toml_def io_simps res_simps dest: atomic_write_Err)

lemma write_toml_run:
  "no_faults w \<Longrightarrow> writable path w \<Longrightarrow> ser = Ok s \<Longrightarrow> is_ok (fst (write_toml ser path w))"
  by (simp add: write_toml_def act_bind_def act_lift_def atomic_write_run)

subsection \<open>What a status file gives back\<close>

definition run_storable :: "crates \<Rightarrow> JobRun \<Rightarrow> nat \<Rightarrow> bool" where
  \<comment> \<open>the TOML crate restores this run, and its text is below the limit\<close>
  "run_storable cr run limit \<longleftrightarrow>
     (\<exists>t. toml_ser_run cr run = Ok t \<and> toml_de_run cr t = Ok run \<and> length t \<le> limit)"

text \<open>
  C24. A status that was written is read back unchanged: if the TOML crate restores the
  run from its own text, which is UTF-8 and below the size limit, a successful \<open>write_job_run\<close>
  makes \<open>read_job_run\<close> of the same path return the run, in every later world where that
  file is untouched and no system call fails. Every other file, the directories above and the
  temporaries of the written one aside, reads in such a world as it would have read before.
\<close>

theorem job_run_roundtrip:
  assumes "toml_ser_run cr run = Ok t" and "toml_de_run cr t = Ok run"
    and "length t \<le> unat (max_toml_size w)" and "utf8 t" and "file_name path \<noteq> None"
    and "write_job_run cr path run w = (Ok (), w')"
    and "node_at path w2 = node_at path w'" and "w_env w2 = w_env w" and "\<forall>n. w_fault w2 n = None"
  shows "fst (read_job_run cr path w2) = Ok run
    \<and> (\<forall>p s. p \<notin> write_set path \<and> node_at p w = Some (File s) \<and> node_at p w2 = node_at p w' \<longrightarrow>
        fst (read_job_run cr p w2) = fst (read_job_run cr p (w\<lparr>w_fault := \<lambda>_. None\<rparr>)))"
proof -
  have lim: "max_toml_size w2 = max_toml_size w" using assms(8) by (simp add: max_toml_size_def)
  have nf: "no_faults w2" "no_faults (w\<lparr>w_fault := \<lambda>_. None\<rparr>)" using assms(9) by (simp_all add: no_faults_def)
  have "node_at path w' = Some (File t)"
    using write_toml_Ok[OF assms(6)[unfolded write_job_run_def] assms(5)] assms(1) by auto
  then have "fst (read_job_run cr path w2) = Ok run"
    using assms lim nf by (simp add: read_job_run_def read_toml_run)
  moreover have "fst (read_job_run cr p w2) = fst (read_job_run cr p (w\<lparr>w_fault := \<lambda>_. None\<rparr>))"
    if p: "p \<notin> write_set path" "node_at p w = Some (File s)" "node_at p w2 = node_at p w'" for p s
  proof -
    have "node_at p w2 = Some (File s)"
      using obeysD[OF obeys_writers(3)[OF subset_refl] assms(6)] p by (simp add: changes_only_def)
    moreover have "node_at p (w\<lparr>w_fault := \<lambda>_. None\<rparr>) = Some (File s)"
      using p(2) by (auto simp: node_at_def split: if_splits)
    moreover have "max_toml_size (w\<lparr>w_fault := \<lambda>_. None\<rparr>) = max_toml_size w" by (simp add: max_toml_size_def)
    ultimately show ?thesis
      using nf lim by (simp add: read_job_run_def read_toml_def act_bind_def read_toml_string_run node_len_def act_lift_def)
  qed
  ultimately show ?thesis by blast
qed

subsection \<open>What the partition injection establishes\<close>

lemma map_of_table_or_insert:
  "map_of (table_or_insert k d t) k' =
    (if k' = k \<and> map_of t k = None then Some d else map_of t k')"
  by (auto simp: table_or_insert_def map_add_def split: option.splits)

definition job_partition :: "Toml \<Rightarrow> Toml option" where
  \<comment> \<open>the partition entry of a job table, if its config is a table\<close>
  "job_partition job = (case job of
     TTable t \<Rightarrow> (case map_of t ''config'' of
        Some (TTable c) \<Rightarrow> map_of c ''partition'' | _ \<Rightarrow> None)
   | _ \<Rightarrow> None)"

definition config_malformed :: "Toml \<Rightarrow> bool" where
  \<comment> \<open>a job or config that is not a table: left to the deserialiser\<close>
  "config_malformed job \<longleftrightarrow> (case job of
     TTable t \<Rightarrow> (case map_of t ''config'' of None \<Rightarrow> False | Some (TTable _) \<Rightarrow> False | Some _ \<Rightarrow> True)
   | _ \<Rightarrow> True)"

lemma inject_job_partition:
  "inject_job cp (k, job) = Ok (k', job') \<Longrightarrow>
    k' = k \<and> config_malformed job' = config_malformed job
    \<and> (\<not> config_malformed job \<longrightarrow> (\<exists>p. job_partition job' = Some (TString p)
        \<and> (case job_partition job of Some v \<Rightarrow> v = TString p | None \<Rightarrow> cp = Some p)))"
  by (auto simp: inject_job_def config_malformed_def job_partition_def map_of_table_or_insert
      update_conv' Let_def split: Toml.splits option.splits if_splits)

lemma inject_job_idem:
  "inject_job cp (k, job) = Ok (k', job') \<Longrightarrow> inject_job cp' (k', job') = Ok (k', job')"
  by (auto simp: inject_job_def map_of_table_or_insert table_or_insert_def
      update_conv' Let_def map_add_def split: Toml.splits option.splits if_splits)

lemma inject_job_Err:
  "inject_job cp (k, job) = Err e \<longleftrightarrow> \<not> config_malformed job
    \<and> (job_partition job = None \<and> cp = None \<and> e = PartitionMissing (JobId k)
       \<or> (\<exists>v. job_partition job = Some v \<and> (\<forall>s. v \<noteq> TString s)
            \<and> e = PartitionWrongType (JobId k) (type_str v)))"
  by (auto simp: inject_job_def config_malformed_def job_partition_def map_of_table_or_insert Let_def
      split: Toml.splits option.splits if_splits)

definition toml_jobs :: "Toml \<Rightarrow> (string \<times> Toml) list option" where
  "toml_jobs v = (case v of
     TTable t \<Rightarrow> (case map_of t ''jobs'' of Some (TTable js) \<Rightarrow> Some js | _ \<Rightarrow> None) | _ \<Rightarrow> None)"

lemma inject_alt:
  "inject_partition_defaults v cp =
    (case toml_jobs v of
       None \<Rightarrow> Ok v
     | Some js \<Rightarrow> map_ok (\<lambda>js'. case v of TTable t \<Rightarrow> TTable (AList.update ''jobs'' (TTable js') t) | _ \<Rightarrow> v)
         (traverse (inject_job cp) js))"
  by (auto simp: inject_partition_defaults_def toml_jobs_def split: Toml.splits option.splits)

lemma toml_jobs_update:
  "toml_jobs (TTable (AList.update ''jobs'' (TTable js) t)) = Some js"
  by (simp add: toml_jobs_def update_conv')

lemma traverse_inject_idem:
  "traverse (inject_job cp) js = Ok js' \<Longrightarrow> traverse (inject_job cp') js' = Ok js'"
  by (induction js arbitrary: js') (auto simp: res_simps intro: inject_job_idem)

lemma update_idem_present: "map_of t k = Some v \<Longrightarrow> AList.update k v t = t"
  by (induction t) auto

text \<open>
  C25. When the injection succeeds, every well-formed job of the tree has a string partition:
  its own if it had one, the common one otherwise; job ids and their order are kept, a tree
  without a jobs table is kept, and injecting again, with any default or none, changes nothing.
\<close>

theorem inject_partition_ok:
  assumes "inject_partition_defaults v cp = Ok v'"
  shows "(case (toml_jobs v, toml_jobs v') of
       (Some js, Some js') \<Rightarrow> list_all2 (\<lambda>(k, job) (k', job'). k' = k
         \<and> (\<not> config_malformed job \<longrightarrow> (\<exists>p. job_partition job' = Some (TString p)
              \<and> (case job_partition job of Some x \<Rightarrow> x = TString p | None \<Rightarrow> cp = Some p)))) js js'
     | (None, None) \<Rightarrow> v' = v
     | _ \<Rightarrow> False)
    \<and> inject_partition_defaults v' cp' = Ok v'"
proof (cases "toml_jobs v")
  case None
  then show ?thesis using assms by (simp add: inject_alt)
next
  case (Some js)
  then obtain t where v: "v = TTable t" by (auto simp: toml_jobs_def split: Toml.splits)
  obtain js' where t: "traverse (inject_job cp) js = Ok js'"
    and v': "v' = TTable (AList.update ''jobs'' (TTable js') t)"
    using assms Some v by (auto simp: inject_alt res_simps)
  have j': "toml_jobs v' = Some js'" using v' by (simp add: toml_jobs_update)
  have "list_all2 (\<lambda>x y. inject_job cp x = Ok y) js js'" using t by (simp add: traverse_Ok_list_all2)
  then have "list_all2 (\<lambda>(k, job) (k', job'). k' = k
         \<and> (\<not> config_malformed job \<longrightarrow> (\<exists>p. job_partition job' = Some (TString p)
              \<and> (case job_partition job of Some x \<Rightarrow> x = TString p | None \<Rightarrow> cp = Some p)))) js js'"
    by (rule list.rel_mono_strong) (auto dest!: inject_job_partition)
  moreover have "AList.update ''jobs'' (TTable js') (AList.update ''jobs'' (TTable js') t)
      = AList.update ''jobs'' (TTable js') t"
    by (rule update_idem_present) (simp add: update_conv')
  then have "inject_partition_defaults v' cp' = Ok v'"
    using j' traverse_inject_idem[OF t, of cp'] by (simp add: inject_alt v')
  ultimately show ?thesis using Some j' by simp
qed

text \<open>
  When the injection fails, some job is the first at fault: the error names the first
  well-formed job whose partition is not a string, with its type, or that has none when there is
  no common one either.
\<close>

theorem inject_partition_error:
  assumes "inject_partition_defaults v cp = Err e"
  shows "\<exists>before k job after. toml_jobs v = Some (before @ (k, job) # after)
    \<and> \<not> config_malformed job
    \<and> (job_partition job = None \<and> cp = None \<and> e = PartitionMissing (JobId k)
       \<or> (\<exists>x. job_partition job = Some x \<and> (\<forall>s. x \<noteq> TString s)
            \<and> e = PartitionWrongType (JobId k) (type_str x)))
    \<and> (\<forall>(k', job')\<in>set before. config_malformed job'
         \<or> (case job_partition job' of None \<Rightarrow> cp \<noteq> None | Some x \<Rightarrow> \<exists>s. x = TString s))"
proof -
  obtain js where js: "toml_jobs v = Some js" and t: "traverse (inject_job cp) js = Err e"
    using assms by (auto simp: inject_alt res_simps split: option.splits)
  obtain us x vs where d: "js = us @ x # vs" "inject_job cp x = Err e" "\<forall>u\<in>set us. is_ok (inject_job cp u)"
    using traverse_Err_first[OF t] by blast
  obtain k job where x: "x = (k, job)" by fastforce
  have "config_malformed job' \<or> (case job_partition job' of None \<Rightarrow> cp \<noteq> None | Some x \<Rightarrow> \<exists>s. x = TString s)"
    if "(k', job') \<in> set us" for k' job'
  proof (rule ccontr)
    assume "\<not> ?thesis"
    then have "\<exists>e. inject_job cp (k', job') = Err e"
      unfolding inject_job_Err by (auto split: option.splits)
    then show False using d(3) that by fastforce
  qed
  then show ?thesis
    using js d x
    by (intro exI[of _ us] exI[of _ k] exI[of _ job] exI[of _ vs]) (simp add: inject_job_Err, blast)
qed

subsection \<open>Merging\<close>

lemma merge_partition [simp]: "partition_name (merge_with_defaults c ov) = partition_name ov"
  by (simp add: merge_with_defaults_def Let_def)

text \<open>
  Merging is a right-biased fill-in: it is idempotent; a job's own fields win; merging
  into a configuration with every optional field set changes nothing; and merging with the
  synthetic common configuration changes nothing.
\<close>

theorem merge_laws:
  "merge_with_defaults c (merge_with_defaults c ov) = merge_with_defaults c ov
    \<and> merge_with_defaults synth_empty_common ov = ov
    \<and> partition_name (merge_with_defaults c ov) = partition_name ov
    \<and> merge_with_defaults c (slurm_default synth_empty_common)
        = (slurm_default c)\<lparr>partition_name := []\<rparr>
    \<and> merge_with_defaults c' (merge_with_defaults c ov)
        = merge_with_defaults \<lparr>slurm_default = merge_with_defaults c' (slurm_default c), project_root = r\<rparr> ov"
  by (simp add: merge_with_defaults_def synth_empty_common_def Let_def opt_or_assoc)

subsection \<open>Concrete runs\<close>

abbreviation sample_status :: Path where
  "sample_status \<equiv> [RootDir, Normal ''data'', Normal ''status.toml'']"

abbreviation other_status :: Path where
  "other_status \<equiv> [RootDir, Normal ''other.toml'']"

definition other_world :: world where
  "other_world = quiet_world [(other_status, File queued_text)]"

lemma write_queued_ok:
  "write_job_run sample_crates sample_status queued_run other_world = (Ok (),
     snd (write_job_run sample_crates sample_status queued_run other_world))"
proof -
  have "is_ok (fst (write_job_run sample_crates sample_status queued_run other_world))"
    by code_simp
  then show ?thesis by (auto simp: is_ok_def prod_eq_iff split: sum.splits)
qed

lemma job_run_roundtrip_witness:
  "\<exists>w'. write_job_run sample_crates sample_status queued_run other_world = (Ok (), w')
    \<and> fst (read_job_run sample_crates sample_status w') = Ok queued_run
    \<and> fst (read_job_run sample_crates other_status w')
        = fst (read_job_run sample_crates other_status (other_world\<lparr>w_fault := \<lambda>_. None\<rparr>))"
proof -
  let ?w = other_world and ?w' = "snd (write_job_run sample_crates sample_status queued_run other_world)"
  have h: "same_host ?w ?w'"
    using obeysD[OF obeys_writers(3)[OF subset_UNIV] write_queued_ok] by (simp add: changes_only_def)
  have c: "toml_ser_run sample_crates queued_run = Ok queued_text" "toml_de_run sample_crates queued_text = Ok queued_run"
    by (simp_all add: sample_crates_def encode_queued decode_queued)
  have size: "length queued_text \<le> unat (max_toml_size ?w)"
    using queued_text_length by (simp add: max_toml_size_def other_world_def quiet_world_def DEFAULT_MAX_TOML_SIZE_def)
  have enc: "utf8 queued_text" by code_simp
  have w: "w_env ?w' = w_env ?w" "\<forall>n. w_fault ?w' n = None"
    using h by (simp_all add: same_host_def other_world_def quiet_world_def)
  have "other_status \<notin> write_set sample_status"
    by (auto simp: write_set_def temporaries_def with_extension_def dirs_above_def path_starts_with_def)
  moreover have "node_at other_status ?w = Some (File queued_text)"
    by (simp add: other_world_def quiet_world_def node_at_def)
  ultimately show ?thesis
    using job_run_roundtrip[OF c size enc _ write_queued_ok refl w] write_queued_ok by (auto simp: file_name_def)
qed

definition sample_tree :: Toml where
  "sample_tree = TTable [(''uuid'', TString ''u''), (''jobs'', TTable
     [(''a'', TTable [(''body'', TString ''true'')]),
      (''b'', TTable [(''config'', TTable [(''partition'', TString ''own'')])])])]"

lemma sample_tree_ok:
  "inject_partition_defaults sample_tree (Some ''gr10'') = Ok (TTable [(''uuid'', TString ''u''),
     (''jobs'', TTable
       [(''a'', TTable [(''body'', TString ''true''), (''config'', TTable [(''partition'', TString ''gr10'')])]),
        (''b'', TTable [(''config'', TTable [(''partition'', TString ''own'')])])])])"
  by code_simp

lemma inject_partition_ok_witness:
  "is_ok (inject_partition_defaults (TTable [(''uuid'', TString ''u''),
     (''jobs'', TTable
       [(''a'', TTable [(''body'', TString ''true''), (''config'', TTable [(''partition'', TString ''gr10'')])]),
        (''b'', TTable [(''config'', TTable [(''partition'', TString ''own'')])])])]) None)"
  using inject_partition_ok[OF sample_tree_ok, of None] by simp

lemma sample_tree_error:
  "inject_partition_defaults sample_tree None = Err (PartitionMissing (JobId ''a''))"
  by code_simp

lemma inject_partition_error_witness:
  "\<exists>before k job after. toml_jobs sample_tree = Some (before @ (k, job) # after)
    \<and> \<not> config_malformed job"
  using inject_partition_error[OF sample_tree_error] by blast

end
