(* ===== verification/FlowRun.thy ===== *)
theory FlowRun
  imports Persistence Topology
begin

section \<open>Flow runs (flow/run.rs)\<close>

text \<open>
  A flow run is a flow with its plan and, when it was read from the user's files, the common
  configuration. \<open>flow_run_read\<close> is what render and submit start from, \<open>load_effective\<close>
  what tick and show start from.
\<close>

record FlowRun =
  flow_uuid :: Uuid
  run_flow :: JobFlow
  run_plan :: ExperimentPlan
  run_common :: "CommonConfig option"

definition flow_run_read :: "crates \<Rightarrow> PathResolver \<Rightarrow> Uuid \<Rightarrow> ('x, FlowRun) io" where
  "flow_run_read cr r u =
     act_bind (read_plan cr (plan_toml r u)) (\<lambda>pl.
     act_bind (path_exists (common_toml r)) (\<lambda>ex.
     act_bind (if ex then act_bind (read_common cr (common_toml r)) (\<lambda>c. ret (Some c)) else ret None)
       (\<lambda>cm.
     act_bind (read_flow cr (flow_toml r u)
         (case cm of Some c \<Rightarrow> c | None \<Rightarrow> synth_empty_common)) (\<lambda>fl.
     ret \<lparr>flow_uuid = u, run_flow = fl, run_plan = pl, run_common = cm\<rparr>))))"

definition load_effective :: "crates \<Rightarrow> PathResolver \<Rightarrow> Uuid \<Rightarrow> ('x, FlowRun) io" where
  "load_effective cr r u =
     act_bind (read_plan cr (plan_toml r u)) (\<lambda>pl.
     act_bind (read_flow_effective cr (flow_effective_toml r u)) (\<lambda>fl.
     ret \<lparr>flow_uuid = u, run_flow = fl, run_plan = pl, run_common = None\<rparr>))"

definition run_order :: "FlowRun \<Rightarrow> JobManagerError + JobId list" where
  "run_order fr = topological_order (jobs (run_flow fr)) (flow_uuid fr)"

definition parents_of :: "FlowRun \<Rightarrow> JobId \<Rightarrow> JobEdge list" where
  "parents_of fr j = (case bt_get (jobs (run_flow fr)) j of None \<Rightarrow> [] | Some job \<Rightarrow> parents job)"

definition params_of :: "FlowRun \<Rightarrow> JobId \<Rightarrow> JobManagerError + (string, Toml) btree" where
  "params_of fr j = ok_or (bt_get (plan_jobs (run_plan fr)) j) (MissingPlanEntry (flow_uuid fr) j)"

definition effective_config :: "FlowRun \<Rightarrow> JobId \<Rightarrow> JobManagerError + SlurmJobConfig" where
  "effective_config fr j =
     res_bind (ok_or (bt_get (jobs (run_flow fr)) j) (JobNotFound (flow_uuid fr) j)) (\<lambda>job.
     Ok (case run_common fr of
           Some c \<Rightarrow> merge_with_defaults c (config (spec job))
         | None \<Rightarrow> config (spec job)))"

lemma run_order_sound:
  assumes "run_order fr = Ok order"
  shows "distinct order" and "set order = set (bt_keys (jobs (run_flow fr)))"
    and "e \<in> set (parents_of fr j) \<Longrightarrow> precedes order (edge_from e) j"
proof -
  have s: "topo_sorted (jobs (run_flow fr)) order"
    using topological_order_sound(1)[OF assms[unfolded run_order_def]] .
  then show "distinct order" and "set order = set (bt_keys (jobs (run_flow fr)))"
    by (simp_all add: topo_sorted_def)
  show "precedes order (edge_from e) j" if "e \<in> set (parents_of fr j)"
    using s that by (cases "bt_get (jobs (run_flow fr)) j") (simp_all add: topo_sorted_def parents_of_def)
qed

lemma run_order_parents_before:
  assumes "run_order fr = Ok order" and "order = us @ j # vs" and "e \<in> set (parents_of fr j)"
  shows "edge_from e \<in> set us" and "edge_from e \<notin> set (j # vs)"
proof -
  have d: "distinct order" using assms(1) by (rule run_order_sound(1))
  obtain us' vs' where o: "order = us' @ j # vs'" and p: "edge_from e \<in> set us'"
    using run_order_sound(3)[OF assms(1,3)] by (auto simp: precedes_def)
  have "us = us'" by (rule split_unique[of us j vs us' vs']) (use assms(2) o d in simp_all)
  then show "edge_from e \<in> set us" "edge_from e \<notin> set (j # vs)" using p d assms(2) by auto
qed

text \<open>What holds of a job whenever it holds of its parents holds of every job.\<close>

lemma run_order_induct [consumes 2, case_names job]:
  assumes o: "run_order fr = Ok order" and j: "j \<in> set (bt_keys (jobs (run_flow fr)))"
    and step: "\<And>b. b \<in> set (bt_keys (jobs (run_flow fr))) \<Longrightarrow>
      (\<And>e. e \<in> set (parents_of fr b) \<Longrightarrow> P (edge_from e)) \<Longrightarrow> P b"
  shows "P j"
proof -
  have K: "set order = set (bt_keys (jobs (run_flow fr)))" by (rule run_order_sound(2)[OF o])
  have "\<forall>k\<in>set us. P k" if "order = us @ vs" for us vs
    using that
  proof (induction us arbitrary: vs rule: rev_induct)
    case (snoc b us)
    have up: "\<forall>k\<in>set us. P k" using snoc by simp
    have "P b"
    proof (rule step)
      show "b \<in> set (bt_keys (jobs (run_flow fr)))" using snoc.prems K by auto
      show "P (edge_from e)" if "e \<in> set (parents_of fr b)" for e
        using run_order_parents_before(1)[OF o _ that, of us vs] snoc.prems up by simp
    qed
    with up show ?case by simp
  qed simp
  from this[of order "[]"] show ?thesis using j K by simp
qed

lemma obeys_flow_readers [inv_intros]:
  "obeys (changes_only S) (flow_run_read cr r u)"
  "obeys (changes_only S) (load_effective cr r u)"
  unfolding flow_run_read_def load_effective_def
  by (intro frame.obeys_bind frame.obeys_ret frame.obeys_if inv_intros)+

end
