(* ===== verification/Transition.thy ===== *)
theory Transition
  imports Domain
begin

section \<open>Lifecycle decisions (runner/transition.rs)\<close>

text \<open>
  \<open>decide_transition\<close> maps a job's lifecycle, the state SLURM reports for it and the
  lifecycles of its parents to a decision. Its contract is the step relation \<open>life_step\<close> on
  lifecycles: every decision is a step or leaves the lifecycle alone, and every step is taken for
  some input.
\<close>

datatype Decision =
    NoChange
  | Transition Lifecycle Lifecycle "JobStatus option"
  | SkipDueToParent JobId

record TickResult =
  transitions :: "(JobId, Decision) btree"

definition next_lifecycle :: "Lifecycle \<Rightarrow> JobState \<Rightarrow> Lifecycle" where
  \<comment> \<open>the exhaustive match on the SLURM state\<close>
  "next_lifecycle current st = (case st of
     JsPending \<Rightarrow> Queued | JsConfiguring \<Rightarrow> Queued | JsRequeued \<Rightarrow> Queued | JsRequeueFed \<Rightarrow> Queued
   | JsRequeueHold \<Rightarrow> Queued | JsResvDelHold \<Rightarrow> Queued | JsSuspended \<Rightarrow> Queued | JsStopped \<Rightarrow> Queued
   | JsRunning \<Rightarrow> Running | JsCompleting \<Rightarrow> Running | JsResizing \<Rightarrow> Running | JsSignaling \<Rightarrow> Running
   | JsStageOut \<Rightarrow> Running
   | JsCompleted \<Rightarrow> Success
   | JsBootFail \<Rightarrow> Failed | JsCancelled \<Rightarrow> Failed | JsDeadline \<Rightarrow> Failed | JsFailed \<Rightarrow> Failed
   | JsNodeFail \<Rightarrow> Failed | JsOutOfMemory \<Rightarrow> Failed | JsPreempted \<Rightarrow> Failed | JsRevoked \<Rightarrow> Failed
   | JsSpecialExit \<Rightarrow> Failed | JsTimeout \<Rightarrow> Failed
   | JsUnknown \<Rightarrow> current)"

definition dead :: "Lifecycle \<Rightarrow> bool" where
  "dead l \<longleftrightarrow> l = Failed \<or> l = Skipped"

definition decide_transition ::
  "Lifecycle \<Rightarrow> JobStatus option \<Rightarrow> (JobId \<times> Lifecycle) list \<Rightarrow> Decision" where
  "decide_transition current query ps =
     (if is_terminal current then NoChange
      else case (if current = Queued then List.find (\<lambda>(_, l). dead l) ps else None) of
             Some (culprit, _) \<Rightarrow> SkipDueToParent culprit
           | None \<Rightarrow>
               (case query of
                  None \<Rightarrow> NoChange
                | Some status \<Rightarrow>
                    (let nxt = next_lifecycle current (js_state status)
                     in if nxt = current then NoChange else Transition current nxt (Some status))))"

definition apply_decision :: "Lifecycle \<Rightarrow> Decision \<Rightarrow> Lifecycle" where
  \<comment> \<open>the lifecycle \<open>tick\<close> writes for a decision\<close>
  "apply_decision current d = (case d of
     NoChange \<Rightarrow> current | Transition _ nxt _ \<Rightarrow> nxt | SkipDueToParent _ \<Rightarrow> Skipped)"

subsection \<open>The contract\<close>

inductive life_step :: "Lifecycle \<Rightarrow> Lifecycle \<Rightarrow> bool" where
  start: "life_step Queued Running"
| requeue: "life_step Running Queued"
| succeed: "\<not> is_terminal l \<Longrightarrow> life_step l Success"
| break: "\<not> is_terminal l \<Longrightarrow> life_step l Failed"
| skip: "life_step Queued Skipped"

code_pred life_step .

inductive_cases life_step_from: "life_step l l'"
inductive_simps life_step_simps: "life_step l l'"

lemma life_step_not_terminal: "life_step l l' \<Longrightarrow> \<not> is_terminal l \<and> l' \<noteq> l"
  by (auto elim!: life_step_from)

lemma next_lifecycle_not_skipped: "next_lifecycle l st = Skipped \<longleftrightarrow> st = JsUnknown \<and> l = Skipped"
  by (cases st) (simp_all add: next_lifecycle_def)

lemma next_lifecycle_step:
  "\<not> is_terminal l \<Longrightarrow> next_lifecycle l st \<noteq> l \<Longrightarrow> life_step l (next_lifecycle l st)"
  by (cases l; cases st) (simp_all add: next_lifecycle_def life_step_simps)

lemma decide_skip_iff:
  "decide_transition current query ps = SkipDueToParent p \<longleftrightarrow>
     current = Queued \<and> (\<exists>us l vs. ps = us @ (p, l) # vs \<and> dead l \<and> (\<forall>(q, m)\<in>set us. \<not> dead m))"
proof
  assume d: "decide_transition current query ps = SkipDueToParent p"
  then have q: "current = Queued"
    by (auto simp: decide_transition_def Let_def split: if_splits option.splits)
  then obtain l where "List.find (\<lambda>(_, l). dead l) ps = Some (p, l)"
    using d by (auto simp: decide_transition_def Let_def split: if_splits option.splits)
  from find_SomeD[OF this] q show "current = Queued \<and> (\<exists>us l vs. ps = us @ (p, l) # vs \<and> dead l
      \<and> (\<forall>(q, m)\<in>set us. \<not> dead m))"
    by fastforce
next
  assume "current = Queued \<and> (\<exists>us l vs. ps = us @ (p, l) # vs \<and> dead l \<and> (\<forall>(q, m)\<in>set us. \<not> dead m))"
  then obtain us l vs where "current = Queued" "ps = us @ (p, l) # vs" "dead l" "\<forall>u\<in>set us. \<not> (case u of (_, l) \<Rightarrow> dead l)"
    by fast
  then show "decide_transition current query ps = SkipDueToParent p"
    using find_split_Some[of "\<lambda>(_, l). dead l" "(p, l)" us vs] by (simp add: decide_transition_def)
qed

lemma decide_move_iff:
  "decide_transition current query ps = Transition src tgt st \<longleftrightarrow>
     \<not> is_terminal current \<and> \<not> (current = Queued \<and> (\<exists>(q, m)\<in>set ps. dead m)) \<and> src = current
     \<and> (\<exists>status. query = Some status \<and> st = Some status
         \<and> tgt = next_lifecycle current (js_state status) \<and> tgt \<noteq> current)"
proof (cases "List.find (\<lambda>(_, l). dead l) ps")
  case None
  then have "\<not> (\<exists>(q, m)\<in>set ps. dead m)" by (auto simp: find_None_iff_all)
  then show ?thesis
    unfolding decide_transition_def None Let_def by (auto split: option.splits if_splits)
next
  case (Some c)
  then have "\<exists>(q, m)\<in>set ps. dead m" using find_None_iff_all[of "\<lambda>(_, l). dead l" ps] by force
  then show ?thesis
    unfolding decide_transition_def Some Let_def
    by (auto simp: case_prod_unfold split: option.splits if_splits)
qed

lemma next_lifecycle_iff:
  assumes "tgt \<noteq> current"
  shows "next_lifecycle current s = tgt \<longleftrightarrow>
     (tgt = Queued \<and> s \<in> {JsPending, JsConfiguring, JsRequeued, JsRequeueFed, JsRequeueHold, JsResvDelHold,
        JsSuspended, JsStopped}
    \<or> tgt = Running \<and> s \<in> {JsRunning, JsCompleting, JsResizing, JsSignaling, JsStageOut}
    \<or> tgt = Success \<and> s = JsCompleted
    \<or> tgt = Failed \<and> s \<in> {JsBootFail, JsCancelled, JsDeadline, JsFailed, JsNodeFail, JsOutOfMemory,
        JsPreempted, JsRevoked, JsSpecialExit, JsTimeout})"
  using assms by (cases s) (auto simp: next_lifecycle_def)

text \<open>
  C15. The decision in full. A job is skipped exactly when it is queued and some parent has
  failed or been skipped, and the first such parent is named. Otherwise it moves exactly when it
  is not terminal and SLURM reports a state that stands for another lifecycle: the eight waiting
  states for queued, the five states of a job on its node for running, completed alone for success,
  and ten states for failed; the reported status is recorded. An unknown state moves nothing, and
  in all other cases nothing changes.
\<close>

theorem decide_transition_spec:
  "(decide_transition current query ps = SkipDueToParent p \<longleftrightarrow>
      current = Queued \<and> (\<exists>us l vs. ps = us @ (p, l) # vs \<and> (l = Failed \<or> l = Skipped)
        \<and> list_all (\<lambda>(q, m). m \<noteq> Failed \<and> m \<noteq> Skipped) us))
    \<and> (decide_transition current query ps = Transition src tgt st \<longleftrightarrow>
      \<not> is_terminal current
      \<and> \<not> (current = Queued \<and> (\<exists>(q, m)\<in>set ps. m = Failed \<or> m = Skipped))
      \<and> src = current
      \<and> tgt \<noteq> current
      \<and> (\<exists>status. query = Some status \<and> st = Some status
          \<and> (tgt = Queued \<and> js_state status \<in> {JsPending, JsConfiguring, JsRequeued, JsRequeueFed, JsRequeueHold,
                JsResvDelHold, JsSuspended, JsStopped}
            \<or> tgt = Running \<and> js_state status \<in> {JsRunning, JsCompleting, JsResizing, JsSignaling, JsStageOut}
            \<or> tgt = Success \<and> js_state status = JsCompleted
            \<or> tgt = Failed \<and> js_state status \<in> {JsBootFail, JsCancelled, JsDeadline, JsFailed, JsNodeFail,
                JsOutOfMemory, JsPreempted, JsRevoked, JsSpecialExit, JsTimeout})))"
  (is "_ \<and> (_ \<longleftrightarrow> ?moves)")
proof (intro conjI)
  show "decide_transition current query ps = SkipDueToParent p \<longleftrightarrow>
      current = Queued \<and> (\<exists>us l vs. ps = us @ (p, l) # vs \<and> (l = Failed \<or> l = Skipped)
        \<and> list_all (\<lambda>(q, m). m \<noteq> Failed \<and> m \<noteq> Skipped) us)"
    unfolding decide_skip_iff dead_def list_all_iff by auto
  show "decide_transition current query ps = Transition src tgt st \<longleftrightarrow> ?moves"
  proof (cases "tgt = current")
    case True
    then show ?thesis by (simp add: decide_move_iff)
  next
    case False
    then show ?thesis
      unfolding decide_move_iff dead_def eq_commute[of tgt "next_lifecycle _ _"] next_lifecycle_iff[OF False]
      by (simp only: simp_thms)
  qed
qed

lemma decide_is_step:
  "apply_decision l (decide_transition l query ps) = l
    \<or> life_step l (apply_decision l (decide_transition l query ps))"
  by (auto simp: decide_transition_def apply_decision_def Let_def not_terminal_cases
      intro: next_lifecycle_step life_step.intros split: option.splits)

lemma life_step_decided:
  assumes "life_step l l'"
  shows "\<exists>query ps. apply_decision l (decide_transition l query ps) = l'"
proof -
  have by_state: ?thesis if "\<not> is_terminal l" "next_lifecycle l s = l'" "l' \<noteq> l" for s
    using that
    by (intro exI[of _ "Some \<lparr>js_state = s, js_reason = []\<rparr>"] exI[of _ "[]"])
      (cases "l = Queued", simp_all add: decide_transition_def apply_decision_def Let_def)
  from assms show ?thesis
  proof cases
    case skip
    then show ?thesis
      by (intro exI[of _ None] exI[of _ "[(JobId [], Failed)]"])
        (simp add: decide_transition_def apply_decision_def dead_def)
  next
    case start
    then show ?thesis by (intro by_state[of JsRunning]) (simp_all add: next_lifecycle_def)
  next
    case requeue
    then show ?thesis by (intro by_state[of JsPending]) (simp_all add: next_lifecycle_def)
  next
    case succeed
    then show ?thesis
      by (intro by_state[of JsCompleted]) (auto simp: next_lifecycle_def)
  next
    case break
    then show ?thesis
      by (intro by_state[of JsFailed]) (auto simp: next_lifecycle_def)
  qed
qed

text \<open>
  C16. The state machine of a job is exactly the relation \<open>life_step\<close>: a change of
  lifecycle can be decided for some SLURM state and some parents if and only if it is one of
  queued to running, running back to queued, either of these to success or failed, and queued to
  skipped. In particular a terminal lifecycle never changes and a running job is never skipped.
\<close>

theorem decide_realises_machine:
  "(\<exists>query ps. apply_decision l (decide_transition l query ps) = l') \<and> l' \<noteq> l
    \<longleftrightarrow> life_step l l'"
  using decide_is_step life_step_decided life_step_not_terminal by metis

lemma decide_terminal [simp]: "is_terminal l \<Longrightarrow> decide_transition l query ps = NoChange"
  by (simp add: decide_transition_def)

lemma apply_NoChange_iff:
  "apply_decision l (decide_transition l query ps) = l \<longleftrightarrow> decide_transition l query ps = NoChange"
  by (auto simp: decide_transition_def apply_decision_def Let_def split: option.splits)

end
