(* ===== verification/Slurm.thy ===== *)
theory Slurm
  imports Persistence
begin

section \<open>The SLURM facade (slurm/*.rs)\<close>

text \<open>
  Dependency strings, executors, queriers and the log directory checks. An executor is a
  function on its own state, which lives in the extension field of the world. The production
  executor and querier take the upstream crate's manager as a parameter: \<open>spawn\<close> answers with the
  jobid that the handle holds, if any, and \<open>batch\<close> with the states of the jobs. The
  interface \<open>recorder\<close> is an executor that keeps a log of the commands it was given; its
  lemmas, proved once, hold of \<open>MockExecutor\<close> and of any executor wrapped in a log.
\<close>

subsection \<open>Dependencies (slurm/dependency.rs)\<close>

definition submitted_parents :: "JobEdge list \<Rightarrow> (JobId, u64) btree \<Rightarrow> (u64 \<times> DependencyType) list" where
  \<comment> \<open>the list \<open>pairs\<close>\<close>
  "submitted_parents ps submitted =
     List.map_filter (\<lambda>e. map_option (\<lambda>i. (i, edge_kind e)) (bt_get submitted (edge_from e))) ps"

definition dependency_text :: "(u64 \<times> DependencyType) list \<Rightarrow> string" where
  "dependency_text pairs =
     join '','' (map (\<lambda>(i, kind). kind_str kind @ '':'' @ show_nat (unat i)) pairs)"

definition dependency_build ::
  "crates \<Rightarrow> JobEdge list \<Rightarrow> (JobId, u64) btree \<Rightarrow> JobId \<Rightarrow> JobManagerError + SlurmDependency option" where
  "dependency_build cr ps submitted job =
     (let pairs = submitted_parents ps submitted
      in if pairs = [] then Ok None
         else case dep_from_str cr (dependency_text pairs) of
                Err e \<Rightarrow> Err (SubmitFailed
                  (''dependency parse failed for '' @ jobid_display cr job @ '': '' @ e))
              | Ok dep \<Rightarrow> Ok (Some dep))"

subsection \<open>Executors (slurm/executor.rs)\<close>

record SbatchCmd =
  cmd_script :: Path
  cmd_partition :: "string option"
  cmd_time_limit :: "a1_text option"
  cmd_rsc :: "a1_text option"
  cmd_output :: "string option"
  cmd_error :: "string option"
  cmd_job_name :: "string option"
  cmd_array_spec :: "a1_text option"
  cmd_mail_user :: "string option"
  cmd_mail_types :: "a1_text option"
  cmd_comment :: "string option"
  cmd_dependency :: "SlurmDependency option"

type_synonym 'x executor = "SbatchCmd \<Rightarrow> 'x \<Rightarrow> (JobManagerError + u64) \<times> 'x"

definition FNV_OFFSET :: u64 where
  "FNV_OFFSET = 0xcbf29ce484222325"

definition FNV_PRIME :: u64 where
  "FNV_PRIME = 0x100000001b3"

definition fnv_hash :: "string \<Rightarrow> u64" where
  \<comment> \<open>the loop over the bytes\<close>
  "fnv_hash bytes = foldl (\<lambda>h b. (xor h (of_nat (code b))) * FNV_PRIME) FNV_OFFSET bytes"

definition deterministic_fake_jobid :: "string \<Rightarrow> u64" where
  \<comment> \<open>of the bytes that the script's path is spelled with\<close>
  "deterministic_fake_jobid bytes = 1 + fnv_hash bytes mod 9999999"

definition dry_run_executor :: "crates \<Rightarrow> 'x executor" where
  "dry_run_executor cr cmd x = (Ok (deterministic_fake_jobid (os_bytes cr (cmd_script cmd))), x)"

definition sbatch_executor :: "(SbatchCmd \<Rightarrow> 'x \<Rightarrow> (string + u64 option) \<times> 'x) \<Rightarrow> 'x executor" where
  "sbatch_executor spawn cmd x =
     (case spawn cmd x of
        (Err e, x1) \<Rightarrow> (Err (SubmitFailed e), x1)
      | (Ok handle, x1) \<Rightarrow> (ok_or handle (SubmitFailed ''sbatch returned no jobid''), x1))"

record mock_state =
  recordings :: "u64 list"
  calls_log :: "SbatchCmd list"

definition mock_new :: "u64 list \<Rightarrow> mock_state" where
  "mock_new recs = \<lparr>recordings = recs, calls_log = []\<rparr>"

definition mock_calls :: "mock_state \<Rightarrow> SbatchCmd list" where
  "mock_calls m = calls_log m"

definition mock_executor :: "mock_state executor" where
  "mock_executor cmd m =
     (let m1 = m\<lparr>calls_log := calls_log m @ [cmd]\<rparr>
      in case recordings m1 of
           [] \<Rightarrow> (Err (SubmitFailed ''MockExecutor recordings exhausted''), m1)
         | r # rs \<Rightarrow> (Ok r, m1\<lparr>recordings := rs\<rparr>))"

definition logged :: "'x executor \<Rightarrow> ('x \<times> SbatchCmd list) executor" where
  \<comment> \<open>any executor, with the commands it was called with\<close>
  "logged ex cmd st = (case st of (x, log) \<Rightarrow> (case ex cmd x of (r, x') \<Rightarrow> (r, (x', log @ [cmd]))))"

fun run_commands :: "'x executor \<Rightarrow> SbatchCmd list \<Rightarrow> 'x \<Rightarrow> (JobManagerError + u64 list) \<times> 'x" where
  \<comment> \<open>submit in order, stop at the first error\<close>
  "run_commands ex [] x = (Ok [], x)"
| "run_commands ex (c # cs) x =
     (case ex c x of
        (Err e, x1) \<Rightarrow> (Err e, x1)
      | (Ok i, x1) \<Rightarrow> (case run_commands ex cs x1 of (r, x2) \<Rightarrow> (map_ok ((#) i) r, x2)))"

locale recorder =
  fixes submit :: "SbatchCmd \<Rightarrow> 'x \<Rightarrow> (JobManagerError + u64) \<times> 'x"
    and calls :: "'x \<Rightarrow> SbatchCmd list"
  assumes submit_calls: "calls (snd (submit cmd x)) = calls x @ [cmd]"
begin

lemma run_commands_calls:
  "run_commands submit cs x = (r, x') \<Longrightarrow>
    \<exists>n \<le> length cs. calls x' = calls x @ take n cs \<and> (is_ok r \<longrightarrow> n = length cs)"
proof (induction cs arbitrary: x r)
  case (Cons c cs)
  obtain q x1 where s: "submit c x = (q, x1)" by fastforce
  then have c1: "calls x1 = calls x @ [c]" using submit_calls[of c x] by simp
  show ?case
  proof (cases q)
    case (Inl e)
    with Cons.prems s have "r = Err e" "x' = x1" by auto
    with c1 show ?thesis by (intro exI[of _ 1]) simp
  next
    case (Inr i)
    with Cons.prems s obtain r1 where r1: "run_commands submit cs x1 = (r1, x')" "r = map_ok ((#) i) r1"
      by (auto split: prod.splits)
    from Cons.IH[OF r1(1)] obtain n where "n \<le> length cs" "calls x' = calls x1 @ take n cs"
      "is_ok r1 \<longrightarrow> n = length cs" by blast
    with c1 r1(2) show ?thesis by (intro exI[of _ "Suc n"]) (cases r1, auto)
  qed
qed simp

end

interpretation mock: recorder mock_executor calls_log
  by unfold_locales (simp add: mock_executor_def Let_def split: list.split)

interpretation wrapped: recorder "logged ex" snd for ex
  by unfold_locales (simp add: logged_def split: prod.split)

lemma run_commands_logged:
  "run_commands (logged ex) cs st = (r, st') \<Longrightarrow> run_commands ex cs (fst st) = (r, fst st')"
proof (induction cs arbitrary: st r st')
  case (Cons c cs)
  obtain q x1 where c: "ex c (fst st) = (q, x1)" by fastforce
  then have l: "logged ex c st = (q, (x1, snd st @ [c]))" by (cases st) (simp add: logged_def)
  show ?case
  proof (cases q)
    case (Inr i)
    obtain r1 st1 where r: "run_commands (logged ex) cs (x1, snd st @ [c]) = (r1, st1)"
      by (cases "run_commands (logged ex) cs (x1, snd st @ [c])")
    then have "run_commands ex cs x1 = (r1, fst st1)" using Cons.IH[OF r] by simp
    then show ?thesis using Cons.prems c l Inr r by simp
  qed (use Cons.prems c l in auto)
qed simp

subsection \<open>Queriers (slurm/querier.rs)\<close>

type_synonym querier = "u64 list \<Rightarrow> JobManagerError + (u64 \<rightharpoonup> JobStatus)"

fun query_loop :: "(u64 \<rightharpoonup> JobStatus) \<Rightarrow> u64 list \<Rightarrow> (u64 \<rightharpoonup> JobStatus) \<Rightarrow> (u64 \<rightharpoonup> JobStatus)" where
  "query_loop responses [] out = out"
| "query_loop responses (j # js) out =
     query_loop responses js (case responses j of Some s \<Rightarrow> out(j \<mapsto> s) | None \<Rightarrow> out)"

definition slurm_querier :: "(u64 list \<Rightarrow> string + (u64 \<rightharpoonup> JobStatus)) \<Rightarrow> querier" where
  "slurm_querier batch jobids = map_err Slurm (batch jobids)"

definition in_memory_query :: "(u64 \<rightharpoonup> JobStatus) \<Rightarrow> querier" where
  "in_memory_query responses jobids = Ok (query_loop responses jobids Map.empty)"

lemma query_loop_get:
  "query_loop responses js out i = (if i \<in> set js \<and> responses i \<noteq> None then responses i else out i)"
  by (induction js arbitrary: out) (auto split: option.splits)

lemma in_memory_query_restrict: "in_memory_query responses js = Ok (responses |` set js)"
proof -
  have "query_loop responses js Map.empty i = (responses |` set js) i" for i
    by (auto simp: query_loop_get restrict_map_def)
  then show ?thesis unfolding in_memory_query_def by (simp add: ext)
qed

text \<open>A querier whose answers for a jobid do not change from call to call.\<close>

locale steady_querier =
  fixes q :: querier and responses :: "u64 \<rightharpoonup> JobStatus"
  assumes answers: "q ids = Ok m \<Longrightarrow> i \<in> set ids \<Longrightarrow> m i = responses i"

interpretation in_memory: steady_querier "in_memory_query responses" responses for responses
  by unfold_locales (auto simp: in_memory_query_restrict)

subsection \<open>Log directories (slurm/logpath.rs)\<close>

definition has_token :: "Component \<Rightarrow> bool" where
  "has_token c \<longleftrightarrow> CHR ''%'' \<in> set (comp_display c)"

definition token_free_log_dir :: "Path \<Rightarrow> Path" where
  "token_free_log_dir p =
     (let parent = (case path_parent p of None \<Rightarrow> [] | Some q \<Rightarrow> q)
      in takeWhile (\<lambda>c. \<not> has_token c) parent)"

definition resolve_log_dir :: "Path \<Rightarrow> string \<Rightarrow> Path option" where
  \<comment> \<open>the directory to stat for a value, if there is one\<close>
  "resolve_log_dir root val =
     (let dir = token_free_log_dir (path_of val)
      in if dir = [] then None
         else Some (if is_absolute dir then dir else path_join root dir))"

definition missing_log_dirs ::
  "Path \<Rightarrow> SlurmJobConfig \<Rightarrow> ('x world_scheme, 'e, (string \<times> Path) list) act" where
  "missing_log_dirs root cfg =
     act_foldM (\<lambda>out (field, val).
       case Option.bind val (resolve_log_dir root) of
         None \<Rightarrow> ret out
       | Some resolved \<Rightarrow>
           act_bind (path_exists resolved) (\<lambda>ex.
           ret (if ex then out else out @ [(field, resolved)])))
     [] [(''log_stdout'', log_stdout cfg), (''log_stderr'', log_stderr cfg)]"

subsection \<open>Dependency strings\<close>

text \<open>
  The dependency of a job names, in edge order, exactly the parents that have a SLURM
  jobid, each with the kind of its edge; there is none exactly when no parent has one, and a
  string the SLURM crate refuses is reported as a failed submission.
\<close>

theorem dependency_build_spec:
  "dependency_build cr ps submitted job =
    (let known = [(i, edge_kind e). e \<leftarrow> ps, i \<leftarrow> (case bt_get submitted (edge_from e) of None \<Rightarrow> [] | Some i \<Rightarrow> [i])]
     in if list_all (\<lambda>e. edge_from e \<notin> set (bt_keys submitted)) ps then Ok None
        else case dep_from_str cr (join '','' [kind_str k @ '':'' @ show_nat (unat i). (i, k) \<leftarrow> known]) of
               Inl e \<Rightarrow> Err (SubmitFailed (''dependency parse failed for '' @ jobid_display cr job @ '': '' @ e))
             | Inr dep \<Rightarrow> Ok (Some dep))"
proof -
  have k: "submitted_parents ps submitted =
      [(i, edge_kind e). e \<leftarrow> ps, i \<leftarrow> (case bt_get submitted (edge_from e) of None \<Rightarrow> [] | Some i \<Rightarrow> [i])]"
    by (induction ps) (simp_all add: submitted_parents_def map_filter_simps split: option.split)
  have "submitted_parents ps submitted = [] \<longleftrightarrow> (\<forall>e\<in>set ps. edge_from e \<notin> set (bt_keys submitted))"
    by (induction ps) (simp_all add: submitted_parents_def map_filter_simps bt_in_keys split: option.split)
  then show ?thesis
    unfolding dependency_build_def Let_def k[symmetric] by (simp add: dependency_text_def list_all_iff)
qed

subsection \<open>Fake job ids\<close>

lemma fnv_vectors:
  \<comment> \<open>published FNV-1a test vectors\<close>
  "fnv_hash [] = 0xcbf29ce484222325"
  "fnv_hash ''a'' = 0xaf63dc4c8601ec8c"
  "fnv_hash ''foobar'' = 0x85944171f73967e8"
  by code_simp+

text \<open>The last addition does not wrap: a fake jobid is never zero and has at most seven digits.\<close>

lemma fake_jobid_bounds:
  "1 \<le> unat (deterministic_fake_jobid b) \<and> unat (deterministic_fake_jobid b) \<le> 9999999"
proof -
  have m: "unat (fnv_hash b mod 9999999) < 9999999" by (simp add: unat_mod)
  then have "unat (1 + fnv_hash b mod 9999999) = 1 + unat (fnv_hash b mod 9999999)"
    by (subst unat_add_lem[THEN iffD1]) simp_all
  then show ?thesis using m by (simp add: deterministic_fake_jobid_def)
qed

subsection \<open>Missing log directories\<close>

lemma obeys_missing_log_dirs [inv_intros]: "obeys (changes_only S) (missing_log_dirs root cfg)"
  unfolding missing_log_dirs_def
  by (rule frame.obeys_foldM)
    (auto split: option.split intro!: frame.obeys_ret frame.obeys_bind inv_intros)

lemma token_free_no_token: "c \<in> set (token_free_log_dir p) \<Longrightarrow> \<not> has_token c"
  by (auto simp: token_free_log_dir_def Let_def dest: set_takeWhileD)

lemma missing_log_dirs_run:
  assumes nf: "no_faults w"
  shows "fst (missing_log_dirs root cfg w) = Ok
    (List.map_filter (\<lambda>(field, val). case Option.bind val (resolve_log_dir root) of
        Some d \<Rightarrow> if node_at d w = None then Some (field, d) else None | None \<Rightarrow> None)
      [(''log_stdout'', log_stdout cfg), (''log_stderr'', log_stderr cfg)])"
  using nf
  by (auto simp: missing_log_dirs_def act_bind_def path_exists_run map_filter_simps split: option.split)

lemma resolve_log_dir_shape:
  \<comment> \<open>the longest prefix of the parent without a token, under the root when it is relative\<close>
  assumes r: "resolve_log_dir root val = Some d"
  shows "\<exists>q. path_parent (path_of val) = Some q
      \<and> (\<exists>dir rest. q = dir @ rest \<and> dir \<noteq> [] \<and> (\<forall>c\<in>set dir. CHR ''%'' \<notin> set (comp_display c))
          \<and> (rest \<noteq> [] \<longrightarrow> CHR ''%'' \<in> set (comp_display (hd rest)))
          \<and> d = (if is_absolute dir then dir else path_join root dir))"
proof -
  let ?dir = "token_free_log_dir (path_of val)"
  have ne: "?dir \<noteq> []" and d: "d = (if is_absolute ?dir then ?dir else path_join root ?dir)"
    using r by (auto simp: resolve_log_dir_def Let_def split: if_splits)
  obtain q where q: "path_parent (path_of val) = Some q"
    using ne by (cases "path_parent (path_of val)") (auto simp: token_free_log_dir_def)
  let ?rest = "dropWhile (\<lambda>c. \<not> has_token c) q"
  have "q = ?dir @ ?rest" using q by (simp add: token_free_log_dir_def)
  moreover have "?rest \<noteq> [] \<longrightarrow> CHR ''%'' \<in> set (comp_display (hd ?rest))"
    using hd_dropWhile[of "\<lambda>c. \<not> has_token c" q] by (auto simp: has_token_def)
  moreover have "\<forall>c\<in>set ?dir. CHR ''%'' \<notin> set (comp_display c)"
    using token_free_no_token by (auto simp: has_token_def)
  ultimately show ?thesis using q ne d by blast
qed

text \<open>
  With no failing system call, the check reports, stdout before stderr, exactly the log
  fields whose directory (the components before the first SLURM token, taken below the root when
  relative) does not exist; every reported directory is free of tokens below the root, and a
  value that is a mere file name is never reported.
\<close>

theorem missing_log_dirs_spec:
  assumes "\<forall>n. w_fault w n = None" and "missing_log_dirs root cfg w = (Ok out :: JobManagerError + _, w')"
  shows "map fst out = filter (\<lambda>f. \<exists>val d. (f, Some val) \<in> {(''log_stdout'', log_stdout cfg), (''log_stderr'', log_stderr cfg)}
        \<and> resolve_log_dir root val = Some d \<and> node_at d w = None) [''log_stdout'', ''log_stderr'']
    \<and> (\<forall>(f, d)\<in>set out. node_at d w = None
         \<and> (\<exists>val q. (f, Some val) \<in> {(''log_stdout'', log_stdout cfg), (''log_stderr'', log_stderr cfg)}
              \<and> path_parent (path_of val) = Some q
              \<and> (\<exists>dir rest. q = dir @ rest \<and> dir \<noteq> [] \<and> (\<forall>c\<in>set dir. CHR ''%'' \<notin> set (comp_display c))
                  \<and> (rest \<noteq> [] \<longrightarrow> CHR ''%'' \<in> set (comp_display (hd rest)))
                  \<and> d = (if is_absolute dir then dir else path_join root dir))))"
proof -
  have out: "out = List.map_filter (\<lambda>(field, val). case Option.bind val (resolve_log_dir root) of
        Some d \<Rightarrow> if node_at d w = None then Some (field, d) else None | None \<Rightarrow> None)
      [(''log_stdout'', log_stdout cfg), (''log_stderr'', log_stderr cfg)]"
  proof -
    have "no_faults w" using assms(1) by (simp add: no_faults_def)
    note run = missing_log_dirs_run[OF this, of root cfg]
    have "fst (missing_log_dirs root cfg w) = (Ok out :: JobManagerError + _)"
      using assms(2) by simp
    from trans[OF this[symmetric] run] show ?thesis by (simp only: sum.inject)
  qed
  have "map fst out = filter (\<lambda>f. \<exists>val d. (f, Some val) \<in> {(''log_stdout'', log_stdout cfg), (''log_stderr'', log_stderr cfg)}
        \<and> resolve_log_dir root val = Some d \<and> node_at d w = None) [''log_stdout'', ''log_stderr'']"
    unfolding out
    by (cases "log_stdout cfg"; cases "log_stderr cfg")
      (auto simp: map_filter_simps split: option.splits)
  moreover have rep: "node_at d w = None \<and> (\<exists>val. (f, Some val) \<in> {(''log_stdout'', log_stdout cfg), (''log_stderr'', log_stderr cfg)}
      \<and> resolve_log_dir root val = Some d)" if "(f, d) \<in> set out" for f d
    using that unfolding out
    by (auto simp: in_set_map_filter bind_eq_Some_conv split: option.splits if_splits)
  moreover have "case x of (f, d) \<Rightarrow> node_at d w = None
         \<and> (\<exists>val q. (f, Some val) \<in> {(''log_stdout'', log_stdout cfg), (''log_stderr'', log_stderr cfg)}
              \<and> path_parent (path_of val) = Some q
              \<and> (\<exists>dir rest. q = dir @ rest \<and> dir \<noteq> [] \<and> (\<forall>c\<in>set dir. CHR ''%'' \<notin> set (comp_display c))
                  \<and> (rest \<noteq> [] \<longrightarrow> CHR ''%'' \<in> set (comp_display (hd rest)))
                  \<and> d = (if is_absolute dir then dir else path_join root dir)))" if mem: "x \<in> set out" for x
  proof -
    obtain f d where x: "x = (f, d)" by fastforce
    obtain val where "node_at d w = None" and
      val: "(f, Some val) \<in> {(''log_stdout'', log_stdout cfg), (''log_stderr'', log_stderr cfg)}"
        "resolve_log_dir root val = Some d"
      using rep mem x by blast
    with resolve_log_dir_shape[OF val(2)] show ?thesis unfolding x prod.case by blast
  qed
  ultimately show ?thesis by blast
qed

subsection \<open>Concrete checks\<close>

definition logs_config :: SlurmJobConfig where
  "logs_config = plain_config\<lparr>log_stdout := Some ''logs/%x/%j.out'', log_stderr := Some ''err.txt''\<rparr>"

lemma missing_logs_run:
  "missing_log_dirs (path_of ''/data'') logs_config (quiet_world [(path_of ''/data'', Dir)])
    = ((Ok [(''log_stdout'', path_of ''/data/logs'')] :: JobManagerError + _),
       advance 1 (quiet_world [(path_of ''/data'', Dir)]))"
proof -
  have r: "resolve_log_dir (path_of ''/data'') ''logs/%x/%j.out'' = Some (path_of ''/data/logs'')"
    "resolve_log_dir (path_of ''/data'') ''err.txt'' = None"
    by code_simp+
  have n: "node_at (path_of ''/data/logs'') (quiet_world [(path_of ''/data'', Dir)]) = None" by code_simp
  have "no_faults (quiet_world fs)" for fs by (simp add: no_faults_def quiet_world_def)
  then show ?thesis
    using r n by (simp add: missing_log_dirs_def logs_config_def act_bind_def path_exists_run)
qed

lemma missing_log_dirs_spec_witness:
  "node_at (path_of ''/data/logs'') (quiet_world [(path_of ''/data'', Dir)]) = None"
  using missing_log_dirs_spec[OF _ missing_logs_run] by (force simp: quiet_world_def)

end
