(* ===== verification/Render.thy ===== *)
theory Render
  imports Layout
begin

section \<open>The batch script (render/mod.rs)\<close>

text \<open>
  \<open>render_batch_bash\<close> writes the job's context, axes and plan parameters as export
  statements, every value single-quoted, and then the user's body. To say that quoting is right
  the theory has a reader for the fragment of the POSIX shell that the header uses (comments,
  empty lines, exports of single-quoted and backslash-escaped words) and shows that it reads back
  exactly the bindings meant, whatever bytes the values hold.
\<close>

definition var_char :: "string \<Rightarrow> char" where
  "var_char u = (case u of
     [c] \<Rightarrow> if is_ascii_alphanumeric c \<or> c = CHR ''_'' then c else CHR ''_''
   | _ \<Rightarrow> CHR ''_'')"

definition sanitize_var_name :: "string \<Rightarrow> string" where
  "sanitize_var_name nm = map var_char (uchars (map to_upper nm))"

definition quote_for_bash :: "string \<Rightarrow> string" where
  "quote_for_bash val =
     [CHR 0x27] @ replace_char (CHR 0x27) [CHR 0x27, CHR 0x5C, CHR 0x27, CHR 0x27] val @ [CHR 0x27]"

definition show_int :: "int \<Rightarrow> string" where
  "show_int i = (if i < 0 then CHR ''-'' # show_nat (nat (- i)) else show_nat (nat i))"

fun toml_value_to_string :: "crates \<Rightarrow> Toml \<Rightarrow> string" where
  "toml_value_to_string cr (TString s) = s"
| "toml_value_to_string cr (TInteger i) = show_int i"
| "toml_value_to_string cr (TFloat f) = f"
| "toml_value_to_string cr (TBoolean b) = (if b then ''true'' else ''false'')"
| "toml_value_to_string cr (TArray a) = join '' '' (map (toml_value_to_string cr) a)"
| "toml_value_to_string cr (TDatetime d) = d"
| "toml_value_to_string cr (TTable t) = toml_display cr (TTable t)"

definition newline :: string where
  "newline = [CHR 0x0A]"

definition export_line :: "string \<Rightarrow> string \<Rightarrow> string" where
  \<comment> \<open>the format strings of the export lines\<close>
  "export_line var val = ''export '' @ var @ ''='' @ quote_for_bash val @ newline"

definition axis_line :: "string \<times> usize \<Rightarrow> string" where
  "axis_line a = (case a of (axis, idx) \<Rightarrow>
     export_line (''JM_AXIS_'' @ sanitize_var_name axis) (show_nat (unat idx)))"

definition param_line :: "crates \<Rightarrow> string \<times> Toml \<Rightarrow> string" where
  "param_line cr p = (case p of (k, v) \<Rightarrow>
     export_line (''JM_PARAM_'' @ sanitize_var_name k) (toml_value_to_string cr v))"

definition script_body :: "string \<Rightarrow> string" where
  "script_body bdy = bdy @ (if ends_with_char bdy (CHR 0x0A) then [] else newline)"

definition render_batch_bash ::
  "crates \<Rightarrow> Uuid \<Rightarrow> JobId \<Rightarrow> JobIdParts \<Rightarrow> (string, Toml) btree \<Rightarrow> string \<Rightarrow> string" where
  "render_batch_bash cr u j parts params bdy =
     ''#!/bin/bash'' @ newline
     @ ''# Generated by job_manager SP-3. Do not edit; regenerated on every `jm run`.'' @ newline
     @ newline @ ''# --- job-manager runtime context ---'' @ newline
     @ export_line ''JM_FLOW_UUID'' (uuid_str u)
     @ export_line ''JM_JOB_ID'' (jid j)
     @ concat (map axis_line (axis_combo parts))
     @ newline @ ''# --- plan.toml params ---'' @ newline
     @ concat (map (param_line cr) (bt_entries params))
     @ newline @ ''# --- user body (JobSpec.body) ---'' @ newline
     @ script_body bdy"

subsection \<open>Names\<close>

definition name_char :: "char \<Rightarrow> bool" where
  "name_char c \<longleftrightarrow> is_upper c \<or> is_digit c \<or> c = CHR ''_''"

lemma var_char_name: "\<forall>c\<in>set u. \<not> is_lower c \<Longrightarrow> name_char (var_char u)"
  by (auto simp: var_char_def name_char_def is_ascii_alphanumeric_def split: list.splits)

subsection \<open>A reader for the shell fragment\<close>

fun sh_word :: "bool \<Rightarrow> string \<Rightarrow> (string \<times> string) option" where
  \<comment> \<open>the value of a word up to the end of its line, inside (True) or outside single quotes\<close>
  "sh_word q [] = None"
| "sh_word True (c # cs) =
     (if c = CHR 0x27 then sh_word False cs
      else map_option (\<lambda>(v, r). (c # v, r)) (sh_word True cs))"
| "sh_word False (c # cs) =
     (if c = CHR 0x0A then Some ([], cs)
      else if c = CHR 0x27 then sh_word True cs
      else if c = CHR 0x5C then
        (case cs of
           [] \<Rightarrow> None
         | d # ds \<Rightarrow> if d = CHR 0x0A then None
                    else map_option (\<lambda>(v, r). (d # v, r)) (sh_word False ds))
      else None)"

fun sh_name :: "string \<Rightarrow> (string \<times> string) option" where
  \<comment> \<open>a variable name and what follows the equals sign\<close>
  "sh_name [] = None"
| "sh_name (c # cs) =
     (if c = CHR ''='' then Some ([], cs)
      else if name_char c then map_option (\<lambda>(n, r). (c # n, r)) (sh_name cs)
      else None)"

fun skip_line :: "string \<Rightarrow> string option" where
  "skip_line [] = None"
| "skip_line (c # cs) = (if c = CHR 0x0A then Some cs else skip_line cs)"

definition sh_statement :: "string \<Rightarrow> ((string \<times> string) list \<times> string) option" where
  \<comment> \<open>one statement: the bindings it exports and the rest of the input\<close>
  "sh_statement s =
     (case s of
        [] \<Rightarrow> None
      | c # cs \<Rightarrow>
          if c = CHR 0x0A then Some ([], cs)
          else if c = CHR ''#'' then map_option (\<lambda>r. ([], r)) (skip_line cs)
          else (case strip_prefix ''export '' s of
                  None \<Rightarrow> None
                | Some t \<Rightarrow>
                    (case sh_name t of
                       None \<Rightarrow> None
                     | Some (n, t') \<Rightarrow> map_option (\<lambda>(v, r). ([(n, v)], r)) (sh_word False t'))))"

inductive sh_reads :: "string \<Rightarrow> (string \<times> string) list \<Rightarrow> string \<Rightarrow> bool" where
  sh_stop: "sh_reads s [] s"
| sh_more: "sh_statement s = Some (bs, s') \<Longrightarrow> sh_reads s' cs r \<Longrightarrow> sh_reads s (bs @ cs) r"

inductive_cases sh_reads_Nil: "sh_reads [] bs r"

lemma sh_reads_trans: "sh_reads s bs s' \<Longrightarrow> sh_reads s' cs r \<Longrightarrow> sh_reads s (bs @ cs) r"
proof (induction rule: sh_reads.induct)
  case (sh_more s bs s' cs r)
  then show ?case using sh_reads.sh_more by fastforce
qed simp

lemma sh_skip: "sh_reads s [] s' \<Longrightarrow> sh_reads s' bs r \<Longrightarrow> sh_reads s bs r"
  using sh_reads_trans[of s "[]"] by simp

lemma sh_cons: "sh_reads s [b] s' \<Longrightarrow> sh_reads s' bs r \<Longrightarrow> sh_reads s (b # bs) r"
  using sh_reads_trans[of s "[b]"] by simp

lemma sh_reads_one: "sh_statement s = Some (bs, s') \<Longrightarrow> sh_reads s bs s'"
  using sh_reads.sh_more[OF _ sh_reads.sh_stop] by fastforce

subsection \<open>Quoting is exact\<close>

lemma sh_word_quoted:
  "sh_word True (replace_char (CHR 0x27) [CHR 0x27, CHR 0x5C, CHR 0x27, CHR 0x27] val @ CHR 0x27 # r)
    = map_option (\<lambda>(v, t). (val @ v, t)) (sh_word False r)"
proof (induction val)
  case Nil
  then show ?case by (simp add: replace_char_def option.map_id0[unfolded id_def] case_prod_unfold)
next
  case (Cons c val)
  then show ?case by (simp add: replace_char_def option.map_comp comp_def case_prod_unfold)
qed

lemma read_quoted:
  "sh_word False (quote_for_bash val @ newline @ r) = Some (val, r)"
proof -
  have "sh_word False (quote_for_bash val @ newline @ r)
      = sh_word True (replace_char (CHR 0x27) [CHR 0x27, CHR 0x5C, CHR 0x27, CHR 0x27] val
          @ CHR 0x27 # newline @ r)"
    by (simp add: quote_for_bash_def)
  also have "\<dots> = Some (val, r)" unfolding sh_word_quoted by (simp add: newline_def)
  finally show ?thesis .
qed

text \<open>
  Quoting is exact: whatever bytes a value holds, quotes, newlines and backslashes included, a
  shell that reads the quoted word gets back the value and continues after it.
\<close>

theorem quote_for_bash_exact:
  "sh_word False (quote_for_bash val @ newline @ r) = Some (val, r)"
  by (rule read_quoted)

lemma sh_name_append: "\<forall>c\<in>set n. name_char c \<Longrightarrow> sh_name (n @ CHR ''='' # r) = Some (n, r)"
  by (induction n) (auto simp: name_char_def is_upper_def is_digit_def code_def)

lemma read_export:
  assumes "\<forall>c\<in>set var. name_char c"
  shows "sh_reads (export_line var val @ r) [(var, val)] r"
proof (rule sh_reads_one)
  have "export_line var val @ r = ''export '' @ (var @ CHR ''='' # (quote_for_bash val @ newline @ r))"
    by (simp add: export_line_def)
  then show "sh_statement (export_line var val @ r) = Some ([(var, val)], r)"
    using assms read_quoted[of val r] strip_prefix_append[of "''export ''"]
    by (simp add: sh_statement_def sh_name_append)
qed

lemma read_newline: "sh_reads (newline @ r) [] r"
  by (rule sh_reads_one) (simp add: sh_statement_def newline_def)

lemma skip_line_append: "CHR 0x0A \<notin> set s \<Longrightarrow> skip_line (s @ newline @ r) = Some r"
  by (induction s) (auto simp: newline_def)

lemma read_comment: "CHR 0x0A \<notin> set s \<Longrightarrow> sh_reads ((CHR ''#'' # s) @ newline @ r) [] r"
  by (rule sh_reads_one) (simp add: sh_statement_def skip_line_append)

lemma read_exports:
  assumes "\<And>x. x \<in> set xs \<Longrightarrow> line x = export_line (nm x) (vl x) \<and> (\<forall>c\<in>set (nm x). name_char c)"
  shows "sh_reads (concat (map line xs) @ r) (map (\<lambda>x. (nm x, vl x)) xs) r"
  using assms
proof (induction xs)
  case Nil
  then show ?case by (simp add: sh_reads.sh_stop)
next
  case (Cons x xs)
  have "sh_reads (export_line (nm x) (vl x) @ (concat (map line xs) @ r)) [(nm x, vl x)]
      (concat (map line xs) @ r)"
    using Cons.prems[of x] by (intro read_export) simp
  moreover have "sh_reads (concat (map line xs) @ r) (map (\<lambda>x. (nm x, vl x)) xs) r"
    by (rule Cons.IH) (rule Cons.prems, simp)
  ultimately show ?case using sh_reads_trans Cons.prems[of x] by fastforce
qed

lemma uchars_subset: "u \<in> set (uchars s) \<Longrightarrow> set u \<subseteq> set s"
  using concat_uchars[of s] by (metis UN_upper set_concat)

lemma sanitize_name_chars: "c \<in> set (sanitize_var_name nm) \<Longrightarrow> name_char c"
proof -
  assume "c \<in> set (sanitize_var_name nm)"
  then obtain u where u: "u \<in> set (uchars (map to_upper nm))" and c: "c = var_char u"
    by (auto simp: sanitize_var_name_def)
  have "\<forall>d\<in>set u. \<not> is_lower d" using uchars_subset[OF u] to_upper_not_lower by auto
  then show ?thesis unfolding c by (rule var_char_name)
qed

text \<open>
  C12. A shell that reads the rendered script gets exactly these bindings, in this order, before
  it reaches the user's body: the flow uuid, the job id, the axes and the plan parameters, each with
  its value byte for byte. No value can end its statement, add one, or reach into the body.
\<close>

theorem render_reads_back:
  "sh_reads (render_batch_bash cr u j parts params bdy)
     ([(''JM_FLOW_UUID'', uuid_str u), (''JM_JOB_ID'', jid j)]
      @ map (\<lambda>(ax, idx). (''JM_AXIS_'' @ sanitize_var_name ax, show_nat (unat idx))) (axis_combo parts)
      @ map (\<lambda>(k, v). (''JM_PARAM_'' @ sanitize_var_name k, toml_value_to_string cr v)) (bt_entries params))
     (script_body bdy)"
proof -
  have prefix: "\<forall>c\<in>set ''JM_AXIS_''. name_char c" "\<forall>c\<in>set ''JM_PARAM_''. name_char c"
    "\<forall>c\<in>set ''JM_FLOW_UUID''. name_char c" "\<forall>c\<in>set ''JM_JOB_ID''. name_char c"
    by (simp_all add: name_char_def is_upper_def code_def)
  have ax: "sh_reads (concat (map axis_line (axis_combo parts)) @ r)
      (map (\<lambda>(ax, idx). (''JM_AXIS_'' @ sanitize_var_name ax, show_nat (unat idx))) (axis_combo parts)) r" for r
    using read_exports[where line = axis_line and nm = "\<lambda>x. ''JM_AXIS_'' @ sanitize_var_name (fst x)"
        and vl = "\<lambda>x. show_nat (unat (snd x))" and xs = "axis_combo parts" and r = r]
      prefix(1) sanitize_name_chars
    by (auto simp: axis_line_def case_prod_unfold)
  have pa: "sh_reads (concat (map (param_line cr) (bt_entries params)) @ r)
      (map (\<lambda>(k, v). (''JM_PARAM_'' @ sanitize_var_name k, toml_value_to_string cr v)) (bt_entries params)) r" for r
    using read_exports[where line = "param_line cr" and nm = "\<lambda>x. ''JM_PARAM_'' @ sanitize_var_name (fst x)"
        and vl = "\<lambda>x. toml_value_to_string cr (snd x)" and xs = "bt_entries params" and r = r]
      prefix(2) sanitize_name_chars
    by (auto simp: param_line_def case_prod_unfold)
  have script: "sh_reads (newline @ (CHR ''#'' # '' --- plan.toml params ---'') @ newline
      @ concat (map (param_line cr) (bt_entries params))
      @ newline @ (CHR ''#'' # '' --- user body (JobSpec.body) ---'') @ newline @ script_body bdy)
      (map (\<lambda>(k, v). (''JM_PARAM_'' @ sanitize_var_name k, toml_value_to_string cr v)) (bt_entries params))
      (script_body bdy)"
    by (rule sh_skip[OF read_newline], rule sh_skip[OF read_comment], simp,
        rule sh_reads_trans[OF pa, where cs = "[]", unfolded append_Nil2],
        rule sh_skip[OF read_newline], rule read_comment, simp)
  have "sh_reads ((CHR ''#'' # ''!/bin/bash'') @ newline
     @ (CHR ''#'' # '' Generated by job_manager SP-3. Do not edit; regenerated on every `jm run`.'') @ newline
     @ newline @ (CHR ''#'' # '' --- job-manager runtime context ---'') @ newline
     @ export_line ''JM_FLOW_UUID'' (uuid_str u)
     @ export_line ''JM_JOB_ID'' (jid j)
     @ concat (map axis_line (axis_combo parts)) @ rest)
     ((''JM_FLOW_UUID'', uuid_str u) # (''JM_JOB_ID'', jid j) #
       (map (\<lambda>(ax, idx). (''JM_AXIS_'' @ sanitize_var_name ax, show_nat (unat idx))) (axis_combo parts)))
     rest" for rest
    by (rule sh_skip[OF read_comment], simp, rule sh_skip[OF read_comment], simp,
        rule sh_skip[OF read_newline], rule sh_skip[OF read_comment], simp,
        rule sh_cons[OF read_export[OF prefix(3)]], rule sh_cons[OF read_export[OF prefix(4)]],
        rule ax)
  from sh_reads_trans[OF this script] show ?thesis by (simp add: render_batch_bash_def)
qed

end
