(* ===== verification/Submit.thy ===== *)
theory Submit
  imports FlowRun Slurm Render
begin

section \<open>Submitting a flow (runner/flow.rs)\<close>

text \<open>
  \<open>submit\<close> in the steps of the code: the topological order, the snapshot, the preseed of
  known SLURM jobids, the preflight over all jobs, and the loop that renders each job and, unless
  it is a dry run, sends it to the executor and records its status. Tasks moved to a blocking
  pool are run in place: the panic of such a task is outside the model. The one panic of the code
  itself (a job without a preflighted configuration) is an error value, which the lemmas show is
  never returned.
\<close>

definition exec :: "'x executor \<Rightarrow> SbatchCmd \<Rightarrow> ('x, u64) io" where
  "exec ex cmd w = (case ex cmd (world.more w) of (r, x') \<Rightarrow> (r, world.more_update (\<lambda>_. x') w))"

definition install_batch :: "Path \<Rightarrow> Path \<Rightarrow> string \<Rightarrow> ('x, unit) io" where
  \<comment> \<open>from the write of the temporary on; a failing chmod is only a warning\<close>
  "install_batch tmp path bytes =
     act_bind (act_try (write_and_sync tmp bytes)) (\<lambda>written.
     case written of
       Err e \<Rightarrow> act_bind (act_try (remove_file tmp)) (\<lambda>_. fail e)
     | Ok _ \<Rightarrow>
         act_bind (act_try (set_permissions tmp)) (\<lambda>_.
         act_bind (act_try (rename_file tmp path)) (\<lambda>renamed.
         case renamed of
           Err e \<Rightarrow> act_bind (act_try (remove_file tmp)) (\<lambda>_. fail (Io path e))
         | Ok _ \<Rightarrow> ret ())))"

definition atomic_write_batch_bash :: "Path \<Rightarrow> string \<Rightarrow> ('x, unit) io" where
  "atomic_write_batch_bash path bytes =
     (case file_name path of
        None \<Rightarrow> fail (Other (''invalid batch path: '' @ path_display path))
      | Some fname \<Rightarrow>
          (let parent = (case path_parent path of None \<Rightarrow> [CurDir] | Some q \<Rightarrow> q)
           in act_bind tmp_extension (\<lambda>suffix.
              install_batch (join_str parent (''.'' @ fname @ ''.'' @ suffix)) path bytes)))"

definition write_snapshot :: "crates \<Rightarrow> PathResolver \<Rightarrow> FlowRun \<Rightarrow> ('x, unit) io" where
  "write_snapshot cr r fr =
     (let eff_path = flow_effective_toml r (flow_uuid fr)
      in act_bind (ensure_parent eff_path) (\<lambda>_. write_flow_effective cr eff_path (run_flow fr)))"

definition candidate_jids :: "FlowRun \<Rightarrow> JobId list" where
  \<comment> \<open>the \<open>BTreeSet\<close> of the preseed, in its order\<close>
  "candidate_jids fr = bt_keys (bt_of_list (map (\<lambda>k. (k, ()))
     (bt_keys (jobs (run_flow fr))
      @ concat (map (\<lambda>job. map edge_from (parents job)) (bt_values (jobs (run_flow fr)))))))"

definition preseed_one ::
  "crates \<Rightarrow> PathResolver \<Rightarrow> FlowRun \<Rightarrow> (JobId, u64) btree \<Rightarrow> JobId \<Rightarrow> ('x, (JobId, u64) btree) io" where
  "preseed_one cr r fr submitted j =
     (let path = status_file r (flow_uuid fr) j
      in act_bind (path_exists path) (\<lambda>ex.
         if \<not> ex then ret submitted
         else act_bind (act_try (read_job_run cr path)) (\<lambda>res.
              ret (case res of
                     Ok run \<Rightarrow> (case slurm_jobid run of Some i \<Rightarrow> bt_insert j i submitted | None \<Rightarrow> submitted)
                   | Err _ \<Rightarrow> submitted))))"

definition preseed :: "crates \<Rightarrow> PathResolver \<Rightarrow> FlowRun \<Rightarrow> ('x, (JobId, u64) btree) io" where
  "preseed cr r fr = act_foldM (preseed_one cr r fr) bt_empty (candidate_jids fr)"

definition preflight_one ::
  "PathResolver \<Rightarrow> FlowRun \<Rightarrow> (JobId, SlurmJobConfig) btree \<Rightarrow> JobId
    \<Rightarrow> ('x, (JobId, SlurmJobConfig) btree) io" where
  "preflight_one r fr effective j =
     act_bind (act_lift (effective_config fr j)) (\<lambda>cfg.
     act_bind (missing_log_dirs (res_root r) cfg) (\<lambda>missing.
     case missing of
       (field, dir) # _ \<Rightarrow> fail (LogDirMissing j field dir)
     | [] \<Rightarrow> ret (bt_insert j cfg effective)))"

definition preflight ::
  "PathResolver \<Rightarrow> FlowRun \<Rightarrow> JobId list \<Rightarrow> ('x, (JobId, SlurmJobConfig) btree) io" where
  "preflight r fr order = act_foldM (preflight_one r fr) bt_empty order"

definition sbatch_cmd :: "Path \<Rightarrow> SlurmJobConfig \<Rightarrow> SlurmDependency option \<Rightarrow> SbatchCmd" where
  "sbatch_cmd script cfg dep =
     \<lparr>cmd_script = script, cmd_partition = Some (partition_name cfg), cmd_time_limit = time_limit cfg,
      cmd_rsc = resource_spec cfg, cmd_output = log_stdout cfg, cmd_error = log_stderr cfg,
      cmd_job_name = job_name cfg, cmd_array_spec = array_spec cfg, cmd_mail_user = mail_user cfg,
      cmd_mail_types = mail_types cfg, cmd_comment = comment cfg, cmd_dependency = dep\<rparr>"

definition render_job :: "crates \<Rightarrow> PathResolver \<Rightarrow> FlowRun \<Rightarrow> JobId \<Rightarrow> ('x, unit) io" where
  \<comment> \<open>the first half of the loop body\<close>
  "render_job cr r fr j =
     act_bind (act_lift (params_of fr j)) (\<lambda>params.
     act_bind (act_lift (map_err (\<lambda>e. RenderError j (err_display cr e)) (parse_job_id cr (jid j)))) (\<lambda>parts.
     act_bind (act_lift (ok_or (bt_get (jobs (run_flow fr)) j) (JobNotFound (flow_uuid fr) j))) (\<lambda>job.
     let script_content = render_batch_bash cr (flow_uuid fr) j parts params (body (spec job));
         batch_path = batch_bash r (flow_uuid fr) j
     in act_bind (ensure_parent batch_path) (\<lambda>_. atomic_write_batch_bash batch_path script_content))))"

definition queued_at :: "DateTime \<Rightarrow> u64 \<Rightarrow> JobRun" where
  "queued_at t i = \<lparr>lifecycle = Queued, updated_at = t, slurm_jobid = Some i, slurm_status = None,
     run_note = None\<rparr>"

definition send_job ::
  "'x executor \<Rightarrow> crates \<Rightarrow> PathResolver \<Rightarrow> FlowRun \<Rightarrow> SlurmJobConfig \<Rightarrow> (JobId, u64) btree \<Rightarrow> JobId
    \<Rightarrow> ('x, u64) io" where
  \<comment> \<open>the second half: build the command, submit it, record the status\<close>
  "send_job ex cr r fr cfg submitted j =
     act_bind (act_lift (dependency_build cr (parents_of fr j) submitted j)) (\<lambda>dep.
     act_bind (exec ex (sbatch_cmd (batch_bash r (flow_uuid fr) j) cfg dep)) (\<lambda>i.
     act_bind clock_now (\<lambda>now.
     act_bind (write_job_run cr (status_file r (flow_uuid fr) j) (queued_at now i)) (\<lambda>_.
     ret i))))"

type_synonym loop_state = "(JobId, u64) btree \<times> (JobId, SlurmJobConfig) btree"

definition submit_one ::
  "'x executor \<Rightarrow> crates \<Rightarrow> PathResolver \<Rightarrow> FlowRun \<Rightarrow> bool \<Rightarrow> loop_state \<Rightarrow> JobId \<Rightarrow> ('x, loop_state) io" where
  "submit_one ex cr r fr dry_run st j =
     (case st of (submitted, effective) \<Rightarrow>
        act_bind (render_job cr r fr j) (\<lambda>_.
        if dry_run then ret (submitted, effective)
        else case bt_get effective j of
               None \<Rightarrow> fail (Other ''panic: preflight resolved the effective config for every submitted job'')
             | Some cfg \<Rightarrow>
                 act_bind (send_job ex cr r fr cfg submitted j) (\<lambda>i.
                 ret (bt_insert j i submitted, bt_remove j effective))))"

definition submit ::
  "'x executor \<Rightarrow> crates \<Rightarrow> PathResolver \<Rightarrow> FlowRun \<Rightarrow> bool \<Rightarrow> ('x, (JobId, u64) btree) io" where
  "submit ex cr r fr dry_run =
     act_bind (act_lift (run_order fr)) (\<lambda>order.
     act_bind (write_snapshot cr r fr) (\<lambda>_.
     act_bind (preseed cr r fr) (\<lambda>submitted.
     act_bind (if dry_run then ret bt_empty else preflight r fr order) (\<lambda>effective.
     act_bind (act_foldM (submit_one ex cr r fr dry_run) (submitted, effective) order) (\<lambda>st.
     ret (fst st))))))"

definition render_only :: "'x executor \<Rightarrow> crates \<Rightarrow> PathResolver \<Rightarrow> FlowRun \<Rightarrow> ('x, unit) io" where
  "render_only ex cr r fr = act_bind (submit ex cr r fr True) (\<lambda>_. ret ())"

subsection \<open>Where a submission writes\<close>

definition job_area :: "PathResolver \<Rightarrow> Uuid \<Rightarrow> JobId \<Rightarrow> Path set" where
  \<comment> \<open>the job's directory, what is below it, and the directories above it\<close>
  "job_area r u j = {q. path_starts_with q (job_dir r u j)} \<union> dirs_above (batch_bash r u j)"

lemma tmp_text_no_slash: "CHR ''/'' \<notin> set (tmp_text pid t tid)"
proof -
  have "CHR ''/'' \<notin> set (show_nat n)" for n
    using show_nat_digits[of n] by (auto simp: list_all_iff is_digit_def code_def)
  moreover have "CHR ''/'' \<notin> set (take 8 (filter is_digit tid))"
    by (auto simp: is_digit_def code_def dest: in_set_takeD)
  ultimately show ?thesis by (simp add: tmp_text_def)
qed

lemma plain_tmp_name:
  "CHR ''/'' \<notin> set n \<Longrightarrow> n \<noteq> [] \<Longrightarrow> plain_name (''.'' @ n @ ''.'' @ tmp_text pid t tid)"
proof -
  have "tmp_text pid t tid \<noteq> []" by (simp add: tmp_text_def)
  then show "CHR ''/'' \<notin> set n \<Longrightarrow> n \<noteq> [] \<Longrightarrow> plain_name (''.'' @ n @ ''.'' @ tmp_text pid t tid)"
    using tmp_text_no_slash[of pid t tid] by (cases n) (auto simp: plain_name_def)
qed

lemma obeys_install_batch:
  assumes "tmp \<in> S" and "path \<in> S"
  shows "obeys (changes_only S) (install_batch tmp path b)"
  unfolding install_batch_def using assms
  by (auto intro!: frame.obeys_bind frame.obeys_try frame.obeys_fail frame.obeys_ret
      obeys_write_and_sync obeys_remove_file obeys_rename obeys_set_permissions split: sum.split)

lemma obeys_batch_bash:
  assumes path: "path = p @ [Normal n]" and p: "p \<noteq> []" and n: "CHR ''/'' \<notin> set n" "n \<noteq> []"
    and S: "path \<in> S" "\<And>suffix. p @ [Normal (''.'' @ n @ ''.'' @ suffix)] \<in> S"
  shows "obeys (changes_only S) (atomic_write_batch_bash path b :: ('x, unit) io)"
proof -
  have "obeys (changes_only S) (act_bind tmp_extension (\<lambda>suffix.
      install_batch (join_str p (''.'' @ n @ ''.'' @ suffix)) path b) :: ('x, unit) io)"
  proof (rule frame.obeys_bind_res[OF obeys_tmp_extension])
    fix w w1 :: "'x world_scheme" and suffix
    assume "tmp_extension w = (Ok suffix :: JobManagerError + string, w1)"
    then obtain pid t tid where "suffix = tmp_text pid t tid" by (auto simp: tmp_extension_run)
    then have "join_str p (''.'' @ n @ ''.'' @ suffix) = p @ [Normal (''.'' @ n @ ''.'' @ suffix)]"
      using plain_tmp_name[OF n, of pid t tid] p by (simp only: join_str_plain not_False_eq_True)
    then show "obeys (changes_only S) (install_batch (join_str p (''.'' @ n @ ''.'' @ suffix)) path b)"
      using S by (simp only: obeys_install_batch)
  qed
  then show ?thesis by (simp add: atomic_write_batch_bash_def path)
qed

lemma job_paths:
  assumes "plain_uuid u" and "plain_id j"
  shows "batch_bash r u j = job_dir r u j @ [Normal ''batch.bash'']"
    and "status_file r u j = job_dir r u j @ [Normal ''status.toml'']"
    and "job_dir r u j \<noteq> []"
  using assms by (simp_all add: path_simps)

lemma parsed_plain: "parse_job_id cr (jid j) = Ok pj \<Longrightarrow> plain_id j"
  unfolding plain_id_def by (rule parse_job_id_plain)

lemma obeys_render_job:
  assumes u: "plain_uuid (flow_uuid fr)"
    and S: "\<And>pj. parse_job_id cr (jid j) = Ok pj \<Longrightarrow>
      job_area r (flow_uuid fr) j - {status_file r (flow_uuid fr) j} \<subseteq> S"
  shows "obeys (changes_only S) (render_job cr r fr j)"
proof (cases "parse_job_id cr (jid j)")
  case (Inl e)
  then show ?thesis
    unfolding render_job_def
    by (intro frame.obeys_bind_res[OF frame.obeys_lift]) (auto simp: act_lift_def)
next
  case (Inr pj)
  let ?u = "flow_uuid fr"
  have j: "plain_id j" using Inr by (rule parsed_plain)
  note paths = job_paths[OF u j, of r]
  let ?A = "job_area r ?u j - {status_file r ?u j}"
  have above: "q \<in> ?A" if "q \<in> dirs_above (batch_bash r ?u j)" for q
    using that by (auto simp: job_area_def dirs_above_def paths)
  have inside: "job_dir r ?u j @ [Normal n] \<in> ?A" if "n \<noteq> ''status.toml''" for n
    using that by (simp add: job_area_def paths)
  have "obeys (changes_only ?A) (atomic_write_batch_bash (batch_bash r ?u j) b)" for b
    unfolding paths(1)
    by (rule obeys_batch_bash[OF refl paths(3)]) (simp, simp, rule inside, simp, rule inside, simp)
  moreover have "obeys (changes_only ?A) (ensure_parent (batch_bash r ?u j))"
    by (rule obeys_ensure_parent) (use above ancestors_dirs_above in blast)
  ultimately have "obeys (changes_only ?A) (render_job cr r fr j)"
    unfolding render_job_def Let_def by (intro frame.obeys_bind frame.obeys_lift)
  then show ?thesis using S[OF Inr] by (rule obeys_mono)
qed

lemma obeys_preseed [inv_intros]: "obeys (changes_only S) (preseed cr r fr)"
  unfolding preseed_def preseed_one_def Let_def
  by (intro frame.obeys_foldM frame.obeys_bind frame.obeys_if frame.obeys_ret frame.obeys_try inv_intros)

lemma obeys_preflight [inv_intros]: "obeys (changes_only S) (preflight r fr order)"
  unfolding preflight_def preflight_one_def
  by (intro frame.obeys_foldM frame.obeys_bind frame.obeys_lift inv_intros)
    (auto split: list.split intro: frame.obeys_ret frame.obeys_fail)

lemma obeys_snapshot:
  assumes "write_set (flow_effective_toml r (flow_uuid fr)) \<subseteq> S"
  shows "obeys (changes_only S) (write_snapshot cr r fr)"
proof -
  have "obeys (changes_only S) (ensure_parent (flow_effective_toml r (flow_uuid fr)))"
    by (rule obeys_ensure_parent) (use assms ancestors_dirs_above in \<open>auto simp: write_set_def\<close>)
  then show ?thesis
    unfolding write_snapshot_def Let_def using assms by (intro frame.obeys_bind obeys_writers)
qed

lemma obeys_exec: "obeys (files_only S) (exec ex cmd)"
  by (rule obeysI) (auto simp: exec_def files_only_def same_host_def node_at_def split: prod.splits)

lemma obeys_send_job:
  assumes "write_set (status_file r (flow_uuid fr) j) \<subseteq> S"
  shows "obeys (files_only S) (send_job ex cr r fr cfg sub j)"
  unfolding send_job_def
  by (intro files.obeys_bind files.obeys_lift files.obeys_ret obeys_exec
      obeys_files[OF obeys_clock_now subset_refl] obeys_files[OF obeys_writers(3)[OF assms] subset_refl])

lemma write_set_status:
  assumes "plain_uuid u" and "plain_id j"
  shows "write_set (status_file r u j) \<subseteq> job_area r u j"
proof -
  note paths = job_paths[OF assms, of r]
  have "temporaries (status_file r u j) \<subseteq> {q. path_starts_with q (job_dir r u j)}"
    by (auto simp: temporaries_def paths with_extension_def path_starts_with_iff)
  moreover have "dirs_above (status_file r u j) \<subseteq> job_area r u j"
    by (auto simp: dirs_above_def job_area_def paths path_starts_with_iff append_eq_append_conv2
        Cons_eq_append_conv)
  moreover have "status_file r u j \<in> job_area r u j"
    by (simp add: job_area_def paths)
  ultimately show ?thesis by (auto simp: write_set_def job_area_def)
qed

lemma status_not_in_area:
  assumes "plain_uuid u" and "plain_id j" and "plain_id k" and "j \<noteq> k"
  shows "status_file r u j \<notin> job_area r u k"
proof -
  have "jid j \<noteq> jid k" using assms(4) JobId.expand by blast
  then show ?thesis
    using assms by (auto simp: job_area_def path_simps path_starts_with_iff dirs_above_def)
qed

lemma render_job_Ok: "render_job cr r fr j w = (Ok (), w') \<Longrightarrow> \<exists>pj. parse_job_id cr (jid j) = Ok pj"
  by (auto simp: render_job_def io_simps res_simps)

lemma obeys_submit_one:
  assumes u: "plain_uuid (flow_uuid fr)" and S: "plain_id j \<Longrightarrow> job_area r (flow_uuid fr) j \<subseteq> S"
  shows "obeys (files_only S) (submit_one ex cr r fr dry_run st j)"
proof -
  obtain sub eff where st: "st = (sub, eff)" by fastforce
  have rend: "obeys (files_only S) (render_job cr r fr j)"
    by (rule obeys_files[OF obeys_render_job[OF u] subset_refl]) (use S parsed_plain in blast)
  show ?thesis
    unfolding submit_one_def st prod.case
  proof (rule files.obeys_bind_res[OF rend])
    fix w x w1
    assume "render_job cr r fr j w = (Ok x, w1)"
    then have j: "plain_id j" using render_job_Ok parsed_plain by (cases x) blast
    have "obeys (files_only S) (send_job ex cr r fr cfg sub j)" for cfg
      using write_set_status[OF u j, of r] S[OF j] by (intro obeys_send_job) blast
    then show "obeys (files_only S) (if dry_run then ret (sub, eff)
        else case bt_get eff j of
               None \<Rightarrow> fail (Other ''panic: preflight resolved the effective config for every submitted job'')
             | Some cfg \<Rightarrow> act_bind (send_job ex cr r fr cfg sub j) (\<lambda>i.
                 ret (bt_insert j i sub, bt_remove j eff)))"
      by (auto split: option.split intro!: files.obeys_ret files.obeys_fail files.obeys_bind)
  qed
qed

definition loop_area :: "PathResolver \<Rightarrow> Uuid \<Rightarrow> JobId set \<Rightarrow> Path set" where
  "loop_area r u js = (\<Union>j\<in>{j \<in> js. plain_id j}. job_area r u j)"

lemma files_only_mono: "files_only S w w' \<Longrightarrow> S \<subseteq> T \<Longrightarrow> files_only T w w'"
  by (auto simp: files_only_def)

lemma obeys_submit_loop:
  assumes "plain_uuid (flow_uuid fr)"
  shows "obeys (files_only (loop_area r (flow_uuid fr) (set xs)))
    (act_foldM (submit_one ex cr r fr dry_run) st xs)"
  by (intro files.obeys_foldM obeys_submit_one[OF assms]) (auto simp: loop_area_def)

lemma status_not_in_loop:
  "plain_uuid u \<Longrightarrow> plain_id j \<Longrightarrow> j \<notin> js \<Longrightarrow> status_file r u j \<notin> loop_area r u js"
  using status_not_in_area by (auto simp: loop_area_def)

subsection \<open>One round of the loop\<close>

definition job_command ::
  "crates \<Rightarrow> PathResolver \<Rightarrow> FlowRun \<Rightarrow> (JobId, u64) btree \<Rightarrow> JobId \<Rightarrow> SbatchCmd \<Rightarrow> bool" where
  \<comment> \<open>the command a job is submitted with when the map gives the jobids of its parents\<close>
  "job_command cr r fr submitted j cmd \<longleftrightarrow> (\<exists>cfg dep. effective_config fr j = Ok cfg
     \<and> dependency_build cr (parents_of fr j) submitted j = Ok dep
     \<and> cmd = sbatch_cmd (batch_bash r (flow_uuid fr) j) cfg dep)"

definition recorded :: "crates \<Rightarrow> PathResolver \<Rightarrow> FlowRun \<Rightarrow> JobId \<Rightarrow> u64 \<Rightarrow> 'x world_scheme \<Rightarrow> bool" where
  \<comment> \<open>the status file of the job says that it is queued under this jobid, since some clock reading\<close>
  "recorded cr r fr j i w \<longleftrightarrow> (\<exists>n text. toml_ser_run cr (queued_at (w_clock w n) i) = Ok text
     \<and> node_at (status_file r (flow_uuid fr) j) w = Some (File text))"

lemma dependency_build_cong:
  assumes "\<And>e. e \<in> set ps \<Longrightarrow> bt_get s (edge_from e) = bt_get s' (edge_from e)"
  shows "dependency_build cr ps s j = dependency_build cr ps s' j"
proof -
  have "submitted_parents ps s = submitted_parents ps s'"
    unfolding submitted_parents_def List.map_filter_def using assms by (auto cong: map_cong filter_cong)
  then show ?thesis by (simp add: dependency_build_def)
qed

lemma exec_Ok: "exec ex cmd w = (Ok i, w') \<longleftrightarrow>
    (\<exists>x'. ex cmd (world.more w) = (Ok i, x') \<and> w' = world.more_update (\<lambda>_. x') w)"
  by (auto simp: exec_def split: prod.splits)

lemma more_of: "obeys (changes_only S) m \<Longrightarrow> m w = (x, w') \<Longrightarrow> world.more w' = world.more w"
  by (drule (1) obeysD) (simp add: changes_only_def)

lemma obeys_render_more:
  "plain_uuid (flow_uuid fr) \<Longrightarrow> obeys (changes_only UNIV) (render_job cr r fr j)"
  by (rule obeys_render_job) simp_all

lemma send_job_Ok:
  assumes s: "send_job ex cr r fr cfg sub j w = (Ok i, w')"
    and u: "plain_uuid (flow_uuid fr)" and j: "plain_id j"
  obtains dep where "dependency_build cr (parents_of fr j) sub j = Ok dep"
    "ex (sbatch_cmd (batch_bash r (flow_uuid fr) j) cfg dep) (world.more w) = (Ok i, world.more w')"
    "recorded cr r fr j i w'"
proof -
  from s obtain dep w1 now w2 where dep: "dependency_build cr (parents_of fr j) sub j = Ok dep"
    and e: "exec ex (sbatch_cmd (batch_bash r (flow_uuid fr) j) cfg dep) w = (Ok i, w1)"
    and c: "clock_now w1 = (Ok now :: JobManagerError + _, w2)"
    and wr: "write_job_run cr (status_file r (flow_uuid fr) j) (queued_at now i) w2 = (Ok (), w')"
    by (auto simp: send_job_def io_simps)
  have "world.more w2 = world.more w1" by (rule more_of[OF obeys_clock_now c])
  moreover have "world.more w' = world.more w2"
    by (rule more_of[OF obeys_writers(3)[OF subset_UNIV] wr])
  moreover have "ex (sbatch_cmd (batch_bash r (flow_uuid fr) j) cfg dep) (world.more w) = (Ok i, world.more w1)"
    using e by (auto simp: exec_Ok)
  moreover have "recorded cr r fr j i w'"
  proof -
    have "file_name (status_file r (flow_uuid fr) j) \<noteq> None"
      using job_paths[OF u j, of r] by simp
    moreover have "now = w_clock w' (w_step w1)"
      using obeysD[OF obeys_writers(3)[OF subset_UNIV] wr] c
      by (auto simp: clock_now_def next_step_def changes_only_def same_host_def)
    ultimately show ?thesis
      using write_toml_Ok[OF wr[unfolded write_job_run_def]] by (auto simp: recorded_def)
  qed
  ultimately show thesis using dep that by simp
qed

lemma submit_one_Ok:
  assumes s: "submit_one ex cr r fr False (sub, eff) j w = (Ok (sub', eff'), w')"
    and u: "plain_uuid (flow_uuid fr)"
  obtains i cfg dep where "plain_id j" "bt_get eff j = Some cfg"
    "dependency_build cr (parents_of fr j) sub j = Ok dep"
    "ex (sbatch_cmd (batch_bash r (flow_uuid fr) j) cfg dep) (world.more w) = (Ok i, world.more w')"
    "sub' = bt_insert j i sub" "eff' = bt_remove j eff" "recorded cr r fr j i w'"
proof -
  from s obtain w1 cfg i where r: "render_job cr r fr j w = (Ok (), w1)"
    and c: "bt_get eff j = Some cfg" and sd: "send_job ex cr r fr cfg sub j w1 = (Ok i, w')"
    and o: "sub' = bt_insert j i sub" "eff' = bt_remove j eff"
    by (auto simp: submit_one_def io_simps split: option.splits)
  have j: "plain_id j" using render_job_Ok[OF r] parsed_plain by blast
  have "world.more w1 = world.more w" by (rule more_of[OF obeys_render_more[OF u] r])
  then show thesis using that[OF j c _ _ o] send_job_Ok[OF sd u j] by metis
qed

lemma submit_loop_Ok:
  assumes "act_foldM (submit_one ex cr r fr False) (sub, eff) xs w = (Ok (sub', eff'), w')"
    and u: "plain_uuid (flow_uuid fr)" and "distinct xs"
  shows "(\<forall>k. k \<notin> set xs \<longrightarrow> bt_get sub' k = bt_get sub k)
    \<and> (\<forall>j\<in>set xs. plain_id j \<and> (\<exists>i. bt_get sub' j = Some i \<and> recorded cr r fr j i w'))"
  using assms(1,3)
proof (induction xs arbitrary: sub eff w)
  case Nil
  then show ?case by (simp add: io_simps)
next
  case (Cons j xs)
  from Cons.prems(1) obtain sub1 eff1 w1 where s: "submit_one ex cr r fr False (sub, eff) j w = (Ok (sub1, eff1), w1)"
    and l: "act_foldM (submit_one ex cr r fr False) (sub1, eff1) xs w1 = (Ok (sub', eff'), w')"
    by (auto simp: io_simps)
  from s u obtain i where j: "plain_id j" and sub1: "sub1 = bt_insert j i sub"
    and rec: "recorded cr r fr j i w1"
    by (rule submit_one_Ok)
  have IH: "(\<forall>k. k \<notin> set xs \<longrightarrow> bt_get sub' k = bt_get sub1 k)
    \<and> (\<forall>j\<in>set xs. plain_id j \<and> (\<exists>i. bt_get sub' j = Some i \<and> recorded cr r fr j i w'))"
    by (rule Cons.IH[OF l]) (use Cons.prems(2) in simp)
  have "files_only (loop_area r (flow_uuid fr) (set xs)) w1 w'"
    by (rule obeysD[OF obeys_submit_loop[OF u] l])
  then have "recorded cr r fr j i w'"
    using rec status_not_in_loop[OF u j, of "set xs" r] Cons.prems(2)
    by (auto simp: recorded_def files_only_def same_host_def)
  then show ?case using IH j sub1 Cons.prems(2) by (auto simp: bt_get_insert)
qed

subsection \<open>What the executor is called with\<close>

text \<open>
  For an executor that records its calls the loop adds one command per job, in order; each
  carries the dependency that the final map of jobids gives, since a parent's entry never
  changes after the parent was submitted. The final map holds the executor's answers.
\<close>

definition parents_done :: "FlowRun \<Rightarrow> JobId list \<Rightarrow> bool" where
  \<comment> \<open>no job of the list comes before one of its parents, or is its own parent\<close>
  "parents_done fr xs \<longleftrightarrow> (\<forall>us j vs. xs = us @ j # vs \<longrightarrow>
     (\<forall>e\<in>set (parents_of fr j). edge_from e \<notin> set (j # vs)))"

lemma parents_done_Cons: "parents_done fr (j # xs) \<Longrightarrow> parents_done fr xs"
  unfolding parents_done_def by (metis append_Cons)

lemma parents_done_order: "run_order fr = Ok order \<Longrightarrow> parents_done fr order"
  unfolding parents_done_def using run_order_parents_before(2) by blast

context recorder
begin

lemma submit_loop_calls:
  assumes "act_foldM (submit_one submit cr r fr False) (sub, eff) xs w = (Ok (sub', eff'), w')"
    and "plain_uuid (flow_uuid fr)" and "distinct xs" and "parents_done fr xs"
    and "\<forall>j\<in>set xs. \<forall>cfg. bt_get eff j = Some cfg \<longrightarrow> effective_config fr j = Ok cfg"
  shows "\<exists>cmds ids. calls (world.more w') = calls (world.more w) @ cmds
    \<and> run_commands submit cmds (world.more w) = (Ok ids, world.more w')
    \<and> list_all2 (\<lambda>j i. bt_get sub' j = Some i) xs ids
    \<and> list_all2 (job_command cr r fr sub') xs cmds"
  using assms(1,3-5)
proof (induction xs arbitrary: sub eff w)
  case Nil
  then show ?case by (simp add: io_simps)
next
  case (Cons j xs)
  from Cons.prems(1) obtain sub1 eff1 w1 where
    s: "submit_one submit cr r fr False (sub, eff) j w = (Ok (sub1, eff1), w1)"
    and l: "act_foldM (submit_one submit cr r fr False) (sub1, eff1) xs w1 = (Ok (sub', eff'), w')"
    by (auto simp: io_simps)
  from s assms(2) obtain i cfg dep where c: "bt_get eff j = Some cfg"
    and dep: "dependency_build cr (parents_of fr j) sub j = Ok dep"
    and call: "submit (sbatch_cmd (batch_bash r (flow_uuid fr) j) cfg dep) (world.more w) = (Ok i, world.more w1)"
    and o: "sub1 = bt_insert j i sub" "eff1 = bt_remove j eff"
    by (rule submit_one_Ok)
  have d: "distinct xs" "j \<notin> set xs" using Cons.prems(2) by auto
  have eff1: "\<forall>k\<in>set xs. \<forall>cfg. bt_get eff1 k = Some cfg \<longrightarrow> effective_config fr k = Ok cfg"
    using Cons.prems(4) d(2) by (auto simp: o bt_get_remove)
  from Cons.IH[OF l d(1) parents_done_Cons[OF Cons.prems(3)] eff1]
  obtain cmds ids where cmds: "calls (world.more w') = calls (world.more w1) @ cmds"
    "run_commands submit cmds (world.more w1) = (Ok ids, world.more w')"
    "list_all2 (\<lambda>j i. bt_get sub' j = Some i) xs ids" "list_all2 (job_command cr r fr sub') xs cmds" by blast
  have same: "bt_get sub' k = bt_get sub1 k" if "k \<notin> set xs" for k
    using submit_loop_Ok[OF l assms(2) d(1)] that by blast
  have "bt_get sub (edge_from e) = bt_get sub' (edge_from e)" if "e \<in> set (parents_of fr j)" for e
  proof -
    have "edge_from e \<noteq> j" "edge_from e \<notin> set xs"
      using Cons.prems(3) that unfolding parents_done_def by (metis append_Nil list.set_intros)+
    then show ?thesis using same[of "edge_from e"] o by (simp add: bt_get_insert)
  qed
  then have "job_command cr r fr sub' j (sbatch_cmd (batch_bash r (flow_uuid fr) j) cfg dep)"
    using dep c Cons.prems(4) dependency_build_cong[of "parents_of fr j" sub sub' cr j]
    by (auto simp: job_command_def)
  moreover have "calls (world.more w1) = calls (world.more w) @ [sbatch_cmd (batch_bash r (flow_uuid fr) j) cfg dep]"
    using submit_calls[of "sbatch_cmd (batch_bash r (flow_uuid fr) j) cfg dep" "world.more w"] call by simp
  moreover have "bt_get sub' j = Some i" using same[OF d(2)] o by (simp add: bt_get_insert)
  ultimately show ?case
    using cmds call by (intro exI[of _ "sbatch_cmd (batch_bash r (flow_uuid fr) j) cfg dep # cmds"] exI[of _ "i # ids"]) simp
qed

end

subsection \<open>The parts of a submission\<close>

lemma preflight_configs:
  "act_foldM (preflight_one r fr) eff xs w = (Ok eff', w') \<Longrightarrow>
    \<forall>k cfg. bt_get eff k = Some cfg \<longrightarrow> effective_config fr k = Ok cfg \<Longrightarrow>
    bt_get eff' k = Some cfg \<Longrightarrow> effective_config fr k = Ok cfg"
proof (induction xs arbitrary: eff w)
  case Nil
  then show ?case by (simp add: io_simps)
next
  case (Cons j xs)
  then obtain eff1 w1 where s: "preflight_one r fr eff j w = (Ok eff1, w1)"
    and l: "act_foldM (preflight_one r fr) eff1 xs w1 = (Ok eff', w')"
    by (auto simp: io_simps)
  from s obtain cfg where "effective_config fr j = Ok cfg" "eff1 = bt_insert j cfg eff"
    by (auto simp: preflight_one_def io_simps split: list.splits prod.splits)
      (metis neq_Nil_conv surj_pair)
  then show ?case using Cons.IH[OF l] Cons.prems(2,3) by (auto simp: bt_get_insert)
qed

lemma submit_Ok_parts:
  assumes "submit ex cr r fr dry_run w = (Ok submitted, w')"
  obtains order w1 sub w2 eff w3 eff' where "run_order fr = Ok order"
    "write_snapshot cr r fr w = (Ok (), w1)" "preseed cr r fr w1 = (Ok sub, w2)"
    "(if dry_run then ret bt_empty else preflight r fr order) w2 = (Ok eff, w3)"
    "act_foldM (submit_one ex cr r fr dry_run) (sub, eff) order w3 = (Ok (submitted, eff'), w')"
  using assms by (auto simp: submit_def io_simps)

lemma submit_before_loop_more:
  assumes "write_snapshot cr r fr w = (a, w1)" and "preseed cr r fr w1 = (b, w2)"
    and "(if dry_run then ret bt_empty else preflight r fr order) w2 = (c, w3)"
  shows "world.more w3 = world.more w"
proof -
  have "world.more w3 = world.more w2"
    using assms(3) by (auto simp: io_simps split: if_splits intro: more_of[OF obeys_preflight[of UNIV]])
  then show ?thesis
    using more_of[OF obeys_snapshot[OF subset_UNIV] assms(1)] more_of[OF obeys_preseed[of UNIV] assms(2)]
    by simp
qed

text \<open>
  C3. A successful submission calls the executor exactly once per job, in topological order, with
  the job's batch script, its merged configuration, and the dependency built from the map of jobids
  that is returned. That map holds the executor's answers: running these commands one after another
  from the executor's state before gives the jobids, one for each job of the order, and its state
  after. So every parent is referred to by the jobid that this very submission gave it.
\<close>

theorem submit_commands:
  assumes "plain_name (uuid_str (flow_uuid fr))"
    and "submit (logged ex) cr r fr False w = (Ok submitted, w')"
  shows "\<exists>order cmds ids. run_order fr = Ok order \<and> snd (world.more w') = snd (world.more w) @ cmds
    \<and> run_commands ex cmds (fst (world.more w)) = (Ok ids, fst (world.more w'))
    \<and> list_all2 (\<lambda>j i. bt_get submitted j = Some i) order ids
    \<and> list_all2 (\<lambda>j cmd. \<exists>cfg dep. effective_config fr j = Ok cfg
        \<and> dependency_build cr (parents_of fr j) submitted j = Ok dep
        \<and> cmd = sbatch_cmd (batch_bash r (flow_uuid fr) j) cfg dep) order cmds"
proof -
  have u: "plain_uuid (flow_uuid fr)" using assms(1) by (simp add: plain_uuid_def)
  from assms(2) obtain order w1 sub w2 eff w3 eff' where o: "run_order fr = Ok order"
    and parts: "write_snapshot cr r fr w = (Ok (), w1)" "preseed cr r fr w1 = (Ok sub, w2)"
      "(if False then ret bt_empty else preflight r fr order) w2 = (Ok eff, w3)"
    and l: "act_foldM (submit_one (logged ex) cr r fr False) (sub, eff) order w3 = (Ok (submitted, eff'), w')"
    by (rule submit_Ok_parts)
  have "effective_config fr j = Ok cfg" if "bt_get eff j = Some cfg" for j cfg
    using preflight_configs[of r fr bt_empty order w2 eff w3 j cfg] parts(3) that
    by (simp add: preflight_def)
  then obtain cmds ids where "snd (world.more w') = snd (world.more w3) @ cmds"
    "run_commands (logged ex) cmds (world.more w3) = (Ok ids, world.more w')"
    "list_all2 (\<lambda>j i. bt_get submitted j = Some i) order ids"
    "list_all2 (job_command cr r fr submitted) order cmds"
    using wrapped.submit_loop_calls[OF l u run_order_sound(1)[OF o] parents_done_order[OF o]] by blast
  then show ?thesis
    using o submit_before_loop_more[OF parts] run_commands_logged unfolding job_command_def[abs_def] by fastforce
qed

subsection \<open>Frames of a whole submission\<close>

definition flow_area :: "PathResolver \<Rightarrow> Uuid \<Rightarrow> Path set" where
  \<comment> \<open>the flow's .jm directory with what is below it, and the directories above\<close>
  "flow_area r u = {q. path_starts_with q (jm_dir r u)} \<union> dirs_above (jm_dir r u)"

lemma path_above_cases:
  assumes "q \<in> dirs_above (d @ [c])"
  shows "q = d \<or> q \<in> dirs_above d"
  using assms
  by (auto simp: dirs_above_def path_starts_with_iff append_eq_append_conv2 Cons_eq_append_conv append_eq_Cons_conv)

lemma job_area_sub:
  assumes "plain_uuid u" and "plain_id j"
  shows "job_area r u j \<subseteq> flow_area r u"
proof -
  note paths = job_paths[OF assms, of r]
  have d: "job_dir r u j = jm_dir r u @ [Normal (jid j)]" using assms by (simp add: path_simps)
  have "dirs_above (batch_bash r u j) \<subseteq> flow_area r u"
  proof
    fix q
    assume "q \<in> dirs_above (batch_bash r u j)"
    then have "q = job_dir r u j \<or> q \<in> dirs_above (job_dir r u j)"
      unfolding paths(1) by (rule path_above_cases)
    then have "q = job_dir r u j \<or> q = jm_dir r u \<or> q \<in> dirs_above (jm_dir r u)"
      unfolding d using path_above_cases by blast
    then show "q \<in> flow_area r u" by (auto simp: flow_area_def d path_starts_with_iff)
  qed
  then show ?thesis by (auto simp: job_area_def flow_area_def d path_starts_with_iff)
qed

lemma snapshot_area:
  assumes u: "plain_uuid u"
  shows "write_set (flow_effective_toml r u) \<subseteq> flow_area r u"
proof -
  have e: "flow_effective_toml r u = jm_dir r u @ [Normal ''flow.effective.toml'']"
    using u by (simp add: path_simps)
  have "dirs_above (flow_effective_toml r u) \<subseteq> flow_area r u"
    unfolding e using path_above_cases by (fastforce simp: flow_area_def path_starts_with_iff)
  moreover have "temporaries (flow_effective_toml r u) \<subseteq> flow_area r u"
    by (auto simp: temporaries_def e with_extension_def flow_area_def path_starts_with_iff)
  ultimately show ?thesis by (auto simp: write_set_def flow_area_def e)
qed

lemma status_not_in_snapshot:
  assumes u: "plain_uuid u" and "plain_id j"
  shows "status_file r u j \<notin> write_set (flow_effective_toml r u)"
proof -
  have "length (status_file r u j) = Suc (length (flow_effective_toml r u))"
    using assms by (simp add: path_simps)
  moreover have "length q \<le> length (flow_effective_toml r u)" if "q \<in> write_set (flow_effective_toml r u)" for q
    using that u
    by (auto simp: write_set_def dirs_above_def temporaries_def with_extension_def path_simps)
  ultimately show ?thesis by fastforce
qed

lemma obeys_submit:
  assumes u: "plain_uuid (flow_uuid fr)"
  shows "obeys (files_only (flow_area r (flow_uuid fr))) (submit ex cr r fr dry_run)"
proof -
  let ?S = "flow_area r (flow_uuid fr)"
  have "obeys (files_only ?S) (act_foldM (submit_one ex cr r fr dry_run) st order)" for st order
    by (intro files.obeys_foldM obeys_submit_one[OF u]) (rule job_area_sub[OF u])
  then show ?thesis
    unfolding submit_def
    by (intro files.obeys_bind files.obeys_lift files.obeys_ret files.obeys_if
        obeys_files[OF obeys_snapshot[OF snapshot_area[OF u]] subset_refl]
        obeys_files[OF obeys_preseed subset_refl] obeys_files[OF obeys_preflight subset_refl])
qed

lemma submit_clock: "plain_uuid (flow_uuid fr) \<Longrightarrow> submit ex cr r fr dry_run w = (x, w') \<Longrightarrow> w_clock w' = w_clock w"
  by (drule (1) obeysD[OF obeys_submit]) (simp add: files_only_def same_host_def)

lemma submit_recorded:
  assumes u: "plain_uuid (flow_uuid fr)" and "submit ex cr r fr False w = (Ok submitted, w')"
    and j: "j \<in> set (bt_keys (jobs (run_flow fr)))"
  shows "plain_id j \<and> (\<exists>i. bt_get submitted j = Some i \<and> recorded cr r fr j i w')"
proof -
  from assms(2) obtain order w3 sub eff eff' where o: "run_order fr = Ok order"
    and l: "act_foldM (submit_one ex cr r fr False) (sub, eff) order w3 = (Ok (submitted, eff'), w')"
    by (rule submit_Ok_parts)
  have "j \<in> set order" using run_order_sound(2)[OF o] j by simp
  then show ?thesis using submit_loop_Ok[OF l u run_order_sound(1)[OF o]] by blast
qed

text \<open>
  After a successful submission every job of the flow has a jobid in the returned map, and
  its status file records it as queued under that jobid since some reading of the clock, whatever
  the file said before: a resubmission also replaces a terminal status.
\<close>

theorem submit_statuses:
  assumes "plain_name (uuid_str (flow_uuid fr))"
    and "submit ex cr r fr False w = (Ok submitted, w')"
    and "j \<in> set (bt_keys (jobs (run_flow fr)))"
  shows "\<exists>i n text. bt_get submitted j = Some i
    \<and> toml_ser_run cr \<lparr>lifecycle = Queued, updated_at = w_clock w n, slurm_jobid = Some i, slurm_status = None,
         run_note = None\<rparr> = Ok text
    \<and> node_at (status_file r (flow_uuid fr) j) w' = Some (File text)"
  using submit_recorded[OF _ assms(2,3)] assms(1)
  by (auto simp: plain_uuid_def recorded_def queued_at_def submit_clock[OF _ assms(2)])

text \<open>
  Whatever happens, errors and faults included, a submission only touches the flow's own
  .jm directory and the directories above it: the user's flow, plan and common files, other flows
  and everything else keep their content.
\<close>

theorem submit_frame:
  assumes "plain_name (uuid_str (flow_uuid fr))"
    and "submit ex cr r fr dry_run w = (result, w')"
    and "\<not> path_starts_with p (jm_dir r (flow_uuid fr))"
    and "\<not> path_starts_with (jm_dir r (flow_uuid fr)) p"
  shows "node_at p w' = node_at p w"
proof -
  have u: "plain_uuid (flow_uuid fr)" using assms(1) by (simp add: plain_uuid_def)
  have "p \<notin> flow_area r (flow_uuid fr)" using assms(3,4) by (simp add: flow_area_def dirs_above_def)
  then show ?thesis using obeysD[OF obeys_submit[OF u] assms(2)] by (simp add: files_only_def)
qed

subsection \<open>Dry runs\<close>

definition dry_area :: "PathResolver \<Rightarrow> Uuid \<Rightarrow> Path set" where
  "dry_area r u = write_set (flow_effective_toml r u)
     \<union> (\<Union>j\<in>{j. plain_id j}. job_area r u j - {status_file r u j})"

lemma status_not_in_dry_area:
  "plain_uuid u \<Longrightarrow> plain_id j \<Longrightarrow> status_file r u j \<notin> dry_area r u"
  using status_not_in_snapshot status_not_in_area by (fastforce simp: dry_area_def)

lemma obeys_submit_dry:
  assumes u: "plain_uuid (flow_uuid fr)"
  shows "obeys (changes_only (dry_area r (flow_uuid fr))) (submit ex cr r fr True)"
proof -
  let ?S = "dry_area r (flow_uuid fr)"
  have "obeys (changes_only ?S) (submit_one ex cr r fr True st j)" for st j
    unfolding submit_one_def if_P[OF TrueI]
    by (cases st, simp only: prod.case)
      (intro frame.obeys_bind frame.obeys_ret obeys_render_job[OF u],
        use parsed_plain in \<open>auto simp: dry_area_def\<close>)
  moreover have "write_set (flow_effective_toml r (flow_uuid fr)) \<subseteq> ?S" by (simp add: dry_area_def)
  ultimately show ?thesis
    unfolding submit_def if_P[OF TrueI]
    by (intro frame.obeys_bind frame.obeys_lift frame.obeys_ret frame.obeys_foldM obeys_snapshot inv_intros)
qed

text \<open>
  C19. A dry run never calls the executor and never touches a status file, whatever its result
  and whatever faults occur.
\<close>

theorem dry_run_inert:
  assumes "plain_name (uuid_str (flow_uuid fr))"
    and "submit ex cr r fr True w = (result, w')"
  shows "world.more w' = world.more w
    \<and> (\<forall>j pj. parse_job_id cr (jid j) = Ok pj \<longrightarrow>
         node_at (status_file r (flow_uuid fr) j) w' = node_at (status_file r (flow_uuid fr) j) w)"
proof -
  have u: "plain_uuid (flow_uuid fr)" using assms(1) by (simp add: plain_uuid_def)
  show ?thesis
    using obeysD[OF obeys_submit_dry[OF u] assms(2)] status_not_in_dry_area[OF u] parsed_plain
    by (auto simp: changes_only_def)
qed

subsection \<open>The preflight comes before the first call\<close>

lemma path_exists_missing: "path_exists p w = (Ok b, w1) \<Longrightarrow> node_at p w = None \<Longrightarrow> \<not> b"
  by (auto simp: path_exists_def metadata_def syscall_def split: option.splits)

lemma same_nodes: "obeys (changes_only {}) m \<Longrightarrow> m w = (x, w') \<Longrightarrow> node_at p w' = node_at p w"
  by (drule (1) obeysD) (simp add: changes_only_def)

lemma missing_log_dirs_reports:
  fixes w :: "'x world_scheme"
  assumes "missing_log_dirs root cfg w = (Ok out :: JobManagerError + _, w')" and "node_at d w = None"
    and "Some val \<in> {log_stdout cfg, log_stderr cfg}" and "resolve_log_dir root val = Some d"
  shows "out \<noteq> []"
proof -
  let ?f = "\<lambda>out (field, val). case Option.bind val (resolve_log_dir root) of
      None \<Rightarrow> (ret out :: ('x, (string \<times> Path) list) io)
    | Some resolved \<Rightarrow> act_bind (path_exists resolved) (\<lambda>ex. ret (if ex then out else out @ [(field, resolved)]))"
  have grows: "o1 \<noteq> []" if "?f o0 fv v = (Ok o1, v1)" "o0 \<noteq> []" for o0 fv v v1 and o1 :: "(string \<times> Path) list"
    using that by (auto simp: io_simps split: option.splits prod.splits if_splits)
  have hits: "o1 \<noteq> []" if "?f o0 (f, Some val) v = (Ok o1, v1)" "node_at d v = None" for o0 f v v1 and o1 :: "(string \<times> Path) list"
    using that assms(4) by (auto simp: io_simps dest: path_exists_missing)
  obtain o1 w1 where 1: "?f [] (''log_stdout'', log_stdout cfg) w = (Ok o1, w1)"
    and 2: "?f o1 (''log_stderr'', log_stderr cfg) w1 = (Ok out, w')"
    using assms(1) by (auto simp: missing_log_dirs_def act_bind_Ok ret_eq)
  have "obeys (changes_only {}) (?f [] (''log_stdout'', log_stdout cfg))"
    by (auto split: option.split intro!: frame.obeys_ret frame.obeys_bind inv_intros)
  from same_nodes[where m = "?f [] (''log_stdout'', log_stdout cfg)", OF this 1]
  have n: "node_at d w1 = None" using assms(2) by simp
  show ?thesis
  proof (cases "log_stdout cfg = Some val")
    case True
    then have "o1 \<noteq> []" using hits[of "[]" "''log_stdout''" w o1 w1] 1 assms(2) by simp
    then show ?thesis by (rule grows[OF 2])
  next
    case False
    then have "log_stderr cfg = Some val" using assms(3) by auto
    then show ?thesis using hits[of o1 "''log_stderr''" w1 out w'] 2 n by simp
  qed
qed

lemma preflight_blocks:
  assumes "act_foldM (preflight_one r fr) eff xs w = (x, w')" and "j \<in> set xs"
    and "effective_config fr j = Ok cfg" and "Some val \<in> {log_stdout cfg, log_stderr cfg}"
    and "resolve_log_dir (res_root r) val = Some d" and "node_at d w = None"
  shows "is_err x"
  using assms(1,2,6)
proof (induction xs arbitrary: eff w)
  case Nil
  then show ?case by simp
next
  case (Cons k xs)
  show ?case
  proof (cases "preflight_one r fr eff k w")
    case (Pair y w1)
    show ?thesis
    proof (cases y)
      case (Inl e)
      then show ?thesis using Cons.prems Pair by (auto simp: act_bind_def)
    next
      case (Inr eff1)
      then have s: "preflight_one r fr eff k w = (Ok eff1, w1)" using Pair by simp
      have l: "act_foldM (preflight_one r fr) eff1 xs w1 = (x, w')"
        using Cons.prems(1) s by (simp add: act_bind_def)
      obtain cfg' w2 where c: "effective_config fr k = Ok cfg'"
        and m: "missing_log_dirs (res_root r) cfg' w = (Ok [] :: JobManagerError + _, w1)"
        using s by (auto simp: preflight_one_def io_simps split: list.splits prod.splits)
          (metis neq_Nil_conv surj_pair)
      have "k \<noteq> j" using missing_log_dirs_reports[OF m Cons.prems(3), of val] assms(3-5) c by auto
      moreover have "node_at d w1 = None"
        using same_nodes[OF obeys_missing_log_dirs m] Cons.prems(3) by simp
      ultimately show ?thesis using Cons.IH[OF l] Cons.prems(2) by simp
    qed
  qed
qed

text \<open>
  C7. The log directories of all jobs are checked before the first submission: if some job's
  merged configuration names a log directory that does not exist (and that the snapshot does not
  create), a real submission fails, under any faults, without calling the executor and without
  touching any file but the snapshot.
\<close>

theorem preflight_before_calls:
  assumes "j \<in> set (bt_keys (jobs (run_flow fr)))" and "effective_config fr j = Ok cfg"
    and "Some val \<in> {log_stdout cfg, log_stderr cfg}"
    and "resolve_log_dir (res_root r) val = Some d" and "node_at d w = None"
    and "d \<notin> write_set (flow_effective_toml r (flow_uuid fr))"
    and "submit ex cr r fr False w = (result, w')"
  shows "is_err result \<and> world.more w' = world.more w
    \<and> (\<forall>p. p \<notin> write_set (flow_effective_toml r (flow_uuid fr)) \<longrightarrow> node_at p w' = node_at p w)"
proof -
  let ?S = "write_set (flow_effective_toml r (flow_uuid fr))"
  have snap: "obeys (changes_only ?S) (write_snapshot cr r fr)" by (rule obeys_snapshot) simp
  let ?pre = "act_bind (act_lift (run_order fr)) (\<lambda>order. act_bind (write_snapshot cr r fr) (\<lambda>_.
      act_bind (preseed cr r fr) (\<lambda>sub. act_bind (preflight r fr order) (\<lambda>eff. ret (order, sub, eff)))))"
  have obeys_pre: "obeys (changes_only ?S) ?pre"
    by (intro frame.obeys_bind frame.obeys_lift frame.obeys_ret snap inv_intros)
  have sub: "submit ex cr r fr False = act_bind ?pre (\<lambda>(order, sub, eff).
      act_bind (act_foldM (submit_one ex cr r fr False) (sub, eff) order) (\<lambda>st. ret (fst st)))"
    by (rule ext) (simp add: submit_def act_bind_def split: prod.split sum.split)
  have no: "\<not> (\<exists>y w1. ?pre w = (Ok y, w1))"
  proof
    assume "\<exists>y w1. ?pre w = (Ok y, w1)"
    then obtain order w1 sub w2 eff w3 where o: "run_order fr = Ok order"
      and a: "write_snapshot cr r fr w = (Ok (), w1)" and b: "preseed cr r fr w1 = (Ok sub, w2)"
      and c: "preflight r fr order w2 = (Ok eff, w3)"
      by (auto simp: io_simps)
    have "node_at d w1 = None" using obeysD[OF snap a] assms(5,6) by (simp add: changes_only_def)
    then have "node_at d w2 = None" using same_nodes[OF obeys_preseed b] by simp
    moreover have "j \<in> set order" using run_order_sound(2)[OF o] assms(1) by simp
    ultimately show False
      using preflight_blocks[OF c[unfolded preflight_def], of j cfg val d] assms(2-4) by simp
  qed
  obtain x w1 where p: "?pre w = (x, w1)" by fastforce
  then obtain e where x: "x = Err e" using no by (cases x) auto
  then have "result = Err e" "w' = w1" using assms(7) p unfolding sub by (auto simp: act_bind_def)
  then show ?thesis using obeysD[OF obeys_pre p] by (simp add: changes_only_def)
qed

end
