(* ===== verification/Tick.thy ===== *)
theory Tick
  imports FlowRun Transition Submit
begin

section \<open>Ticking a flow (runner/flow.rs)\<close>

text \<open>
  \<open>tick\<close> reads the status files, asks the querier about the jobs that are not terminal, and
  walks the jobs in topological order, deciding each from its own lifecycle, its SLURM status and
  the lifecycles its parents have by then, and rewriting the status file when something changed.
  The querier is called at most once and is a function argument. The specification is the
  equation \<open>settled\<close>: the lifecycles after the tick are the decisions taken on the parents'
  lifecycles after the tick.
\<close>

definition tick_collect_one ::
  "crates \<Rightarrow> PathResolver \<Rightarrow> FlowRun \<Rightarrow> (JobId, JobRun) btree \<Rightarrow> JobId \<Rightarrow> ('x, (JobId, JobRun) btree) io" where
  "tick_collect_one cr r fr current j =
     (let path = status_file r (flow_uuid fr) j
      in act_bind (path_exists path) (\<lambda>ex.
         if ex then act_bind (read_job_run cr path) (\<lambda>run. ret (bt_insert j run current))
         else ret current))"

definition tick_collect ::
  "crates \<Rightarrow> PathResolver \<Rightarrow> FlowRun \<Rightarrow> JobId list \<Rightarrow> ('x, (JobId, JobRun) btree) io" where
  "tick_collect cr r fr order = act_foldM (tick_collect_one cr r fr) bt_empty order"

definition jobids_to_query :: "(JobId, JobRun) btree \<Rightarrow> u64 list" where
  "jobids_to_query current =
     List.map_filter slurm_jobid (filter (\<lambda>run. \<not> is_terminal (lifecycle run)) (bt_values current))"

definition query_slurm :: "querier \<Rightarrow> u64 list \<Rightarrow> JobManagerError + (u64 \<rightharpoonup> JobStatus)" where
  "query_slurm q ids = (if ids = [] then Ok Map.empty else q ids)"

definition parent_lifecycles :: "(JobId, JobRun) btree \<Rightarrow> JobEdge list \<Rightarrow> (JobId \<times> Lifecycle) list" where
  "parent_lifecycles current ps =
     List.map_filter (\<lambda>e. map_option (\<lambda>run. (edge_from e, lifecycle run)) (bt_get current (edge_from e))) ps"

definition decision_status :: "Decision \<Rightarrow> JobStatus option" where
  "decision_status d = (case d of Transition _ _ st \<Rightarrow> st | _ \<Rightarrow> None)"

definition updated_run :: "JobRun \<Rightarrow> Decision \<Rightarrow> DateTime \<Rightarrow> JobRun" where
  "updated_run run d now =
     \<lparr>lifecycle = apply_decision (lifecycle run) d, updated_at = now, slurm_jobid = slurm_jobid run,
      slurm_status = decision_status d, run_note = run_note run\<rparr>"

type_synonym tick_state = "(JobId, JobRun) btree \<times> (JobId, Decision) btree"

definition tick_decide ::
  "FlowRun \<Rightarrow> (u64 \<rightharpoonup> JobStatus) \<Rightarrow> (JobId, JobRun) btree \<Rightarrow> JobId \<Rightarrow> JobRun \<Rightarrow> Decision" where
  "tick_decide fr statuses current j run =
     decide_transition (lifecycle run) (Option.bind (slurm_jobid run) statuses)
       (parent_lifecycles current (parents_of fr j))"

definition tick_one ::
  "crates \<Rightarrow> PathResolver \<Rightarrow> FlowRun \<Rightarrow> (u64 \<rightharpoonup> JobStatus) \<Rightarrow> tick_state \<Rightarrow> JobId \<Rightarrow> ('x, tick_state) io" where
  "tick_one cr r fr statuses st j =
     (case st of (current, decided) \<Rightarrow>
        (case bt_get current j of
           None \<Rightarrow> ret (current, decided)
         | Some run \<Rightarrow>
             if is_terminal (lifecycle run) then ret (current, decided)
             else (let d = tick_decide fr statuses current j run
                   in if d = NoChange then ret (current, bt_insert j d decided)
                      else act_bind clock_now (\<lambda>now.
                           let updated = updated_run run d now
                           in act_bind (write_job_run cr (status_file r (flow_uuid fr) j) updated) (\<lambda>_.
                              ret (bt_insert j updated current, bt_insert j d decided))))))"

definition tick :: "querier \<Rightarrow> crates \<Rightarrow> PathResolver \<Rightarrow> FlowRun \<Rightarrow> ('x, TickResult) io" where
  "tick q cr r fr =
     act_bind (act_lift (run_order fr)) (\<lambda>order.
     act_bind (tick_collect cr r fr order) (\<lambda>current.
     act_bind (act_lift (query_slurm q (jobids_to_query current))) (\<lambda>statuses.
     act_bind (act_foldM (tick_one cr r fr statuses) (current, bt_empty) order) (\<lambda>st.
     ret \<lparr>transitions = snd st\<rparr>))))"

subsection \<open>What a tick touches\<close>

lemma obeys_collect_one [inv_intros]: "obeys (changes_only S) (tick_collect_one cr r fr cur j)"
  unfolding tick_collect_one_def Let_def
  by (intro frame.obeys_bind frame.obeys_if frame.obeys_ret inv_intros)

lemma obeys_collect [inv_intros]: "obeys (changes_only S) (tick_collect cr r fr order)"
  unfolding tick_collect_def by (intro frame.obeys_foldM inv_intros)

lemma obeys_tick_one:
  assumes "\<And>run. bt_get (fst st) j = Some run \<Longrightarrow> \<not> is_terminal (lifecycle run) \<Longrightarrow>
    write_set (status_file r (flow_uuid fr) j) \<subseteq> S"
  shows "obeys (changes_only S) (tick_one cr r fr statuses st j)"
  unfolding tick_one_def
  using assms
  by (auto split: prod.split option.split simp: Let_def
      intro!: frame.obeys_ret frame.obeys_bind obeys_clock_now obeys_writers(3))

definition status_area :: "PathResolver \<Rightarrow> Uuid \<Rightarrow> JobId set \<Rightarrow> Path set" where
  "status_area r u js = (\<Union>j\<in>js. write_set (status_file r u j))"

lemma obeys_tick:
  "obeys (changes_only (status_area r (flow_uuid fr) (set (bt_keys (jobs (run_flow fr))))))
    (tick q cr r fr)"
  unfolding tick_def
proof (rule frame.obeys_bind_res[OF frame.obeys_lift])
  fix w order w1
  assume "act_lift (run_order fr) w = (Ok order, w1)"
  then have o: "run_order fr = Ok order" by (simp add: io_simps)
  have "set order = set (bt_keys (jobs (run_flow fr)))" by (rule run_order_sound(2)[OF o])
  then have "obeys (changes_only (status_area r (flow_uuid fr) (set (bt_keys (jobs (run_flow fr))))))
      (act_foldM (tick_one cr r fr statuses) st order)" for statuses st
    by (intro frame.obeys_foldM obeys_tick_one) (auto simp: status_area_def)
  then show "obeys (changes_only (status_area r (flow_uuid fr) (set (bt_keys (jobs (run_flow fr))))))
     (act_bind (tick_collect cr r fr order) (\<lambda>current.
      act_bind (act_lift (query_slurm q (jobids_to_query current))) (\<lambda>statuses.
      act_bind (act_foldM (tick_one cr r fr statuses) (current, bt_empty) order) (\<lambda>st.
      ret \<lparr>transitions = snd st\<rparr>))))"
    by (intro frame.obeys_bind frame.obeys_lift frame.obeys_ret inv_intros)
qed

lemma status_area_disjoint:
  assumes "plain_uuid u" and "plain_id j" and "\<And>k. k \<in> js \<Longrightarrow> plain_id k" and "j \<notin> js"
  shows "status_file r u j \<notin> status_area r u js"
proof -
  have "status_file r u j \<notin> write_set (status_file r u k)" if "k \<in> js" for k
  proof -
    have "j \<noteq> k" using that assms(4) by blast
    from status_not_in_area[OF assms(1,2) assms(3)[OF that] this, of r]
    show ?thesis using write_set_status[OF assms(1) assms(3)[OF that], of r] by blast
  qed
  then show ?thesis by (simp add: status_area_def)
qed

subsection \<open>What a status file says\<close>

definition status_at :: "crates \<Rightarrow> PathResolver \<Rightarrow> Uuid \<Rightarrow> 'x world_scheme \<Rightarrow> JobId \<Rightarrow> JobRun option" where
  "status_at cr r u w j =
     (case node_at (status_file r u j) w of
        Some (File s) \<Rightarrow> (case toml_de_run cr s of Ok run \<Rightarrow> Some run | Err _ \<Rightarrow> None)
      | _ \<Rightarrow> None)"

definition life_at :: "crates \<Rightarrow> PathResolver \<Rightarrow> Uuid \<Rightarrow> 'x world_scheme \<Rightarrow> JobId \<Rightarrow> Lifecycle option" where
  "life_at cr r u w j = map_option lifecycle (status_at cr r u w j)"

definition restores :: "crates \<Rightarrow> bool" where
  \<comment> \<open>the TOML crate reads back what it wrote for a status\<close>
  "restores cr \<longleftrightarrow> (\<forall>run t. toml_ser_run cr run = Ok t \<longrightarrow> toml_de_run cr t = Ok run)"

lemma status_at_same:
  "node_at (status_file r u j) w' = node_at (status_file r u j) w \<Longrightarrow>
    status_at cr r u w' j = status_at cr r u w j"
  by (simp add: status_at_def)

lemma status_at_written:
  "restores cr \<Longrightarrow> toml_ser_run cr run = Ok t \<Longrightarrow> node_at (status_file r u j) w = Some (File t) \<Longrightarrow>
    status_at cr r u w j = Some run"
  by (simp add: status_at_def restores_def)

lemma read_job_run_status:
  "read_job_run cr (status_file r u j) w = (Ok run, w') \<Longrightarrow> status_at cr r u w j = Some run"
  by (auto simp: read_job_run_def status_at_def dest!: read_toml_Ok)

subsection \<open>Collecting\<close>

lemma collect_fold:
  "act_foldM (tick_collect_one cr r fr) cur xs w = (Ok cur', w') \<Longrightarrow>
    (\<forall>j. j \<notin> set xs \<longrightarrow> bt_get cur' j = bt_get cur j)
    \<and> (\<forall>j\<in>set xs. \<forall>run. bt_get cur' j = Some run \<longrightarrow>
         bt_get cur j = Some run \<or> status_at cr r (flow_uuid fr) w j = Some run)"
proof (induction xs arbitrary: cur w)
  case Nil
  then show ?case by (simp add: io_simps)
next
  case (Cons j xs)
  from Cons.prems obtain cur1 w1 where s: "tick_collect_one cr r fr cur j w = (Ok cur1, w1)"
    and l: "act_foldM (tick_collect_one cr r fr) cur1 xs w1 = (Ok cur', w')"
    by (auto simp: io_simps)
  have same: "status_at cr r (flow_uuid fr) w1 k = status_at cr r (flow_uuid fr) w k" for k
    by (intro status_at_same same_nodes[OF obeys_collect_one s])
  have c1: "cur1 = cur \<or> (\<exists>run. cur1 = bt_insert j run cur \<and> status_at cr r (flow_uuid fr) w j = Some run)"
  proof -
    from s obtain ex w2 where p: "path_exists (status_file r (flow_uuid fr) j) w = (Ok ex :: JobManagerError + _, w2)"
      and rest: "(if ex then act_bind (read_job_run cr (status_file r (flow_uuid fr) j))
          (\<lambda>run. ret (bt_insert j run cur)) else ret cur) w2 = (Ok cur1, w1)"
      by (auto simp: tick_collect_one_def io_simps Let_def)
    have "status_at cr r (flow_uuid fr) w2 j = status_at cr r (flow_uuid fr) w j"
      by (intro status_at_same same_nodes[OF obeys_path_exists p])
    then have known: "status_at cr r (flow_uuid fr) w j = Some run"
      if "read_job_run cr (status_file r (flow_uuid fr) j) w2 = (Ok run, v)" for run v
      using read_job_run_status[OF that] by simp
    show ?thesis using rest by (cases ex) (auto simp: io_simps intro: known)
  qed
  have c2: "bt_get cur1 k = bt_get cur k \<or> k = j \<and> bt_get cur1 k = status_at cr r (flow_uuid fr) w k" for k
    using c1 by (cases "k = j") (auto simp: bt_get_insert)
  have IH: "\<And>k. k \<notin> set xs \<Longrightarrow> bt_get cur' k = bt_get cur1 k"
    "\<And>k run. k \<in> set xs \<Longrightarrow> bt_get cur' k = Some run \<Longrightarrow>
      bt_get cur1 k = Some run \<or> status_at cr r (flow_uuid fr) w k = Some run"
    using Cons.IH[OF l] same by auto
  have "bt_get cur k = Some run \<or> status_at cr r (flow_uuid fr) w k = Some run"
    if "bt_get cur' k = Some run" "k = j \<or> k \<in> set xs" for k run
    using that IH[of k] c2[of k] by (cases "k \<in> set xs") auto
  moreover have "bt_get cur' k = bt_get cur k" if "k \<noteq> j" "k \<notin> set xs" for k
    using that IH(1) c2[of k] by auto
  ultimately show ?case by auto
qed

lemma collect_sound:
  assumes "tick_collect cr r fr xs w = (Ok cur, w')" and "bt_get cur j = Some run"
  shows "j \<in> set xs \<and> status_at cr r (flow_uuid fr) w j = Some run"
  using collect_fold[OF assms(1)[unfolded tick_collect_def]] assms(2)
  by (cases "j \<in> set xs") auto

lemma collect_complete:
  assumes "no_faults w" and "tick_collect cr r fr xs w = (Ok cur, w')" and "j \<in> set xs"
  shows "bt_get cur j = status_at cr r (flow_uuid fr) w j"
proof -
  have "bt_get cur' j = None \<longrightarrow> node_at (status_file r (flow_uuid fr) j) w = None"
    if "act_foldM (tick_collect_one cr r fr) cur0 xs w = (Ok cur', w')" "no_faults w" "j \<in> set xs" for cur0 cur'
    using that
  proof (induction xs arbitrary: cur0 w)
    case (Cons k xs)
    from Cons.prems obtain cur1 w1 where s: "tick_collect_one cr r fr cur0 k w = (Ok cur1, w1)"
      and l: "act_foldM (tick_collect_one cr r fr) cur1 xs w1 = (Ok cur', w')"
      by (auto simp: io_simps)
    have nf: "no_faults w1"
      using obeysD[OF obeys_collect_one[of UNIV] s] Cons.prems(2)
      by (simp add: changes_only_def same_host_def no_faults_def)
    have same: "node_at p w1 = node_at p w" for p by (rule same_nodes[OF obeys_collect_one s])
    show ?case
    proof (cases "j \<in> set xs")
      case True
      then show ?thesis using Cons.IH[OF l nf] same by simp
    next
      case False
      then have "bt_get cur' j = bt_get cur1 j" "k = j" using collect_fold[OF l] Cons.prems(3) by auto
      then show ?thesis
        using s Cons.prems(2)
        by (auto simp: tick_collect_one_def Let_def act_bind_def path_exists_run io_simps
            split: if_splits sum.splits prod.splits)
    qed
  qed simp
  from this[OF assms(2)[unfolded tick_collect_def] assms(1,3)]
  show ?thesis
    using collect_sound[OF assms(2), of j] by (cases "bt_get cur j") (auto simp: status_at_def)
qed

subsection \<open>One round\<close>

definition tracked :: "crates \<Rightarrow> PathResolver \<Rightarrow> Uuid \<Rightarrow> (JobId, JobRun) btree \<Rightarrow> JobId \<Rightarrow> 'x world_scheme \<Rightarrow> bool" where
  \<comment> \<open>the cached run of the job, if any, is what its status file says\<close>
  "tracked cr r u cur j w \<longleftrightarrow> (\<forall>run. bt_get cur j = Some run \<longrightarrow> status_at cr r u w j = Some run)"

definition moved :: "JobRun \<Rightarrow> JobRun \<Rightarrow> bool" where
  "moved run run' \<longleftrightarrow> life_step (lifecycle run) (lifecycle run')
     \<and> slurm_jobid run' = slurm_jobid run \<and> run_note run' = run_note run"

lemma decision_moves:
  assumes "tick_decide fr statuses cur j run \<noteq> NoChange"
  shows "moved run (updated_run run (tick_decide fr statuses cur j run) now)"
proof -
  have "apply_decision (lifecycle run) (tick_decide fr statuses cur j run) \<noteq> lifecycle run"
    using assms apply_NoChange_iff unfolding tick_decide_def by blast
  then have "life_step (lifecycle run) (apply_decision (lifecycle run) (tick_decide fr statuses cur j run))"
    using decide_is_step unfolding tick_decide_def by blast
  then show ?thesis by (simp add: moved_def updated_run_def)
qed

lemma write_status_any:
  assumes "write_job_run cr (status_file r u j) run w = (res, w')"
    and "restores cr" and "plain_uuid u" and "plain_id j"
  shows "status_at cr r u w' j = (if is_ok res then Some run else status_at cr r u w j)"
proof -
  have fn: "file_name (status_file r u j) \<noteq> None" using job_paths[OF assms(3,4), of r] by simp
  show ?thesis
  proof (cases res)
    case (Inl e)
    then have "node_at (status_file r u j) w' = node_at (status_file r u j) w"
      using write_toml_Err[OF _ fn] assms(1) unfolding write_job_run_def by blast
    from status_at_same[OF this] show ?thesis using Inl by simp
  next
    case (Inr x)
    then obtain s where "toml_ser_run cr run = Ok s" "node_at (status_file r u j) w' = Some (File s)"
      using write_toml_Ok[OF _ fn] assms(1) unfolding write_job_run_def by (cases x) blast
    then show ?thesis using Inr status_at_written[OF assms(2)] by simp
  qed
qed

lemma tick_one_writes:
  \<comment> \<open>a round leaves the job's status alone or writes the decided run, whatever fails\<close>
  assumes t: "tick_one cr r fr statuses (cur, decided) j w = (res, w')"
    and h: "restores cr" "plain_uuid (flow_uuid fr)" "plain_id j"
  shows "status_at cr r (flow_uuid fr) w' j = status_at cr r (flow_uuid fr) w j
    \<or> (\<exists>run now. bt_get cur j = Some run \<and> \<not> is_terminal (lifecycle run)
         \<and> tick_decide fr statuses cur j run \<noteq> NoChange
         \<and> status_at cr r (flow_uuid fr) w' j = Some (updated_run run (tick_decide fr statuses cur j run) now))"
proof (cases "w' = w")
  case False
  let ?u = "flow_uuid fr"
  from t False obtain run where run: "bt_get cur j = Some run"
    by (cases "bt_get cur j") (simp_all add: tick_one_def)
  have nt: "\<not> is_terminal (lifecycle run)"
    using t False run by (cases "is_terminal (lifecycle run)") (simp_all add: tick_one_def)
  have nc: "tick_decide fr statuses cur j run \<noteq> NoChange"
  proof
    assume "tick_decide fr statuses cur j run = NoChange"
    then show False using t False run nt by (simp add: tick_one_def)
  qed
  obtain now w1 where c: "clock_now w = (Ok now :: JobManagerError + _, w1)"
    by (simp add: clock_now_eq)
  let ?upd = "updated_run run (tick_decide fr statuses cur j run) now"
  obtain x w2 where wr: "write_job_run cr (status_file r ?u j) ?upd w1 = (x, w2)" by fastforce
  have "snd (tick_one cr r fr statuses (cur, decided) j w) = w2"
    using run nt nc c wr by (cases x) (simp_all add: tick_one_def Let_def act_bind_def)
  then have "w' = w2" using t by simp
  moreover have "status_at cr r ?u w1 j = status_at cr r ?u w j"
    by (intro status_at_same same_nodes[OF obeys_clock_now c])
  ultimately have "status_at cr r ?u w' j = (if is_ok x then Some ?upd else status_at cr r ?u w j)"
    using write_status_any[OF wr h] by simp
  then show ?thesis using run nt nc by (auto split: if_splits)
qed simp

lemma tick_one_any:
  assumes t: "tick_one cr r fr statuses (cur, decided) j w = (res, w')"
    and h: "restores cr" "plain_uuid (flow_uuid fr)" "plain_id j"
    and sy: "tracked cr r (flow_uuid fr) cur j w"
  shows "status_at cr r (flow_uuid fr) w' j = status_at cr r (flow_uuid fr) w j
    \<or> (\<exists>run run'. status_at cr r (flow_uuid fr) w j = Some run
         \<and> status_at cr r (flow_uuid fr) w' j = Some run' \<and> moved run run')"
  using tick_one_writes[OF t h] decision_moves sy by (auto simp: tracked_def)

lemma tick_one_other:
  assumes "tick_one cr r fr statuses st k w = (res, w')"
    and "plain_uuid (flow_uuid fr)" and "plain_id j" and "plain_id k" and "j \<noteq> k"
  shows "status_at cr r (flow_uuid fr) w' j = status_at cr r (flow_uuid fr) w j"
proof -
  have "obeys (changes_only (status_area r (flow_uuid fr) {k})) (tick_one cr r fr statuses st k)"
    by (rule obeys_tick_one) (simp add: status_area_def)
  from obeysD[OF this assms(1)] status_area_disjoint[OF assms(2,3), of "{k}" r] assms(4,5)
  show ?thesis by (intro status_at_same) (simp add: changes_only_def)
qed

lemma tick_loop_other:
  assumes "act_foldM (tick_one cr r fr statuses) st xs w = (res, w')"
    and "plain_uuid (flow_uuid fr)" and "plain_id j" and "\<And>k. k \<in> set xs \<Longrightarrow> plain_id k" and "j \<notin> set xs"
  shows "status_at cr r (flow_uuid fr) w' j = status_at cr r (flow_uuid fr) w j"
proof -
  have "obeys (changes_only (status_area r (flow_uuid fr) (set xs))) (act_foldM (tick_one cr r fr statuses) st xs)"
    by (intro frame.obeys_foldM obeys_tick_one) (auto simp: status_area_def)
  from obeysD[OF this assms(1)] status_area_disjoint[OF assms(2,3), of "set xs" r] assms(4,5)
  show ?thesis by (intro status_at_same) (simp add: changes_only_def)
qed

lemma tracked_other:
  assumes "tick_one cr r fr statuses (cur, decided) k w = (Ok (cur1, decided1), w')"
    and "plain_uuid (flow_uuid fr)" and "plain_id j" and "plain_id k" and "j \<noteq> k"
    and "tracked cr r (flow_uuid fr) cur j w"
  shows "tracked cr r (flow_uuid fr) cur1 j w'"
proof -
  have "bt_get cur1 j = bt_get cur j"
    using assms(1,5) by (auto simp: tick_one_def Let_def io_simps bt_get_insert split: option.splits if_splits)
  then show ?thesis using tick_one_other[OF assms(1-5)] assms(6) by (simp add: tracked_def)
qed

lemma tick_loop_any:
  assumes "act_foldM (tick_one cr r fr statuses) (cur, decided) xs w = (res, w')"
    and h: "restores cr" "plain_uuid (flow_uuid fr)" and pl: "\<And>k. k \<in> set xs \<Longrightarrow> plain_id k"
    and "distinct xs" and "\<And>k. k \<in> set xs \<Longrightarrow> tracked cr r (flow_uuid fr) cur k w" and "j \<in> set xs"
  shows "status_at cr r (flow_uuid fr) w' j = status_at cr r (flow_uuid fr) w j
    \<or> (\<exists>run run'. status_at cr r (flow_uuid fr) w j = Some run
         \<and> status_at cr r (flow_uuid fr) w' j = Some run' \<and> moved run run')"
  using assms(1,4-7)
proof (induction xs arbitrary: cur decided w)
  case (Cons k xs)
  obtain y w1 where s: "tick_one cr r fr statuses (cur, decided) k w = (y, w1)" by fastforce
  show ?case
  proof (cases y)
    case (Inl e)
    then have "w' = w1" using Cons.prems(1) s by (auto simp: act_bind_def)
    show ?thesis
    proof (cases "j = k")
      case True
      then show ?thesis
        using tick_one_any[OF s h, unfolded \<open>w' = w1\<close>[symmetric]] Cons.prems(2,4) by simp
    next
      case False
      then show ?thesis
        using tick_one_other[OF s h(2), of j, unfolded \<open>w' = w1\<close>[symmetric]] Cons.prems(2,5) by simp
    qed
  next
    case (Inr st)
    obtain cur1 decided1 where st: "st = (cur1, decided1)" by fastforce
    have s1: "tick_one cr r fr statuses (cur, decided) k w = (Ok (cur1, decided1), w1)" using s Inr st by simp
    have l: "act_foldM (tick_one cr r fr statuses) (cur1, decided1) xs w1 = (res, w')"
      using Cons.prems(1) s1 by (simp add: act_bind_def)
    show ?thesis
    proof (cases "j = k")
      case True
      have "status_at cr r (flow_uuid fr) w' k = status_at cr r (flow_uuid fr) w1 k"
        by (rule tick_loop_other[OF l h(2)]) (use Cons.prems in auto)
      then show ?thesis using tick_one_any[OF s h] Cons.prems(2,4) True by simp
    next
      case False
      have "status_at cr r (flow_uuid fr) w1 j = status_at cr r (flow_uuid fr) w j"
        by (rule tick_one_other[OF s h(2)]) (use Cons.prems False in auto)
      moreover have "tracked cr r (flow_uuid fr) cur1 i w1" if "i \<in> set xs" for i
        by (rule tracked_other[OF s1 h(2)]) (use Cons.prems that in auto)
      ultimately show ?thesis
        using Cons.IH[OF l] Cons.prems(2,3,5) False by simp
    qed
  qed
qed simp

lemma collect_tracks:
  assumes "tick_collect cr r fr xs w = (res, w')" and "res = Ok cur"
  shows "tracked cr r (flow_uuid fr) cur j w'"
  unfolding tracked_def
proof (intro allI impI)
  fix run
  assume "bt_get cur j = Some run"
  then have "status_at cr r (flow_uuid fr) w j = Some run" using collect_sound assms by blast
  moreover have "status_at cr r (flow_uuid fr) w' j = status_at cr r (flow_uuid fr) w j"
    by (intro status_at_same same_nodes[OF obeys_collect assms(1)])
  ultimately show "status_at cr r (flow_uuid fr) w' j = Some run" by simp
qed

lemma tick_parts:
  assumes "tick q cr r fr w = (res, w')"
  shows "(\<forall>p. node_at p w' = node_at p w) \<and> is_err res
    \<or> (\<exists>order cur w1 statuses st. run_order fr = Ok order
        \<and> tick_collect cr r fr order w = (Ok cur, w1)
        \<and> query_slurm q (jobids_to_query cur) = Ok statuses
        \<and> act_foldM (tick_one cr r fr statuses) (cur, bt_empty) order w1 = (st, w')
        \<and> res = map_ok (\<lambda>s. \<lparr>transitions = snd s\<rparr>) st)"
proof (cases "run_order fr")
  case (Inl e)
  then have "tick q cr r fr w = (Err e, w)" by (simp add: tick_def act_bind_def act_lift_def)
  with assms show ?thesis by (intro disjI1) auto
next
  case (Inr order)
  obtain x w1 where c: "tick_collect cr r fr order w = (x, w1)" by fastforce
  have same: "node_at p w1 = node_at p w" for p by (rule same_nodes[OF obeys_collect c])
  show ?thesis
  proof (cases x)
    case (Inl e)
    then have "tick q cr r fr w = (Err e, w1)"
      using Inr c by (simp add: tick_def act_bind_def act_lift_def)
    with assms same show ?thesis by (intro disjI1) auto
  next
    case cur: (Inr cur)
    show ?thesis
    proof (cases "query_slurm q (jobids_to_query cur)")
      case (Inl e)
      then have "tick q cr r fr w = (Err e, w1)"
        using Inr cur c by (simp add: tick_def act_bind_def act_lift_def)
      with assms same show ?thesis by (intro disjI1) auto
    next
      case st: (Inr statuses)
      obtain y w2 where l: "act_foldM (tick_one cr r fr statuses) (cur, bt_empty) order w1 = (y, w2)" by fastforce
      have "tick q cr r fr w = (map_ok (\<lambda>s. \<lparr>transitions = snd s\<rparr>) y, w2)"
        using Inr cur st c l by (cases y) (simp_all add: tick_def act_bind_def act_lift_def)
      then have r: "w2 = w'" "res = map_ok (\<lambda>s. \<lparr>transitions = snd s\<rparr>) y" using assms by auto
      show ?thesis
        by (intro disjI2 exI[of _ order] exI[of _ cur] exI[of _ w1] exI[of _ statuses] exI[of _ y] conjI)
          (use Inr cur st c l r in simp_all)
    qed
  qed
qed

lemma tick_moved:
  assumes h: "restores cr" "plain_uuid (flow_uuid fr)"
    and pl: "\<And>k. k \<in> set (bt_keys (jobs (run_flow fr))) \<Longrightarrow> plain_id k"
    and "tick q cr r fr w = (result, w')" and "j \<in> set (bt_keys (jobs (run_flow fr)))"
  shows "status_at cr r (flow_uuid fr) w' j = status_at cr r (flow_uuid fr) w j
    \<or> (\<exists>run run'. status_at cr r (flow_uuid fr) w j = Some run
         \<and> status_at cr r (flow_uuid fr) w' j = Some run' \<and> moved run run')"
  using tick_parts[OF assms(4)]
proof (elim disjE exE conjE)
  assume "\<forall>p. node_at p w' = node_at p w"
  then show ?thesis by (intro disjI1 status_at_same) simp
next
  fix order cur w1 statuses st
  assume o: "run_order fr = Ok order" and c: "tick_collect cr r fr order w = (Ok cur, w1)"
    and l: "act_foldM (tick_one cr r fr statuses) (cur, bt_empty) order w1 = (st, w')"
  have "status_at cr r (flow_uuid fr) w1 j = status_at cr r (flow_uuid fr) w j"
    by (intro status_at_same same_nodes[OF obeys_collect c])
  then show ?thesis
    using tick_loop_any[OF l h _ run_order_sound(1)[OF o] collect_tracks[OF c refl], of j]
      pl assms(5) run_order_sound(2)[OF o]
    by simp
qed

text \<open>
  C11. Whatever its result and whatever faults occur, a tick leaves the status of each job as it
  was or moves it by one step of the lifecycle machine, keeping its SLURM jobid and note. So a
  terminal status never changes, and no job without a status gets one.
\<close>

theorem tick_steps:
  assumes "plain_name (uuid_str (flow_uuid fr))"
    and "\<forall>k\<in>set (bt_keys (jobs (run_flow fr))). plain_name (jid k)"
    and "\<forall>run t. toml_ser_run cr run = Ok t \<longrightarrow> toml_de_run cr t = Ok run"
    and "tick q cr r fr w = (result, w')" and "j \<in> set (bt_keys (jobs (run_flow fr)))"
  shows "status_at cr r (flow_uuid fr) w' j = status_at cr r (flow_uuid fr) w j
    \<or> (\<exists>run run'. status_at cr r (flow_uuid fr) w j = Some run
         \<and> status_at cr r (flow_uuid fr) w' j = Some run'
         \<and> life_step (lifecycle run) (lifecycle run')
         \<and> slurm_jobid run' = slurm_jobid run \<and> run_note run' = run_note run)"
  using tick_moved[of cr fr q r w result w' j] assms
  by (auto simp: restores_def plain_uuid_def plain_id_def moved_def)

subsection \<open>The lifecycles after a successful tick\<close>

definition outcome ::
  "FlowRun \<Rightarrow> (u64 \<rightharpoonup> JobStatus) \<Rightarrow> (JobId, JobRun) btree \<Rightarrow> JobId \<Rightarrow> JobRun option
    \<Rightarrow> JobRun option \<Rightarrow> Decision option \<Rightarrow> bool" where
  \<comment> \<open>a job's run before and after its round, and the decision that is recorded\<close>
  "outcome fr statuses cur j before after d \<longleftrightarrow>
     (case before of
        None \<Rightarrow> after = None \<and> d = None
      | Some run \<Rightarrow>
          if is_terminal (lifecycle run) then after = Some run \<and> d = None
          else d = Some (tick_decide fr statuses cur j run)
            \<and> map_option lifecycle after
                = Some (apply_decision (lifecycle run) (tick_decide fr statuses cur j run)))"

lemma tick_one_Ok:
  assumes t: "tick_one cr r fr statuses (cur, decided) j w = (Ok (cur1, decided1), w1)"
    and h: "restores cr" "plain_uuid (flow_uuid fr)" "plain_id j"
    and sy: "tracked cr r (flow_uuid fr) cur j w" and fresh: "bt_get decided j = None"
  shows "outcome fr statuses cur j (bt_get cur j) (bt_get cur1 j) (bt_get decided1 j)"
    and "tracked cr r (flow_uuid fr) cur1 j w1"
    and "\<forall>k. k \<noteq> j \<longrightarrow> bt_get cur1 k = bt_get cur k \<and> bt_get decided1 k = bt_get decided k"
proof -
  have "outcome fr statuses cur j (bt_get cur j) (bt_get cur1 j) (bt_get decided1 j)
    \<and> tracked cr r (flow_uuid fr) cur1 j w1
    \<and> (\<forall>k. k \<noteq> j \<longrightarrow> bt_get cur1 k = bt_get cur k \<and> bt_get decided1 k = bt_get decided k)"
  proof (cases "bt_get cur j")
    case None
    then have "cur1 = cur" "decided1 = decided" "w1 = w" using t by (simp_all add: tick_one_def)
    then show ?thesis using None sy fresh by (simp add: outcome_def)
  next
    case (Some run)
    show ?thesis
    proof (cases "is_terminal (lifecycle run)")
      case True
      then have "cur1 = cur" "decided1 = decided" "w1 = w" using t Some by (simp_all add: tick_one_def)
      then show ?thesis using Some True sy fresh by (simp add: outcome_def)
    next
      case nt: False
      let ?d = "tick_decide fr statuses cur j run"
      show ?thesis
      proof (cases "?d = NoChange")
        case True
        then have "cur1 = cur" "decided1 = bt_insert j ?d decided" "w1 = w"
          using t Some nt by (simp_all add: tick_one_def)
        then show ?thesis using Some nt sy True by (simp add: outcome_def apply_decision_def)
      next
        case nc: False
        then have "act_bind clock_now (\<lambda>now. act_bind
            (write_job_run cr (status_file r (flow_uuid fr) j) (updated_run run ?d now))
            (\<lambda>_. ret (bt_insert j (updated_run run ?d now) cur, bt_insert j ?d decided))) w
            = (Ok (cur1, decided1), w1)"
          using t Some nt by (simp add: tick_one_def Let_def)
        then obtain now w2 where
          wr: "write_job_run cr (status_file r (flow_uuid fr) j) (updated_run run ?d now) w2 = (Ok (), w1)"
          and o: "cur1 = bt_insert j (updated_run run ?d now) cur" "decided1 = bt_insert j ?d decided"
          by (auto simp: io_simps)
        have "status_at cr r (flow_uuid fr) w1 j = Some (updated_run run ?d now)"
          using write_status_any[OF wr h] by simp
        then show ?thesis
          using Some nt o by (simp add: outcome_def tracked_def updated_run_def)
      qed
    qed
  qed
  then show "outcome fr statuses cur j (bt_get cur j) (bt_get cur1 j) (bt_get decided1 j)"
    and "tracked cr r (flow_uuid fr) cur1 j w1"
    and "\<forall>k. k \<noteq> j \<longrightarrow> bt_get cur1 k = bt_get cur k \<and> bt_get decided1 k = bt_get decided k"
    by blast+
qed

lemma tick_decide_cong:
  assumes "\<And>e. e \<in> set (parents_of fr j) \<Longrightarrow> bt_get cur (edge_from e) = bt_get cur' (edge_from e)"
  shows "tick_decide fr statuses cur j run = tick_decide fr statuses cur' j run"
proof -
  have "parent_lifecycles cur (parents_of fr j) = parent_lifecycles cur' (parents_of fr j)"
    unfolding parent_lifecycles_def List.map_filter_def using assms by (auto cong: map_cong filter_cong)
  then show ?thesis by (simp add: tick_decide_def)
qed

lemma outcome_cong:
  assumes "\<And>e. e \<in> set (parents_of fr j) \<Longrightarrow> bt_get cur (edge_from e) = bt_get cur' (edge_from e)"
  shows "outcome fr statuses cur j = outcome fr statuses cur' j"
proof -
  have decide: "tick_decide fr statuses cur j run = tick_decide fr statuses cur' j run" for run
    using assms by (rule tick_decide_cong)
  show ?thesis by (intro ext) (simp only: outcome_def decide)
qed

lemma tick_loop_Ok:
  assumes "act_foldM (tick_one cr r fr statuses) (cur, decided) xs w = (Ok (cur', decided'), w')"
    and h: "restores cr" "plain_uuid (flow_uuid fr)" and pl: "\<And>k. k \<in> set xs \<Longrightarrow> plain_id k"
    and "distinct xs" and "parents_done fr xs"
    and "\<And>k. k \<in> set xs \<Longrightarrow> tracked cr r (flow_uuid fr) cur k w"
    and "\<And>k. k \<in> set xs \<Longrightarrow> bt_get decided k = None"
  shows "(\<forall>k. k \<notin> set xs \<longrightarrow> bt_get cur' k = bt_get cur k)
    \<and> (\<forall>k. k \<notin> set xs \<longrightarrow> bt_get decided' k = bt_get decided k)
    \<and> (\<forall>j\<in>set xs. tracked cr r (flow_uuid fr) cur' j w'
         \<and> outcome fr statuses cur' j (bt_get cur j) (bt_get cur' j) (bt_get decided' j))"
  using assms(1,4-8)
proof (induction xs arbitrary: cur decided w)
  case Nil
  then show ?case by (simp add: io_simps)
next
  case (Cons j xs)
  let ?u = "flow_uuid fr"
  from Cons.prems(1) obtain cur1 decided1 w1 where
    s: "tick_one cr r fr statuses (cur, decided) j w = (Ok (cur1, decided1), w1)"
    and l: "act_foldM (tick_one cr r fr statuses) (cur1, decided1) xs w1 = (Ok (cur', decided'), w')"
    by (auto simp: io_simps)
  have pj: "plain_id j" and d: "distinct xs" "j \<notin> set xs" using Cons.prems(2,3) by auto
  have one: "outcome fr statuses cur j (bt_get cur j) (bt_get cur1 j) (bt_get decided1 j)"
      "tracked cr r ?u cur1 j w1"
      "\<forall>k. k \<noteq> j \<longrightarrow> bt_get cur1 k = bt_get cur k \<and> bt_get decided1 k = bt_get decided k"
    by (rule tick_one_Ok[OF s h pj]; use Cons.prems(5,6) in simp)+
  have IH: "(\<forall>k. k \<notin> set xs \<longrightarrow> bt_get cur' k = bt_get cur1 k)
    \<and> (\<forall>k. k \<notin> set xs \<longrightarrow> bt_get decided' k = bt_get decided1 k)
    \<and> (\<forall>j\<in>set xs. tracked cr r ?u cur' j w'
         \<and> outcome fr statuses cur' j (bt_get cur1 j) (bt_get cur' j) (bt_get decided' j))"
  proof (rule Cons.IH[OF l])
    show "tracked cr r ?u cur1 k w1" if "k \<in> set xs" for k
      by (rule tracked_other[OF s h(2)]) (use Cons.prems that in auto)
    show "bt_get decided1 k = None" if "k \<in> set xs" for k
      using one(3) Cons.prems(6)[of k] that d(2) by auto
  qed (use Cons.prems(2) d(1) parents_done_Cons[OF Cons.prems(4)] in auto)
  have "bt_get cur (edge_from e) = bt_get cur' (edge_from e)" if "e \<in> set (parents_of fr j)" for e
  proof -
    have "edge_from e \<noteq> j" "edge_from e \<notin> set xs"
      using Cons.prems(4) that unfolding parents_done_def by (metis append_Nil list.set_intros)+
    then show ?thesis using IH one(3) by simp
  qed
  then have "outcome fr statuses cur' j (bt_get cur j) (bt_get cur1 j) (bt_get decided1 j)"
    using one(1) outcome_cong by metis
  moreover have "bt_get cur' j = bt_get cur1 j" "bt_get decided' j = bt_get decided1 j" using IH d(2) by auto
  moreover have "status_at cr r ?u w' j = status_at cr r ?u w1 j"
    by (rule tick_loop_other[OF l h(2) pj]) (use Cons.prems(2) d in auto)
  ultimately have hd: "tracked cr r ?u cur' j w'
      \<and> outcome fr statuses cur' j (bt_get cur j) (bt_get cur' j) (bt_get decided' j)"
    using one(2) by (simp add: tracked_def)
  have tl: "tracked cr r ?u cur' k w'
      \<and> outcome fr statuses cur' k (bt_get cur k) (bt_get cur' k) (bt_get decided' k)" if "k \<in> set xs" for k
  proof -
    have "bt_get cur1 k = bt_get cur k" using one(3) that d(2) by auto
    then show ?thesis using IH that by metis
  qed
  have "bt_get cur' k = bt_get cur k \<and> bt_get decided' k = bt_get decided k" if "k \<notin> set (j # xs)" for k
    using IH one(3) that by simp
  with hd tl show ?case by simp
qed

lemma jobids_to_query_set:
  "i \<in> set (jobids_to_query cur) \<longleftrightarrow>
    (\<exists>j run. bt_get cur j = Some run \<and> \<not> is_terminal (lifecycle run) \<and> slurm_jobid run = Some i)"
  by (auto simp: jobids_to_query_def in_set_map_filter bt_in_values)

definition lives_of :: "crates \<Rightarrow> PathResolver \<Rightarrow> FlowRun \<Rightarrow> 'x world_scheme \<Rightarrow> JobId \<Rightarrow> (JobId \<times> Lifecycle) list" where
  \<comment> \<open>the parents of a job that have a status, in edge order, with their lifecycles\<close>
  "lives_of cr r fr w j = List.map_filter
     (\<lambda>e. map_option (\<lambda>l. (edge_from e, l)) (life_at cr r (flow_uuid fr) w (edge_from e))) (parents_of fr j)"

definition settled ::
  "crates \<Rightarrow> PathResolver \<Rightarrow> FlowRun \<Rightarrow> (u64 \<rightharpoonup> JobStatus) \<Rightarrow> 'x world_scheme \<Rightarrow> 'x world_scheme
    \<Rightarrow> TickResult \<Rightarrow> JobId \<Rightarrow> bool" where
  \<comment> \<open>the equation a job satisfies between the worlds before and after the tick\<close>
  "settled cr r fr statuses w w' res j \<longleftrightarrow>
        (case status_at cr r (flow_uuid fr) w j of
           None \<Rightarrow> life_at cr r (flow_uuid fr) w' j = None \<and> bt_get (transitions res) j = None
         | Some run \<Rightarrow>
             if is_terminal (lifecycle run)
             then life_at cr r (flow_uuid fr) w' j = Some (lifecycle run) \<and> bt_get (transitions res) j = None
             else (let d = decide_transition (lifecycle run) (Option.bind (slurm_jobid run) statuses)
                             (lives_of cr r fr w' j)
                   in bt_get (transitions res) j = Some d
                     \<and> life_at cr r (flow_uuid fr) w' j = Some (apply_decision (lifecycle run) d)))"

definition asked :: "crates \<Rightarrow> PathResolver \<Rightarrow> FlowRun \<Rightarrow> 'x world_scheme \<Rightarrow> u64 \<Rightarrow> bool" where
  \<comment> \<open>the jobid of a job that is not terminal\<close>
  "asked cr r fr w i \<longleftrightarrow> (\<exists>j\<in>set (bt_keys (jobs (run_flow fr))). \<exists>run.
     status_at cr r (flow_uuid fr) w j = Some run \<and> \<not> is_terminal (lifecycle run) \<and> slurm_jobid run = Some i)"

lemma life_after:
  \<comment> \<open>the lifecycles on disk after the loop are those in memory\<close>
  assumes out: "tracked cr r (flow_uuid fr) cur' j w'"
      "outcome fr statuses cur' j (bt_get cur j) (bt_get cur' j) (bt_get decided' j)"
    and none: "bt_get cur j = None \<Longrightarrow> status_at cr r (flow_uuid fr) w' j = None"
  shows "life_at cr r (flow_uuid fr) w' j = map_option lifecycle (bt_get cur' j)"
proof (cases "bt_get cur j")
  case None
  then have "bt_get cur' j = None" using out by (auto simp: outcome_def)
  then show ?thesis using none[OF None] by (simp add: life_at_def)
next
  case (Some run)
  then have "bt_get cur' j \<noteq> None"
    using out(2) by (cases "is_terminal (lifecycle run)") (auto simp: outcome_def)
  then obtain run' where run': "bt_get cur' j = Some run'" by auto
  then have "status_at cr r (flow_uuid fr) w' j = Some run'" using out(1) by (simp add: tracked_def)
  then show ?thesis using run' by (simp add: life_at_def)
qed

lemma parents_after:
  assumes "\<And>e. e \<in> set (parents_of fr j) \<Longrightarrow>
    life_at cr r (flow_uuid fr) w (edge_from e) = map_option lifecycle (bt_get cur (edge_from e))"
  shows "parent_lifecycles cur (parents_of fr j) = lives_of cr r fr w j"
  unfolding parent_lifecycles_def lives_of_def List.map_filter_def
  using assms by (auto simp: option.map_comp comp_def cong: map_cong filter_cong)

lemma tick_settled:
  assumes "restores cr" "plain_uuid (flow_uuid fr)"
    and "\<And>k. k \<in> set (bt_keys (jobs (run_flow fr))) \<Longrightarrow> plain_id k"
    and "no_faults w" and "tick q cr r fr w = (Ok res, w')"
  shows "\<exists>ids statuses. (\<forall>i. i \<in> set ids \<longleftrightarrow> asked cr r fr w i)
    \<and> (if ids = [] then statuses = Map.empty else q ids = Ok statuses)
    \<and> (\<forall>j\<in>set (bt_keys (jobs (run_flow fr))). settled cr r fr statuses w w' res j)"
proof -
  let ?u = "flow_uuid fr" and ?K = "set (bt_keys (jobs (run_flow fr)))"
  have h: "restores cr" "plain_uuid ?u" and pl: "\<And>k. k \<in> ?K \<Longrightarrow> plain_id k" and nf: "no_faults w"
    using assms(1-4) by simp_all
  from tick_parts[OF assms(5)] obtain order cur w1 statuses st where o: "run_order fr = Ok order"
    and c: "tick_collect cr r fr order w = (Ok cur, w1)"
    and qs: "query_slurm q (jobids_to_query cur) = Ok statuses"
    and l0: "act_foldM (tick_one cr r fr statuses) (cur, bt_empty) order w1 = (st, w')"
    and res0: "Ok res = map_ok (\<lambda>s. \<lparr>transitions = snd s\<rparr>) st"
    by auto
  obtain cur' decided' where l: "act_foldM (tick_one cr r fr statuses) (cur, bt_empty) order w1 = (Ok (cur', decided'), w')"
    and res: "transitions res = decided'"
    using l0 res0 by (cases st) auto
  have K: "set order = ?K" by (rule run_order_sound(2)[OF o])
  have cur: "bt_get cur j = status_at cr r ?u w j" if "j \<in> ?K" for j
    using collect_complete[OF nf c] that K by simp
  have cur_in: "j \<in> ?K" if "bt_get cur j = Some run" for j run using collect_sound[OF c that] K by simp
  have loop: "\<forall>j\<in>?K. tracked cr r ?u cur' j w' \<and> outcome fr statuses cur' j (bt_get cur j) (bt_get cur' j) (bt_get decided' j)"
    using tick_loop_Ok[OF l h _ run_order_sound(1)[OF o] parents_done_order[OF o] collect_tracks[OF c refl]] K pl
    by simp
  have none: "status_at cr r ?u w' j = None" if j: "j \<in> ?K" "bt_get cur j = None" for j
    using tick_moved[OF h pl assms(5) j(1)] cur[OF j(1)] j(2) by auto
  have after: "life_at cr r ?u w' j = map_option lifecycle (bt_get cur' j)" if j: "j \<in> ?K" for j
    by (rule life_after[where cur = cur]) (use loop none j in blast)+
  have par: "parent_lifecycles cur' (parents_of fr j) = lives_of cr r fr w' j" for j
    by (rule parents_after) (use run_order_sound(3)[OF o, THEN precedes_set] K after in blast)
  have "settled cr r fr statuses w w' res j" if j: "j \<in> ?K" for j
    using loop j after[OF j]
    unfolding settled_def cur[OF j, symmetric] res outcome_def tick_decide_def par Let_def
    by (cases "bt_get cur j") (auto split: if_splits)
  moreover have "i \<in> set (jobids_to_query cur) \<longleftrightarrow> asked cr r fr w i" for i
    unfolding jobids_to_query_set asked_def using cur cur_in by metis
  moreover have "if jobids_to_query cur = [] then statuses = Map.empty else q (jobids_to_query cur) = Ok statuses"
    using qs by (auto simp: query_slurm_def split: if_splits)
  ultimately show ?thesis by blast
qed


text \<open>
  C1. After a successful tick with no failing system call the lifecycles solve one equation: a
  job without a status file has none, a terminal job keeps its lifecycle, and every other job has
  the lifecycle decided from its old one, from what SLURM answered for its jobid, and from the
  lifecycles its parents have after the tick. The querier was asked exactly for the jobids of the
  jobs that were not terminal, or not at all when there were none, and the result records exactly
  the decisions of these jobs.
\<close>

theorem tick_settles:
  assumes "plain_name (uuid_str (flow_uuid fr))"
    and "\<forall>k\<in>set (bt_keys (jobs (run_flow fr))). plain_name (jid k)"
    and "\<forall>run t. toml_ser_run cr run = Ok t \<longrightarrow> toml_de_run cr t = Ok run"
    and "\<forall>n. w_fault w n = None" and "tick q cr r fr w = (Ok res, w')"
  shows "\<exists>ids statuses.
    (\<forall>i. i \<in> set ids \<longleftrightarrow> (\<exists>j\<in>set (bt_keys (jobs (run_flow fr))). \<exists>run.
        status_at cr r (flow_uuid fr) w j = Some run \<and> \<not> is_terminal (lifecycle run) \<and> slurm_jobid run = Some i))
    \<and> (if ids = [] then statuses = Map.empty else q ids = Ok statuses)
    \<and> (\<forall>j\<in>set (bt_keys (jobs (run_flow fr))).
        (case status_at cr r (flow_uuid fr) w j of
           None \<Rightarrow> life_at cr r (flow_uuid fr) w' j = None \<and> bt_get (transitions res) j = None
         | Some run \<Rightarrow>
             if is_terminal (lifecycle run)
             then life_at cr r (flow_uuid fr) w' j = Some (lifecycle run) \<and> bt_get (transitions res) j = None
             else (let d = decide_transition (lifecycle run) (Option.bind (slurm_jobid run) statuses)
                             (lives_of cr r fr w' j)
                   in bt_get (transitions res) j = Some d
                     \<and> life_at cr r (flow_uuid fr) w' j = Some (apply_decision (lifecycle run) d))))"
  using tick_settled[of cr fr w q r res w'] assms
  unfolding asked_def settled_def
  by (simp add: restores_def plain_uuid_def plain_id_def no_faults_def)

subsection \<open>Skipping\<close>

lemma in_lives_of:
  "e \<in> set (parents_of fr j) \<Longrightarrow> life_at cr r (flow_uuid fr) w (edge_from e) = Some l \<Longrightarrow>
    (edge_from e, l) \<in> set (lives_of cr r fr w j)"
  by (force simp: lives_of_def in_set_map_filter)

lemma decide_skips: "(p, l) \<in> set ps \<Longrightarrow> dead l \<Longrightarrow>
    apply_decision Queued (decide_transition Queued q ps) = Skipped"
proof -
  assume "(p, l) \<in> set ps" and "dead l"
  then have "List.find (\<lambda>(_, l). dead l) ps \<noteq> None" by (auto simp: find_None_iff_all)
  then show ?thesis by (auto simp: decide_transition_def apply_decision_def split: option.split)
qed

text \<open>
  Failure propagates in one tick along queued jobs: a job that was queued and has, after
  the tick, a failed or skipped parent is skipped after the tick, whatever the kind of the edge
  and whatever SLURM reports for it.
\<close>

theorem tick_skips_downstream:
  assumes "plain_name (uuid_str (flow_uuid fr))"
    and "\<forall>k\<in>set (bt_keys (jobs (run_flow fr))). plain_name (jid k)"
    and "\<forall>run t. toml_ser_run cr run = Ok t \<longrightarrow> toml_de_run cr t = Ok run"
    and "\<forall>n. w_fault w n = None" and "tick q cr r fr w = (Ok res, w')"
    and "life_at cr r (flow_uuid fr) w j = Some Queued" and "e \<in> set (parents_of fr j)"
    and "life_at cr r (flow_uuid fr) w' (edge_from e) \<in> {Some Failed, Some Skipped}"
  shows "life_at cr r (flow_uuid fr) w' j = Some Skipped"
proof -
  obtain statuses where "\<forall>j\<in>set (bt_keys (jobs (run_flow fr))). settled cr r fr statuses w w' res j"
    using tick_settled[of cr fr w q r res w'] assms(1-5)
    by (auto simp: restores_def plain_uuid_def plain_id_def no_faults_def)
  moreover have "j \<in> set (bt_keys (jobs (run_flow fr)))"
    using assms(7) by (cases "bt_get (jobs (run_flow fr)) j") (simp_all add: parents_of_def bt_in_keys)
  ultimately have s: "settled cr r fr statuses w w' res j" by blast
  obtain run where run: "status_at cr r (flow_uuid fr) w j = Some run" "lifecycle run = Queued"
    using assms(6) by (auto simp: life_at_def)
  obtain l where l: "life_at cr r (flow_uuid fr) w' (edge_from e) = Some l" "dead l"
    using assms(8) by (auto simp: dead_def)
  from in_lives_of[OF assms(7) l(1)] l(2)
  have "(edge_from e, l) \<in> set (lives_of cr r fr w' j)" "dead l" by simp_all
  then show ?thesis using s run by (simp add: settled_def Let_def decide_skips)
qed

subsection \<open>Two ticks reach a fixpoint\<close>

lemma decide_apply:
  "apply_decision l (decide_transition l q ps) =
    (if is_terminal l then l
     else if l = Queued \<and> (\<exists>x\<in>set ps. dead (snd x)) then Skipped
     else case q of None \<Rightarrow> l | Some st \<Rightarrow> next_lifecycle l (js_state st))"
proof -
  have f: "List.find (\<lambda>(_, l). dead l) ps = None \<longleftrightarrow> \<not> (\<exists>x\<in>set ps. dead (snd x))"
    unfolding find_None_iff_all by (simp add: case_prod_unfold)
  show ?thesis
  proof (cases "List.find (\<lambda>(_, l). dead l) ps")
    case None
    then have "\<not> (\<exists>x\<in>set ps. dead (snd x))" using f by blast
    then show ?thesis
      unfolding decide_transition_def None by (auto simp: apply_decision_def Let_def split: option.split)
  next
    case (Some c)
    then have "\<exists>x\<in>set ps. dead (snd x)" using f by force
    then show ?thesis
      unfolding decide_transition_def Some
      by (auto simp: apply_decision_def Let_def case_prod_unfold split: option.split)
  qed
qed

definition moves_to :: "JobStatus option \<Rightarrow> bool \<Rightarrow> Lifecycle \<Rightarrow> Lifecycle" where
  \<comment> \<open>the decision as a function of whether some parent is dead\<close>
  "moves_to q b l =
     (if is_terminal l then l
      else if l = Queued \<and> b then Skipped
      else case q of None \<Rightarrow> l | Some st \<Rightarrow> next_lifecycle l (js_state st))"

lemma moves_to_stable: "moves_to q b (moves_to q b (moves_to q a l)) = moves_to q b (moves_to q a l)"
proof (cases q)
  case None
  then show ?thesis by (cases l) (simp_all add: moves_to_def)
next
  case (Some st)
  then show ?thesis
    by (cases "js_state st"; cases l) (simp_all add: moves_to_def next_lifecycle_def)
qed

lemma decide_moves:
  "apply_decision l (decide_transition l q ps) = moves_to q (\<exists>x\<in>set ps. dead (snd x)) l"
  by (simp only: decide_apply moves_to_def)

lemma decide_stable:
  assumes "l1 = apply_decision l0 (decide_transition l0 q ps0)"
    and "l2 = apply_decision l1 (decide_transition l1 q ps)"
  shows "apply_decision l2 (decide_transition l2 q ps) = l2"
  unfolding assms decide_moves by (rule moves_to_stable)

definition report :: "crates \<Rightarrow> PathResolver \<Rightarrow> FlowRun \<Rightarrow> (u64 \<rightharpoonup> JobStatus) \<Rightarrow> 'x world_scheme \<Rightarrow> JobId \<Rightarrow> JobStatus option" where
  "report cr r fr responses w j =
     Option.bind (Option.bind (status_at cr r (flow_uuid fr) w j) slurm_jobid) responses"

lemma settled_life:
  assumes s: "settled cr r fr statuses w w' res j" and j: "j \<in> set (bt_keys (jobs (run_flow fr)))"
    and q: "\<And>i. asked cr r fr w i \<Longrightarrow> statuses i = responses i"
  shows "life_at cr r (flow_uuid fr) w' j = map_option
    (\<lambda>l. apply_decision l (decide_transition l (report cr r fr responses w j) (lives_of cr r fr w' j)))
    (life_at cr r (flow_uuid fr) w j)"
proof (cases "status_at cr r (flow_uuid fr) w j")
  case None
  then show ?thesis using s by (simp add: settled_def life_at_def)
next
  case (Some run)
  show ?thesis
  proof (cases "is_terminal (lifecycle run)")
    case True
    then show ?thesis using s Some by (simp add: settled_def life_at_def apply_decision_def)
  next
    case False
    have "Option.bind (slurm_jobid run) statuses = report cr r fr responses w j"
      using q Some False j by (cases "slurm_jobid run") (auto simp: report_def asked_def)
    then show ?thesis using s Some False by (simp add: settled_def life_at_def Let_def)
  qed
qed

lemma life_stable:
  assumes "l1 = map_option (\<lambda>l. apply_decision l (decide_transition l q ps1)) l0"
    and "l2 = map_option (\<lambda>l. apply_decision l (decide_transition l q ps)) l1"
    and "l3 = map_option (\<lambda>l. apply_decision l (decide_transition l q ps)) l2"
  shows "l3 = l2"
  using assms decide_stable[OF refl refl] by (cases l0) simp_all

lemma lives_of_cong:
  "(\<And>e. e \<in> set (parents_of fr j) \<Longrightarrow>
      life_at cr r (flow_uuid fr) w' (edge_from e) = life_at cr r (flow_uuid fr) w (edge_from e)) \<Longrightarrow>
    lives_of cr r fr w' j = lives_of cr r fr w j"
  unfolding lives_of_def List.map_filter_def by (auto cong: map_cong filter_cong)

context steady_querier
begin

lemma tick_life:
  assumes "restores cr" "plain_uuid (flow_uuid fr)"
    and "\<forall>k\<in>set (bt_keys (jobs (run_flow fr))). plain_id k"
    and "no_faults w" and "tick q cr r fr w = (Ok res, w')"
    and j: "j \<in> set (bt_keys (jobs (run_flow fr)))"
  shows "life_at cr r (flow_uuid fr) w' j = map_option
      (\<lambda>l. apply_decision l (decide_transition l (report cr r fr responses w j) (lives_of cr r fr w' j)))
      (life_at cr r (flow_uuid fr) w j)
    \<and> report cr r fr responses w' j = report cr r fr responses w j \<and> no_faults w'"
proof -
  obtain ids statuses where i: "\<forall>i. i \<in> set ids \<longleftrightarrow> asked cr r fr w i"
    and qs: "if ids = [] then statuses = Map.empty else q ids = Ok statuses"
    and s: "settled cr r fr statuses w w' res j"
    using tick_settled[OF assms(1,2) _ assms(4,5)] assms(3) j by blast
  have "statuses i = responses i" if "asked cr r fr w i" for i
    using qs i that answers by (cases "ids = []") auto
  moreover have "report cr r fr responses w' j = report cr r fr responses w j"
    using tick_moved[OF assms(1,2) _ assms(5) j] assms(3) by (auto simp: report_def moved_def)
  moreover have "no_faults w'"
    using obeysD[OF obeys_tick assms(5)] assms(4) by (simp add: changes_only_def same_host_def no_faults_def)
  ultimately show ?thesis using settled_life[OF s j] by blast
qed

lemma third_tick:
  assumes h: "restores cr" "plain_uuid (flow_uuid fr)"
      "\<forall>k\<in>set (bt_keys (jobs (run_flow fr))). plain_id k" "no_faults w"
    and t1: "tick q cr r fr w = (Ok res1, w1)" and t2: "tick q cr r fr w1 = (Ok res2, w2)"
    and t3: "tick q cr r fr w2 = (Ok res3, w3)" and j: "j \<in> set (bt_keys (jobs (run_flow fr)))"
  shows "life_at cr r (flow_uuid fr) w3 j = life_at cr r (flow_uuid fr) w2 j"
proof -
  note l1 = tick_life[OF h t1]
  have nf1: "no_faults w1" using l1[OF j] by blast
  note l2 = tick_life[OF h(1-3) nf1 t2]
  have nf2: "no_faults w2" using l2[OF j] by blast
  note l3 = tick_life[OF h(1-3) nf2 t3]
  obtain order where o: "run_order fr = Ok order" using tick_parts[OF t1] by auto
  from o j show ?thesis
  proof (induction rule: run_order_induct)
    case (job b)
    have lives: "lives_of cr r fr w3 b = lives_of cr r fr w2 b" by (rule lives_of_cong) (rule job(2))
    have reports: "report cr r fr responses w1 b = report cr r fr responses w b"
      "report cr r fr responses w2 b = report cr r fr responses w b"
      using l1[OF job(1)] l2[OF job(1)] by simp_all
    show ?case
      by (rule life_stable[OF conjunct1[OF l1[OF job(1)]] conjunct1[OF l2[OF job(1)], unfolded reports]
            conjunct1[OF l3[OF job(1)], unfolded reports lives]])
  qed
qed

end

text \<open>
  C20. While SLURM's answers do not change two ticks reach a fixpoint: a third tick changes the
  lifecycle of no job.
\<close>

theorem tick_converges:
  assumes "plain_name (uuid_str (flow_uuid fr))"
    and "\<forall>k\<in>set (bt_keys (jobs (run_flow fr))). plain_name (jid k)"
    and "\<forall>run t. toml_ser_run cr run = Ok t \<longrightarrow> toml_de_run cr t = Ok run"
    and "\<forall>n. w_fault w n = None"
    and "\<forall>ids m. q ids = Ok m \<longrightarrow> (\<forall>i\<in>set ids. m i = responses i)"
    and "tick q cr r fr w = (Ok res1, w1)" and "tick q cr r fr w1 = (Ok res2, w2)"
    and "tick q cr r fr w2 = (Ok res3, w3)"
    and "j \<in> set (bt_keys (jobs (run_flow fr)))"
  shows "life_at cr r (flow_uuid fr) w3 j = life_at cr r (flow_uuid fr) w2 j"
proof -
  have "steady_querier q responses" using assms(5) by unfold_locales blast
  from steady_querier.third_tick[OF this _ _ _ _ assms(6-9)] show ?thesis
    using assms(1-4) by (simp add: restores_def plain_uuid_def plain_id_def no_faults_def)
qed

end
