(* ===== verification/Liveness.thy ===== *)
theory Liveness
  imports Tick
begin

section \<open>Ticks and submissions succeed\<close>

text \<open>
  The other theorems say what a result means; these say that there is one. When no system call
  fails, nothing of the wrong kind stands where a file or directory must go, and the
  collaborators answer, a tick and a submission return Ok.
\<close>

subsection \<open>Where the status files lie\<close>

definition above_status :: "PathResolver \<Rightarrow> Uuid \<Rightarrow> Path set" where
  "above_status r u = {q. length q < length (flow_dir r u) + 3}"

definition status_level :: "PathResolver \<Rightarrow> Uuid \<Rightarrow> Path set" where
  "status_level r u = {q. length q = length (flow_dir r u) + 3}"

lemma with_extension_length: "length (with_extension p e) = length p"
  by (cases p rule: rev_cases) (simp_all add: with_extension_def split: Component.splits)

lemma temporaries_length: "q \<in> temporaries p \<Longrightarrow> length q = length p"
  by (auto simp: temporaries_def with_extension_length)

lemma status_levels:
  assumes "plain_uuid u" and "plain_id j"
  shows "dirs_above (status_file r u j) \<subseteq> above_status r u"
    and "insert (status_file r u j) (temporaries (status_file r u j)) \<subseteq> status_level r u"
  using assms
  by (auto simp: above_status_def status_level_def dirs_above_def status_file_eq dest: temporaries_length)

lemma levels_disjoint: "above_status r u \<inter> status_level r u = {}"
  by (auto simp: above_status_def status_level_def)

lemma obeys_shaped_write_run:
  assumes "plain_uuid u" and "plain_id j"
  shows "obeys (shaped (above_status r u) (status_level r u)) (write_job_run cr (status_file r u j) run)"
  unfolding write_job_run_def write_toml_def
  by (intro shape.obeys_bind shape.obeys_lift obeys_shaped_atomic_write status_levels[OF assms])

lemma writable_status:
  assumes "plain_uuid u" and "plain_id j"
    and "shaped (above_status r u) (status_level r u) w w'" and "writable (status_file r u j) w"
  shows "writable (status_file r u j) w'"
  using assms(4,3)
  by (rule writable_shaped) (use status_levels[OF assms(1,2), of r] levels_disjoint[of r u] in blast)+

subsection \<open>Ticks\<close>

lemma obeys_shaped_tick_one:
  assumes "plain_uuid (flow_uuid fr)" and "plain_id j"
  shows "obeys (shaped (above_status r (flow_uuid fr)) (status_level r (flow_uuid fr)))
    (tick_one cr r fr statuses st j)"
  unfolding tick_one_def
  by (auto split: prod.split option.split simp: Let_def
      intro!: shape.obeys_ret shape.obeys_bind shaped_of_reader[OF obeys_clock_now] obeys_shaped_write_run assms)

lemma no_faults_same_host: "same_host w w' \<Longrightarrow> no_faults w \<Longrightarrow> no_faults w'"
  by (simp add: same_host_def no_faults_def)

lemma write_toml_succeeds:
  "no_faults w \<Longrightarrow> writable path w \<Longrightarrow> ser = Ok s \<Longrightarrow> \<exists>w'. write_toml ser path w = (Ok (), w')"
  using write_toml_run[of w path ser s] by (cases "write_toml ser path w"; cases "fst (write_toml ser path w)") auto

lemma tick_one_succeeds:
  assumes "no_faults w" and "writable (status_file r (flow_uuid fr) j) w"
    and "\<And>run. \<exists>t. toml_ser_run cr run = Ok t"
  shows "\<exists>st' w'. tick_one cr r fr statuses st j w = (Ok st', w')"
proof -
  obtain cur decided where st: "st = (cur, decided)" by fastforce
  show ?thesis
  proof (cases "bt_get cur j")
    case None
    then show ?thesis by (simp add: tick_one_def st)
  next
    case (Some run)
    let ?d = "tick_decide fr statuses cur j run"
    show ?thesis
    proof (cases "is_terminal (lifecycle run) \<or> ?d = NoChange")
      case True
      then show ?thesis using Some by (auto simp: tick_one_def st)
    next
      case False
      obtain now where c: "clock_now w = (Ok now :: JobManagerError + _, next_step w)" by (simp add: clock_now_eq)
      have "writable (status_file r (flow_uuid fr) j) (next_step w)"
        using assms(2) by (simp add: writable_def)
      moreover have "no_faults (next_step w)" using assms(1) by (simp add: next_step_advance)
      ultimately obtain w2 where
        "write_job_run cr (status_file r (flow_uuid fr) j) (updated_run run ?d now) (next_step w) = (Ok (), w2)"
        using write_toml_succeeds assms(3)[of "updated_run run ?d now"] unfolding write_job_run_def by blast
      then show ?thesis using Some False c by (simp add: tick_one_def st Let_def act_bind_def)
    qed
  qed
qed

lemma tick_loop_succeeds:
  assumes "no_faults w" and u: "plain_uuid (flow_uuid fr)"
    and "\<And>j. j \<in> set xs \<Longrightarrow> plain_id j \<and> writable (status_file r (flow_uuid fr) j) w"
    and ser: "\<And>run. \<exists>t. toml_ser_run cr run = Ok t"
  shows "\<exists>st' w'. act_foldM (tick_one cr r fr statuses) st xs w = (Ok st', w')"
  using assms(1,3)
proof (induction xs arbitrary: st w)
  case (Cons j xs)
  obtain st1 w1 where s: "tick_one cr r fr statuses st j w = (Ok st1, w1)"
    using tick_one_succeeds[OF Cons.prems(1) _ ser] Cons.prems(2) by (metis list.set_intros(1))
  have sh: "shaped (above_status r (flow_uuid fr)) (status_level r (flow_uuid fr)) w w1"
    using obeysD[OF obeys_shaped_tick_one[OF u] s] Cons.prems(2) by simp
  then have "no_faults w1" using no_faults_same_host Cons.prems(1) unfolding shaped_def by blast
  moreover have "plain_id k \<and> writable (status_file r (flow_uuid fr) k) w1" if "k \<in> set xs" for k
    using writable_status[OF u _ sh] Cons.prems(2) that by simp
  ultimately show ?case using Cons.IH[of w1 st1] s by (auto simp: act_bind_def)
qed simp

lemma read_job_run_succeeds:
  assumes "no_faults w" and "node_at p w = Some (File s)" and "length s \<le> unat (max_toml_size w)"
    and "utf8 s" and "toml_de_run cr s = Ok run"
  shows "read_job_run cr p w = (Ok run, advance 2 w)"
  using assms by (simp add: read_job_run_def read_toml_run)

definition readable_status :: "crates \<Rightarrow> Path \<Rightarrow> 'x world_scheme \<Rightarrow> bool" where
  "readable_status cr p w \<longleftrightarrow> node_at p w = None
     \<or> (\<exists>s run. node_at p w = Some (File s) \<and> length s \<le> unat (max_toml_size w) \<and> utf8 s
         \<and> toml_de_run cr s = Ok run)"

lemma readable_status_keeps:
  "obeys (changes_only {}) m \<Longrightarrow> m w = (x, w') \<Longrightarrow> readable_status cr p w' = readable_status cr p w"
  by (drule (1) obeysD) (auto simp: readable_status_def changes_only_def max_toml_size_host[of w w'])

lemma collect_succeeds:
  assumes "no_faults w" and "\<And>j. j \<in> set xs \<Longrightarrow> readable_status cr (status_file r (flow_uuid fr) j) w"
  shows "\<exists>cur w'. act_foldM (tick_collect_one cr r fr) cur0 xs w = (Ok cur, w')"
  using assms
proof (induction xs arbitrary: cur0 w)
  case (Cons j xs)
  have "\<exists>cur1 w1. tick_collect_one cr r fr cur0 j w = (Ok cur1, w1)"
    using Cons.prems(1) Cons.prems(2)[of j]
    by (auto simp: tick_collect_one_def Let_def act_bind_def path_exists_run readable_status_def
        read_job_run_succeeds)
  then obtain cur1 w1 where s: "tick_collect_one cr r fr cur0 j w = (Ok cur1, w1)" by blast
  have "no_faults w1"
    using obeysD[OF obeys_collect_one[of UNIV] s] Cons.prems(1) no_faults_same_host
    unfolding changes_only_def by blast
  moreover have "readable_status cr (status_file r (flow_uuid fr) k) w1" if "k \<in> set xs" for k
    using readable_status_keeps[OF obeys_collect_one s] Cons.prems(2) that by simp
  ultimately show ?case using Cons.IH[of w1 cur1] s by (auto simp: act_bind_def)
qed simp

lemma tick_live:
  assumes "plain_uuid (flow_uuid fr)" and o: "run_order fr = Ok order" and nf: "no_faults w"
    and st: "\<And>j. j \<in> set order \<Longrightarrow> plain_id j \<and> readable_status cr (status_file r (flow_uuid fr) j) w
      \<and> writable (status_file r (flow_uuid fr) j) w"
    and ser: "\<And>run. \<exists>t. toml_ser_run cr run = Ok t" and q: "\<And>ids. \<exists>m. q ids = Ok m"
  shows "\<exists>res w'. tick q cr r fr w = (Ok res, w')"
proof -
  obtain cur w1 where c: "tick_collect cr r fr order w = (Ok cur, w1)"
    unfolding tick_collect_def using collect_succeeds[OF nf] st by blast
  obtain statuses where s: "query_slurm q (jobids_to_query cur) = Ok statuses"
    using q[of "jobids_to_query cur"] by (cases "jobids_to_query cur = []") (auto simp: query_slurm_def)
  have "no_faults w1"
    using obeysD[OF obeys_collect[of UNIV] c] nf no_faults_same_host unfolding changes_only_def by blast
  moreover have "writable (status_file r (flow_uuid fr) j) w1 = writable (status_file r (flow_uuid fr) j) w" for j
    using same_nodes[OF obeys_collect c] by (simp add: writable_def)
  ultimately obtain st' w2 where "act_foldM (tick_one cr r fr statuses) (cur, bt_empty) order w1 = (Ok st', w2)"
    using tick_loop_succeeds[OF _ assms(1), of w1 order r cr statuses "(cur, bt_empty)"] st ser by blast
  then show ?thesis using o c s by (simp add: tick_def act_bind_def act_lift_def)
qed

text \<open>
  A tick succeeds whenever the flow has a topological order, the status files are absent or
  readable below the size limit, nothing of the wrong kind stands in the place of a status file or
  of a directory above it, no system call fails, and the querier and the TOML serialiser answer.
\<close>

theorem tick_succeeds:
  assumes "plain_name (uuid_str (flow_uuid fr))" and "run_order fr = Ok order"
    and "\<forall>n. w_fault w n = None"
    and "\<forall>j\<in>set order. plain_name (jid j) \<and> readable_status cr (status_file r (flow_uuid fr) j) w
      \<and> writable (status_file r (flow_uuid fr) j) w"
    and "\<forall>run. \<exists>t. toml_ser_run cr run = Ok t" and "\<forall>ids. \<exists>m. q ids = Ok m"
  shows "\<exists>res w'. tick q cr r fr w = (Ok res, w')"
  using tick_live[of fr order w cr r q] assms
  by (simp add: plain_uuid_def plain_id_def no_faults_def)

subsection \<open>Submissions\<close>

definition dotless :: "JobId \<Rightarrow> bool" where
  "dotless j \<longleftrightarrow> plain_id j \<and> CHR ''.'' \<notin> set (jid j)"

lemma parsed_dotless: "parse_job_id cr (jid j) = Ok pj \<Longrightarrow> dotless j"
  using parse_job_id_chars[of cr "jid j" pj "CHR ''.''"] valid_step_not parsed_plain
  by (auto simp: dotless_def)

definition submit_dirs :: "PathResolver \<Rightarrow> Uuid \<Rightarrow> Path set" where
  \<comment> \<open>the directories a submission may need\<close>
  "submit_dirs r u = {q. q \<noteq> [] \<and> path_starts_with (jm_dir r u) q} \<union> {job_dir r u j | j. dotless j}"

definition batch_tmps :: "PathResolver \<Rightarrow> Uuid \<Rightarrow> JobId \<Rightarrow> Path set" where
  "batch_tmps r u j = {job_dir r u j @ [Normal (''.batch.bash.'' @ s)] | s. True}"

definition submit_files :: "PathResolver \<Rightarrow> Uuid \<Rightarrow> Path set" where
  \<comment> \<open>the files it writes, with their temporaries\<close>
  "submit_files r u = insert (flow_effective_toml r u) (temporaries (flow_effective_toml r u))
     \<union> (\<Union>j\<in>{j. dotless j}. {batch_bash r u j, status_file r u j} \<union> temporaries (status_file r u j)
          \<union> batch_tmps r u j)"

definition tidy :: "PathResolver \<Rightarrow> Uuid \<Rightarrow> 'x world_scheme \<Rightarrow> bool" where
  "tidy r u w \<longleftrightarrow> (\<forall>q\<in>submit_dirs r u. \<forall>s. node_at q w \<noteq> Some (File s))
     \<and> (\<forall>q\<in>submit_files r u. node_at q w \<noteq> Some Dir)"

lemma snapshot_tmp_name:
  "q \<in> temporaries (flow_effective_toml r u) \<Longrightarrow> plain_uuid u \<Longrightarrow>
    \<exists>s. q = flow_dir r u @ [Normal ''.jm'', Normal (''flow.effective.'' @ s)]"
proof -
  assume q: "q \<in> temporaries (flow_effective_toml r u)" and u: "plain_uuid u"
  then obtain e where q': "q = with_extension (flow_effective_toml r u) e" and e: "e \<noteq> []"
    by (auto simp: temporaries_def tmp_text_def)
  have "file_stem_of ''flow.effective.toml'' = ''flow.effective''" by code_simp
  moreover have "flow_effective_toml r u = (flow_dir r u @ [Normal ''.jm'']) @ [Normal ''flow.effective.toml'']"
    using u by (simp add: path_simps)
  ultimately show ?thesis
    using q' e with_extension_snoc[of e "flow_dir r u @ [Normal ''.jm'']" "''flow.effective.toml''"] by auto
qed

lemma submit_files_shape:
  assumes u: "plain_uuid u" and "q \<in> submit_files r u"
  shows "length q = length (flow_dir r u) + 3
    \<or> (\<exists>s. CHR ''.'' \<in> set s \<and> q = flow_dir r u @ [Normal ''.jm'', Normal s])"
proof -
  have snap: ?thesis if snap_q: "q = flow_effective_toml r u \<or> q \<in> temporaries (flow_effective_toml r u)"
  proof (cases "q = flow_effective_toml r u")
    case True
    then have "q = flow_dir r u @ [Normal ''.jm'', Normal ''flow.effective.toml'']"
      using u by (simp add: path_simps)
    then show ?thesis by simp
  next
    case False
    then obtain s where "q = flow_dir r u @ [Normal ''.jm'', Normal (''flow.effective.'' @ s)]"
      using snap_q snapshot_tmp_name[OF _ u] by blast
    then show ?thesis by simp
  qed
  have job: "length q = length (flow_dir r u) + 3"
    if j: "plain_id j" and q: "q = batch_bash r u j \<or> q = status_file r u j
      \<or> q \<in> temporaries (status_file r u j) \<or> q \<in> batch_tmps r u j" for j
  proof -
    have "length (job_dir r u j) = length (flow_dir r u) + 2" using u j by (simp add: path_simps)
    then show ?thesis
      using q job_paths[OF u j, of r] temporaries_length[of q "status_file r u j"]
      by (auto simp: batch_tmps_def)
  qed
  show ?thesis using assms(2) snap job unfolding submit_files_def dotless_def by blast
qed

lemma submit_disjoint:
  assumes u: "plain_uuid u"
  shows "submit_dirs r u \<inter> submit_files r u = {}"
proof -
  let ?n = "length (flow_dir r u)"
  have jm: "jm_dir r u = flow_dir r u @ [Normal ''.jm'']" using u by (simp add: path_simps)
  have d: "(length q \<le> ?n + 1) \<or> (\<exists>j. dotless j \<and> q = flow_dir r u @ [Normal ''.jm'', Normal (jid j)])"
    if "q \<in> submit_dirs r u" for q
    using that u unfolding submit_dirs_def jm
    by (auto simp: path_starts_with_def dotless_def job_dir_eq dest: arg_cong[where f = length])
  note f = submit_files_shape[OF u, of _ r]
  show ?thesis
  proof (intro equals0I)
    fix q
    assume "q \<in> submit_dirs r u \<inter> submit_files r u"
    then show False using d[of q] f[of q] by (auto simp: dotless_def)
  qed
qed

lemma tidy_shaped:
  assumes u: "plain_uuid u" and t: "tidy r u w" and s: "shaped (submit_dirs r u) (submit_files r u) w w'"
  shows "tidy r u w'"
proof -
  have "node_at q w' \<noteq> Some (File x)" if "q \<in> submit_dirs r u" for q x
  proof -
    have "q \<notin> submit_files r u" using submit_disjoint[OF u, of r] that by blast
    then have "node_at q w' = node_at q w \<or> node_at q w' = Some Dir" using s unfolding shaped_def by blast
    then show ?thesis using t that by (auto simp: tidy_def)
  qed
  moreover have "node_at q w' \<noteq> Some Dir" if "q \<in> submit_files r u" for q
  proof -
    have "q \<notin> submit_dirs r u" using submit_disjoint[OF u, of r] that by blast
    then have "node_at q w' = node_at q w \<or> node_at q w' \<noteq> Some Dir" using s unfolding shaped_def by blast
    then show ?thesis using t that unfolding tidy_def by metis
  qed
  ultimately show ?thesis by (simp add: tidy_def)
qed

lemma submit_dirs_above:
  assumes u: "plain_uuid u"
  shows "dirs_above (flow_effective_toml r u) \<subseteq> submit_dirs r u"
    and "dotless j \<Longrightarrow> dirs_above (status_file r u j) \<subseteq> submit_dirs r u"
    and "dotless j \<Longrightarrow> dirs_above (batch_bash r u j) \<subseteq> submit_dirs r u"
proof -
  have jm: "q \<in> submit_dirs r u" if "q = jm_dir r u \<or> q \<in> dirs_above (jm_dir r u)" for q
    using that u by (auto simp: submit_dirs_def dirs_above_def jm_dir_eq path_starts_with_def)
  have e: "flow_effective_toml r u = jm_dir r u @ [Normal ''flow.effective.toml'']"
    using u by (simp add: path_simps)
  show "dirs_above (flow_effective_toml r u) \<subseteq> submit_dirs r u"
    unfolding e using path_above_cases jm by blast
  have job: "dirs_above (job_dir r u j @ [c]) \<subseteq> submit_dirs r u" if "dotless j" for c j
  proof
    fix q
    assume "q \<in> dirs_above (job_dir r u j @ [c])"
    then have "q = job_dir r u j \<or> q \<in> dirs_above (job_dir r u j)" by (rule path_above_cases)
    moreover have "job_dir r u j = jm_dir r u @ [Normal (jid j)]"
      using u that by (simp add: path_simps dotless_def)
    moreover have "job_dir r u j \<in> submit_dirs r u" using that by (auto simp: submit_dirs_def)
    ultimately show "q \<in> submit_dirs r u" using path_above_cases[of q "jm_dir r u"] jm by metis
  qed
  show "dotless j \<Longrightarrow> dirs_above (status_file r u j) \<subseteq> submit_dirs r u"
    "dotless j \<Longrightarrow> dirs_above (batch_bash r u j) \<subseteq> submit_dirs r u"
    using job[of j] job_paths[OF u, of j r] by (simp_all add: dotless_def)
qed

lemma tidy_writable:
  assumes t: "tidy r u w" and "file_name p \<noteq> None" and "dirs_above p \<subseteq> submit_dirs r u"
    and "insert p (temporaries p) \<subseteq> submit_files r u"
  shows "writable p w"
  using assms unfolding tidy_def writable_def by blast

lemma write_and_sync_run:
  assumes nf: "no_faults w" and pd: "parent_is_dir tmp w" and nd: "node_at tmp w \<noteq> Some Dir"
  obtains w3 where "write_and_sync tmp b w = (Ok (), w3)" "no_faults w3" "node_at tmp w3 = Some (File b)"
    "\<And>p. p \<noteq> tmp \<Longrightarrow> node_at p w3 = node_at p w"
proof -
  have tmp: "tmp \<noteq> []" "tmp \<noteq> [RootDir]" using parent_is_dir_nonroot[OF pd] by auto
  let ?w1 = "put_node tmp (File []) (advance 1 w)"
  let ?w2 = "put_node tmp (File b) (next_step ?w1)"
  have nf1: "no_faults ?w1" and nf2: "no_faults ?w2"
    using nf by (simp_all add: no_faults_def put_node_def next_step_def)
  have "file_create tmp w = (Ok (), ?w1)" using nf pd nd by (simp add: file_create_def syscall_run)
  moreover have "write_all tmp b ?w1 = (Ok (), ?w2)" using nf1 by (simp add: write_all_def no_faults_def)
  moreover have "sync_all ?w2 = (Ok (), advance 1 ?w2)" using nf2 by (simp add: sync_all_def syscall_run)
  ultimately have "write_and_sync tmp b w = (Ok (), advance 1 ?w2)"
    by (simp add: write_and_sync_def act_bind_def act_map_err_def)
  then show thesis using nf2 tmp that[of "advance 1 ?w2"] by simp
qed

lemma install_batch_run:
  assumes nf: "no_faults w" and pd: "parent_is_dir path w" "path_parent tmp = path_parent path"
    and nd: "node_at path w \<noteq> Some Dir" "node_at tmp w \<noteq> Some Dir" and neq: "tmp \<noteq> path"
  shows "\<exists>w'. install_batch tmp path b w = (Ok (), w')"
proof -
  have "parent_is_dir tmp w" using pd by (simp add: parent_is_dir_def)
  then obtain w3 where ws: "write_and_sync tmp b w = (Ok (), w3)" and nf3: "no_faults w3"
    and t3: "node_at tmp w3 = Some (File b)" and o3: "\<And>p. p \<noteq> tmp \<Longrightarrow> node_at p w3 = node_at p w"
    using write_and_sync_run[OF nf _ nd(2)] by blast
  obtain q where q: "path_parent path = Some q" "node_at q w = Some Dir"
    using pd(1) by (auto simp: parent_is_dir_def split: option.splits)
  then have "q \<noteq> tmp" using nd(2) by auto
  then have pd3: "parent_is_dir path w3" using q o3 by (simp add: parent_is_dir_def)
  have sp: "set_permissions tmp w3 = (Ok (), advance 1 w3)" using nf3 by (simp add: set_permissions_def syscall_run)
  have "is_ok (fst (rename_file tmp path (advance 1 w3)))"
    using nf3 t3 o3 neq nd(1) pd3 by (simp add: rename_file_def syscall_run)
  then obtain w4 where "rename_file tmp path (advance 1 w3) = (Ok (), w4)"
    by (cases "rename_file tmp path (advance 1 w3)"; cases "fst (rename_file tmp path (advance 1 w3))") auto
  then show ?thesis using ws sp by (simp add: install_batch_def act_bind_def act_try_def)
qed

lemma obeys_shaped_install:
  "tmp \<in> F \<Longrightarrow> path \<in> F \<Longrightarrow> obeys (shaped D F) (install_batch tmp path b)"
  unfolding install_batch_def
  by (auto intro!: shape.obeys_bind shape.obeys_try shape.obeys_fail shape.obeys_ret
      obeys_shaped_write_and_sync obeys_shaped_ops shaped_of_reader[OF obeys_set_permissions] split: sum.split)

abbreviation submit_shape where
  "submit_shape r u \<equiv> shaped (submit_dirs r u) (submit_files r u)"

definition batch_tmp :: "'x world_scheme \<Rightarrow> PathResolver \<Rightarrow> Uuid \<Rightarrow> JobId \<Rightarrow> Path" where
  "batch_tmp w r u j =
     job_dir r u j @ [Normal (''.batch.bash.'' @ tmp_text (w_pid w) (w_clock w (w_step w)) (w_tid w))]"

lemma batch_bash_steps:
  assumes u: "plain_uuid u" and j: "plain_id j"
  shows "atomic_write_batch_bash (batch_bash r u j) b w =
    install_batch (batch_tmp w r u j) (batch_bash r u j) b (next_step w)"
proof -
  have "join_str (job_dir r u j) (''.'' @ ''batch.bash'' @ ''.'' @ tmp_text pid t tid)
      = job_dir r u j @ [Normal (''.'' @ ''batch.bash'' @ ''.'' @ tmp_text pid t tid)]" for pid t tid
    by (intro join_str_plain plain_tmp_name) (use job_paths[OF u j, of r] in auto)
  then show ?thesis
    using job_paths[OF u j, of r]
    by (simp add: atomic_write_batch_bash_def act_bind_def tmp_extension_run batch_tmp_def)
qed

lemma submit_files_job:
  assumes "dotless j"
  shows "batch_bash r u j \<in> submit_files r u" and "batch_tmp w r u j \<in> submit_files r u"
    and "insert (status_file r u j) (temporaries (status_file r u j)) \<subseteq> submit_files r u"
  using assms by (auto simp: submit_files_def batch_tmps_def batch_tmp_def)

lemma shaped_batch_bash:
  assumes u: "plain_uuid u" and j: "dotless j"
  shows "obeys (submit_shape r u) (atomic_write_batch_bash (batch_bash r u j) b)"
proof (rule obeysI)
  fix w x w'
  assume w: "atomic_write_batch_bash (batch_bash r u j) b w = (x, w')"
  have "plain_id j" using j by (simp add: dotless_def)
  from w have "install_batch (batch_tmp w r u j) (batch_bash r u j) b (next_step w) = (x, w')"
    unfolding batch_bash_steps[OF u \<open>plain_id j\<close>] .
  from obeysD[OF obeys_shaped_install[OF submit_files_job(2,1)[OF j]] this]
  show "submit_shape r u w w'" by (rule shape.R_trans[OF shaped_next_step])
qed

lemma shaped_render_job:
  assumes u: "plain_uuid (flow_uuid fr)" and j: "dotless j"
  shows "obeys (submit_shape r (flow_uuid fr)) (render_job cr r fr j)"
  unfolding render_job_def Let_def
  by (intro shape.obeys_bind shape.obeys_lift shaped_batch_bash[OF u j]
      obeys_shaped_ensure submit_dirs_above(3)[OF u j])

lemma shaped_exec: "obeys (shaped D F) (exec ex cmd)"
  by (rule obeysI) (auto simp: exec_def shaped_def same_host_def node_at_def split: prod.splits)

lemma shaped_write_toml:
  "dirs_above path \<subseteq> D \<Longrightarrow> insert path (temporaries path) \<subseteq> F \<Longrightarrow> obeys (shaped D F) (write_toml ser path)"
  unfolding write_toml_def by (intro shape.obeys_bind shape.obeys_lift obeys_shaped_atomic_write)

lemma shaped_send_job:
  assumes u: "plain_uuid (flow_uuid fr)" and j: "dotless j"
  shows "obeys (submit_shape r (flow_uuid fr)) (send_job ex cr r fr cfg sub j)"
  unfolding send_job_def write_job_run_def
  by (intro shape.obeys_bind shape.obeys_lift shape.obeys_ret shaped_exec shaped_of_reader[OF obeys_clock_now]
      shaped_write_toml submit_dirs_above(2)[OF u j] submit_files_job(3)[OF j])

lemma shaped_submit_one:
  assumes u: "plain_uuid (flow_uuid fr)" and j: "dotless j"
  shows "obeys (submit_shape r (flow_uuid fr)) (submit_one ex cr r fr dry st j)"
  unfolding submit_one_def
  by (auto split: prod.split option.split intro!: shape.obeys_bind shape.obeys_ret shape.obeys_fail
      shaped_render_job[OF u j] shaped_send_job[OF u j])

lemma batch_bash_succeeds:
  assumes nf: "no_faults w" and u: "plain_uuid u" and t: "tidy r u w" and j: "dotless j"
    and pd: "parent_is_dir (batch_bash r u j) w"
  shows "\<exists>w'. atomic_write_batch_bash (batch_bash r u j) b w = (Ok (), w')"
proof -
  let ?w = "next_step w"
  have pj: "plain_id j" using j by (simp add: dotless_def)
  have "node_at p ?w \<noteq> Some Dir" if "p \<in> submit_files r u" for p
    using t that by (simp add: tidy_def)
  then have nd: "node_at (batch_bash r u j) ?w \<noteq> Some Dir" "node_at (batch_tmp w r u j) ?w \<noteq> Some Dir"
    using submit_files_job[OF j] by blast+
  have par: "path_parent (batch_tmp w r u j) = path_parent (batch_bash r u j)"
    and ne: "batch_tmp w r u j \<noteq> batch_bash r u j"
    using job_paths[OF u pj, of r] by (simp_all add: batch_tmp_def)
  have "parent_is_dir (batch_bash r u j) ?w" and "no_faults ?w"
    using pd nf by (auto simp: parent_is_dir_def next_step_advance split: option.splits)
  from install_batch_run[OF this(2,1) par nd ne, of b] show ?thesis
    using batch_bash_steps[OF u pj] by metis
qed

lemma tidy_writables:
  assumes u: "plain_uuid u" and t: "tidy r u w"
  shows "writable (flow_effective_toml r u) w"
    and "dotless j \<Longrightarrow> writable (status_file r u j) w"
    and "dotless j \<Longrightarrow> no_faults w \<Longrightarrow> \<exists>w'. ensure_parent (batch_bash r u j) w = (Ok (), w')
      \<and> parent_is_dir (batch_bash r u j) w'"
proof -
  show "writable (flow_effective_toml r u) w"
  proof (rule tidy_writable[OF t _ submit_dirs_above(1)[OF u]])
    show "file_name (flow_effective_toml r u) \<noteq> None" using u by (simp add: path_simps file_name_def)
  qed (auto simp: submit_files_def)
  show "writable (status_file r u j) w" if "dotless j"
    by (rule tidy_writable[OF t _ submit_dirs_above(2)[OF u that] submit_files_job(3)[OF that]])
      (use that job_paths[OF u, of j r] in \<open>simp add: dotless_def\<close>)
  show "\<exists>w'. ensure_parent (batch_bash r u j) w = (Ok (), w') \<and> parent_is_dir (batch_bash r u j) w'"
    if j: "dotless j" and nf: "no_faults w"
  proof -
    have p: "plain_id j" using j by (simp add: dotless_def)
    note paths = job_paths[OF u p, of r]
    let ?d = "job_dir r u j"
    have "node_at q w \<noteq> Some (File s)" if "q \<in> set (ancestors ?d)" for q s
    proof -
      have "path_parent (batch_bash r u j) = Some ?d" using paths(1) by simp
      from ancestors_dirs_above[OF this] have "q \<in> submit_dirs r u"
        using that submit_dirs_above(3)[OF u j, of r] by blast
      then show ?thesis using t by (simp add: tidy_def)
    qed
    moreover have "q \<noteq> []" if "q \<in> set (ancestors ?d)" for q using that by (auto simp: set_ancestors)
    ultimately obtain w' where w': "act_foldM (\<lambda>_. mkdir) () (ancestors ?d) w = (Ok (), w')"
      "\<forall>q. node_at q w' = (if q \<in> set (ancestors ?d) then Some Dir else node_at q w)"
      using mkdir_fold_run[OF nf, of "ancestors ?d"] by blast
    have "?d \<in> set (ancestors ?d)" using paths(3) by (simp add: set_ancestors)
    then show ?thesis
      using w' paths
      by (intro exI[of _ w']) (simp add: ensure_parent_def create_dir_all_def act_map_err_def parent_is_dir_def)
  qed
qed

lemma render_job_succeeds:
  assumes nf: "no_faults w" and u: "plain_uuid (flow_uuid fr)" and t: "tidy r (flow_uuid fr) w"
    and pj: "parse_job_id cr (jid j) = Ok pj" and ps: "params_of fr j = Ok ps"
    and job: "bt_get (jobs (run_flow fr)) j = Some jb"
  shows "\<exists>w'. render_job cr r fr j w = (Ok (), w')"
proof -
  have j: "dotless j" using pj by (rule parsed_dotless)
  obtain w1 where e: "ensure_parent (batch_bash r (flow_uuid fr) j) w = (Ok (), w1)"
    and pd: "parent_is_dir (batch_bash r (flow_uuid fr) j) w1"
    using tidy_writables(3)[OF u t j nf] by blast
  have sh: "submit_shape r (flow_uuid fr) w w1"
    by (rule obeysD[OF obeys_shaped_ensure[OF submit_dirs_above(3)[OF u j]] e])
  then have "no_faults w1" using nf no_faults_same_host unfolding shaped_def by blast
  from batch_bash_succeeds[OF this u tidy_shaped[OF u t sh] j pd]
  show ?thesis using e ps pj job by (simp add: render_job_def act_bind_def act_lift_def Let_def)
qed

lemma more_irrelevant [simp]:
  "node_at p (world.more_update f w) = node_at p w"
  "writable p (world.more_update f w) = writable p w"
  by (simp_all add: node_at_def writable_def)

lemma writable_next [simp]: "writable p (next_step w) = writable p w"
  by (simp add: writable_def)

lemma dependency_build_parsed:
  assumes "\<forall>pairs. pairs \<noteq> [] \<and> set (map snd pairs) \<subseteq> edge_kind ` set ps \<longrightarrow>
    is_ok (dep_from_str cr (dependency_text pairs))"
  shows "is_ok (dependency_build cr ps ids j)"
proof (cases "submitted_parents ps ids = []")
  case False
  have "set (map snd (submitted_parents ps ids)) \<subseteq> edge_kind ` set ps"
    by (auto simp: submitted_parents_def in_set_map_filter)
  with assms False have "is_ok (dep_from_str cr (dependency_text (submitted_parents ps ids)))" by blast
  then show ?thesis
    by (cases "dep_from_str cr (dependency_text (submitted_parents ps ids))") (simp_all add: dependency_build_def Let_def)
qed (simp add: dependency_build_def)

lemma send_job_succeeds:
  assumes nf: "no_faults w" and u: "plain_uuid (flow_uuid fr)" and t: "tidy r (flow_uuid fr) w"
    and j: "dotless j" and ser: "\<And>run. \<exists>s. toml_ser_run cr run = Ok s"
    and dep: "\<And>ids. is_ok (dependency_build cr (parents_of fr j) ids j)" and ex: "\<And>cmd x. \<exists>i x'. ex cmd x = (Ok i, x')"
  shows "\<exists>i w'. send_job ex cr r fr cfg sub j w = (Ok i, w')"
proof -
  obtain d where d: "dependency_build cr (parents_of fr j) sub j = Ok d"
    using dep[of sub] by (cases "dependency_build cr (parents_of fr j) sub j") auto
  let ?cmd = "sbatch_cmd (batch_bash r (flow_uuid fr) j) cfg d"
  obtain i x' where e: "ex ?cmd (world.more w) = (Ok i, x')" using ex by blast
  let ?w1 = "world.more_update (\<lambda>_. x') w"
  have c: "clock_now ?w1 = (Ok (w_clock w (w_step w)) :: JobManagerError + _, next_step ?w1)"
    by (simp add: clock_now_eq)
  have "no_faults (next_step ?w1)" using nf by (simp add: no_faults_def next_step_def)
  moreover have "writable (status_file r (flow_uuid fr) j) (next_step ?w1)"
    using tidy_writables(2)[OF u t j] by simp
  ultimately obtain w2 where "write_job_run cr (status_file r (flow_uuid fr) j)
      (queued_at (w_clock w (w_step w)) i) (next_step ?w1) = (Ok (), w2)"
    using write_toml_succeeds ser[of "queued_at (w_clock w (w_step w)) i"] unfolding write_job_run_def by blast
  then show ?thesis using d e c by (simp add: send_job_def act_bind_def act_lift_def exec_def)
qed

definition submittable :: "crates \<Rightarrow> FlowRun \<Rightarrow> JobId \<Rightarrow> bool" where
  "submittable cr fr j \<longleftrightarrow> is_ok (parse_job_id cr (jid j)) \<and> is_ok (params_of fr j)
     \<and> bt_get (jobs (run_flow fr)) j \<noteq> None"

lemma submittable_dotless: "submittable cr fr j \<Longrightarrow> dotless j"
  unfolding submittable_def using parsed_dotless by (cases "parse_job_id cr (jid j)") auto

lemma submit_one_succeeds:
  assumes nf: "no_faults w" and u: "plain_uuid (flow_uuid fr)" and t: "tidy r (flow_uuid fr) w"
    and j: "submittable cr fr j" and eff: "bt_get eff j = Some cfg"
    and ser: "\<And>run. \<exists>s. toml_ser_run cr run = Ok s"
    and dep: "\<And>ids. is_ok (dependency_build cr (parents_of fr j) ids j)" and ex: "\<And>cmd x. \<exists>i x'. ex cmd x = (Ok i, x')"
  shows "\<exists>i w'. submit_one ex cr r fr False (sub, eff) j w = (Ok (bt_insert j i sub, bt_remove j eff), w')"
proof -
  obtain pj ps jb where "parse_job_id cr (jid j) = Ok pj" "params_of fr j = Ok ps"
    "bt_get (jobs (run_flow fr)) j = Some jb"
    using j by (cases "parse_job_id cr (jid j)"; cases "params_of fr j") (auto simp: submittable_def)
  from render_job_succeeds[OF nf u t this] obtain w1 where r: "render_job cr r fr j w = (Ok (), w1)" by blast
  have dj: "dotless j" using j by (rule submittable_dotless)
  have sh: "submit_shape r (flow_uuid fr) w w1" by (rule obeysD[OF shaped_render_job[OF u dj] r])
  then have "no_faults w1" using nf no_faults_same_host unfolding shaped_def by blast
  from send_job_succeeds[where ex = ex and cr = cr and cfg = cfg and sub = sub,
      OF this u tidy_shaped[OF u t sh] dj ser dep ex]
  show ?thesis using r eff by (auto simp: submit_one_def act_bind_def)
qed

lemma submit_loop_succeeds:
  assumes nf: "no_faults w" and u: "plain_uuid (flow_uuid fr)" and t: "tidy r (flow_uuid fr) w"
    and xs: "\<And>j. j \<in> set xs \<Longrightarrow> submittable cr fr j \<and> bt_get eff j \<noteq> None" and d: "distinct xs"
    and ser: "\<And>run. \<exists>s. toml_ser_run cr run = Ok s"
    and dep: "\<And>j ids. j \<in> set xs \<Longrightarrow> is_ok (dependency_build cr (parents_of fr j) ids j)"
    and ex: "\<And>cmd x. \<exists>i x'. ex cmd x = (Ok i, x')"
  shows "\<exists>st w'. act_foldM (submit_one ex cr r fr False) (sub, eff) xs w = (Ok st, w')"
  using nf t xs d dep
proof (induction xs arbitrary: sub eff w)
  case (Cons j xs)
  have dep: "is_ok (dependency_build cr (parents_of fr j) ids j)" for ids using Cons.prems(5) by simp
  have j: "submittable cr fr j" and "bt_get eff j \<noteq> None" using Cons.prems(3) by simp_all
  then obtain cfg where "bt_get eff j = Some cfg" by blast
  from submit_one_succeeds[where ex = ex and cr = cr and sub = sub,
      OF Cons.prems(1) u Cons.prems(2) j this ser dep ex]
  obtain i w1 where s: "submit_one ex cr r fr False (sub, eff) j w = (Ok (bt_insert j i sub, bt_remove j eff), w1)"
    by blast
  have sh: "submit_shape r (flow_uuid fr) w w1"
    by (rule obeysD[OF shaped_submit_one[OF u submittable_dotless[OF j]] s])
  then have nf1: "no_faults w1" using Cons.prems(1) no_faults_same_host unfolding shaped_def by blast
  have "submittable cr fr k \<and> bt_get (bt_remove j eff) k \<noteq> None" if "k \<in> set xs" for k
  proof -
    have "k \<noteq> j" using that Cons.prems(4) by auto
    then show ?thesis using Cons.prems(3)[of k] that by (simp add: bt_get_remove)
  qed
  from Cons.IH[OF nf1 tidy_shaped[OF u Cons.prems(2) sh] this] Cons.prems(4,5) s
  show ?case by (auto simp: act_bind_def)
qed simp

lemma preseed_succeeds: "\<exists>sub w'. preseed cr r fr w = (Ok sub, w')"
proof -
  have one: "\<exists>m' v'. preseed_one cr r fr m j v = (Ok m', v')" for m j and v :: "'x world_scheme"
  proof -
    let ?p = "status_file r (flow_uuid fr) j"
    obtain b v1 where "path_exists ?p v = (Ok b :: JobManagerError + _, v1)"
      by (cases "metadata ?p v") (simp add: path_exists_def)
    moreover obtain x v2 where "read_job_run cr ?p v1 = (x, v2)" by fastforce
    ultimately show ?thesis
      by (cases b) (simp_all add: preseed_one_def act_bind_def act_try_def Let_def)
  qed
  have "\<exists>sub w'. act_foldM (preseed_one cr r fr) m xs w = (Ok sub, w')" for m xs
  proof (induction xs arbitrary: m w)
    case (Cons j xs)
    obtain m1 v1 where "preseed_one cr r fr m j w = (Ok m1, v1)" using one by blast
    then show ?case using Cons.IH[of m1 v1] by (simp add: act_bind_def)
  qed simp
  then show ?thesis by (simp add: preseed_def)
qed

definition log_dirs_exist :: "PathResolver \<Rightarrow> SlurmJobConfig \<Rightarrow> 'x world_scheme \<Rightarrow> bool" where
  "log_dirs_exist r cfg w \<longleftrightarrow> (\<forall>val d. Some val \<in> {log_stdout cfg, log_stderr cfg}
     \<longrightarrow> resolve_log_dir (res_root r) val = Some d \<longrightarrow> node_at d w = Some Dir)"

lemma missing_log_dirs_none:
  assumes "no_faults w" and "log_dirs_exist r cfg w"
  shows "\<exists>w'. missing_log_dirs (res_root r) cfg w = (Ok [] :: JobManagerError + _, w')"
proof -
  have "fst (missing_log_dirs (res_root r) cfg w) = (Ok [] :: JobManagerError + _)"
    unfolding missing_log_dirs_run[OF assms(1)] using assms(2)
    by (cases "log_stdout cfg"; cases "log_stderr cfg")
      (auto simp: log_dirs_exist_def map_filter_simps split: option.split)
  then show ?thesis by (metis prod.collapse)
qed

lemma preflight_succeeds:
  assumes nf: "no_faults w"
    and xs: "\<And>j. j \<in> set xs \<Longrightarrow> \<exists>cfg. effective_config fr j = Ok cfg \<and> log_dirs_exist r cfg w"
  shows "\<exists>eff' w'. act_foldM (preflight_one r fr) eff xs w = (Ok eff', w')
    \<and> (\<forall>j. j \<in> set xs \<or> bt_get eff j \<noteq> None \<longrightarrow> bt_get eff' j \<noteq> None)"
  using nf xs
proof (induction xs arbitrary: eff w)
  case (Cons j xs)
  obtain cfg where c: "effective_config fr j = Ok cfg" "log_dirs_exist r cfg w" using Cons.prems(2) by auto
  obtain w1 where m: "missing_log_dirs (res_root r) cfg w = (Ok [] :: JobManagerError + _, w1)"
    using missing_log_dirs_none[OF Cons.prems(1) c(2)] by blast
  have s: "preflight_one r fr eff j w = (Ok (bt_insert j cfg eff), w1)"
    using c(1) m by (simp add: preflight_one_def act_bind_def act_lift_def)
  have nf1: "no_faults w1"
    using obeysD[OF obeys_missing_log_dirs[of UNIV] m] Cons.prems(1) no_faults_same_host
    unfolding changes_only_def by blast
  have "\<exists>cfg. effective_config fr k = Ok cfg \<and> log_dirs_exist r cfg w1" if "k \<in> set xs" for k
    using Cons.prems(2)[of k] that same_nodes[OF obeys_missing_log_dirs m] by (simp add: log_dirs_exist_def)
  from Cons.IH[OF nf1 this, of "bt_insert j cfg eff"] s show ?case
    by (auto simp: act_bind_def bt_get_insert split: if_splits)
qed simp

lemma log_dirs_shaped:
  assumes t: "tidy r u w" and sh: "submit_shape r u w w'" and l: "log_dirs_exist q cfg w"
  shows "log_dirs_exist q cfg w'"
proof -
  have "node_at d w' = Some Dir" if "node_at d w = Some Dir" for d
    using that sh t unfolding shaped_def tidy_def by metis
  then show ?thesis using l by (simp add: log_dirs_exist_def)
qed

lemma snapshot_succeeds:
  assumes nf: "no_faults w" and u: "plain_uuid (flow_uuid fr)" and t: "tidy r (flow_uuid fr) w"
    and ser: "toml_ser_flow cr (run_flow fr) = Ok s"
  shows "\<exists>w'. write_snapshot cr r fr w = (Ok (), w') \<and> no_faults w' \<and> tidy r (flow_uuid fr) w'
    \<and> submit_shape r (flow_uuid fr) w w'"
proof -
  let ?p = "flow_effective_toml r (flow_uuid fr)"
  let ?sh = "submit_shape r (flow_uuid fr)"
  have sub: "insert ?p (temporaries ?p) \<subseteq> submit_files r (flow_uuid fr)" by (auto simp: submit_files_def)
  obtain w1 where e: "ensure_parent ?p w = (Ok (), w1)" and nf1: "no_faults w1"
    using ensure_parent_run[OF nf tidy_writables(1)[OF u t]] by blast
  have sh1: "?sh w w1" by (rule obeysD[OF obeys_shaped_ensure[OF submit_dirs_above(1)[OF u]] e])
  have t1: "tidy r (flow_uuid fr) w1" by (rule tidy_shaped[OF u t sh1])
  obtain w2 where w2: "write_flow_effective cr ?p (run_flow fr) w1 = (Ok (), w2)"
    using write_toml_succeeds[OF nf1 tidy_writables(1)[OF u t1] ser] unfolding write_flow_effective_def by blast
  have sh2: "?sh w1 w2"
    by (rule obeysD[OF shaped_write_toml[OF submit_dirs_above(1)[OF u] sub] w2[unfolded write_flow_effective_def]])
  then have "no_faults w2" using nf1 no_faults_same_host unfolding shaped_def by blast
  then show ?thesis
    using e w2 tidy_shaped[OF u t1 sh2] shape.R_trans[OF sh1 sh2]
    by (auto simp: write_snapshot_def act_bind_def Let_def)
qed

lemma submit_live:
  assumes u: "plain_uuid (flow_uuid fr)" and o: "run_order fr = Ok order" and nf: "no_faults w"
    and t: "tidy r (flow_uuid fr) w"
    and js: "\<And>j. j \<in> set order \<Longrightarrow> is_ok (parse_job_id cr (jid j)) \<and> is_ok (params_of fr j)
      \<and> (\<exists>cfg. effective_config fr j = Ok cfg \<and> log_dirs_exist r cfg w)"
    and flow: "toml_ser_flow cr (run_flow fr) = Ok s"
    and ser: "\<And>run. \<exists>s. toml_ser_run cr run = Ok s"
    and dep: "\<And>j ids. j \<in> set order \<Longrightarrow> is_ok (dependency_build cr (parents_of fr j) ids j)"
    and ex: "\<And>cmd x. \<exists>i x'. ex cmd x = (Ok i, x')"
  shows "\<exists>submitted w'. submit ex cr r fr False w = (Ok submitted, w')"
proof -
  obtain w1 where 1: "write_snapshot cr r fr w = (Ok (), w1)" "no_faults w1" "tidy r (flow_uuid fr) w1"
    "submit_shape r (flow_uuid fr) w w1"
    using snapshot_succeeds[OF nf u t flow] by blast
  obtain sub w2 where 2: "preseed cr r fr w1 = (Ok sub, w2)" using preseed_succeeds by blast
  have sh2: "submit_shape r (flow_uuid fr) w1 w2" by (rule obeysD[OF shaped_of_reader[OF obeys_preseed] 2])
  have nf2: "no_faults w2" using sh2 1(2) no_faults_same_host unfolding shaped_def by blast
  have t2: "tidy r (flow_uuid fr) w2" by (rule tidy_shaped[OF u 1(3) sh2])
  have "\<exists>cfg. effective_config fr j = Ok cfg \<and> log_dirs_exist r cfg w2" if "j \<in> set order" for j
    using js[OF that] log_dirs_shaped[OF t 1(4)] log_dirs_shaped[OF 1(3) sh2] by blast
  from preflight_succeeds[OF nf2 this, of order bt_empty] obtain eff w3
    where 3: "preflight r fr order w2 = (Ok eff, w3)" and eff: "\<forall>j\<in>set order. bt_get eff j \<noteq> None"
    by (auto simp: preflight_def)
  have sh3: "submit_shape r (flow_uuid fr) w2 w3" by (rule obeysD[OF shaped_of_reader[OF obeys_preflight] 3])
  have nf3: "no_faults w3" using sh3 nf2 no_faults_same_host unfolding shaped_def by blast
  have "submittable cr fr j \<and> bt_get eff j \<noteq> None" if "j \<in> set order" for j
    using js[OF that] that eff run_order_sound(2)[OF o] by (auto simp: submittable_def bt_in_keys)
  from submit_loop_succeeds[where ex = ex and cr = cr and sub = sub,
      OF nf3 u tidy_shaped[OF u t2 sh3] this run_order_sound(1)[OF o] ser dep ex]
  show ?thesis using o 1(1) 2 3 by (auto simp: submit_def act_bind_def act_lift_def)
qed

text \<open>
  C13. A real submission succeeds whenever the flow has a topological order, every job has a
  well-formed id, a plan entry and existing log directories, no directory stands where the
  submission puts a file nor a file where it needs a directory, no system call fails, and the
  serialisers and the executor answer. Of the dependency parser it needs that it reads what the
  code writes for the edges of this flow: comma-separated pairs of an edge's kind and a jobid.
\<close>

theorem submit_succeeds:
  assumes "plain_name (uuid_str (flow_uuid fr))" and "run_order fr = Ok order"
    and "\<forall>n. w_fault w n = None" and "tidy r (flow_uuid fr) w"
    and "\<forall>j\<in>set order. is_ok (parse_job_id cr (jid j)) \<and> is_ok (params_of fr j)
      \<and> (\<exists>cfg. effective_config fr j = Ok cfg \<and> log_dirs_exist r cfg w)"
    and "\<exists>s. toml_ser_flow cr (run_flow fr) = Ok s" and "\<forall>run. \<exists>s. toml_ser_run cr run = Ok s"
    and "\<forall>j\<in>set order. \<forall>pairs :: (u64 \<times> DependencyType) list. pairs \<noteq> []
        \<and> set (map snd pairs) \<subseteq> edge_kind ` set (parents_of fr j) \<longrightarrow>
      is_ok (dep_from_str cr (join '','' (map (\<lambda>(i, kind). kind_str kind @ '':'' @ show_nat (unat i)) pairs)))"
    and "\<forall>cmd x. \<exists>i x'. ex cmd x = (Ok i, x')"
  shows "\<exists>submitted w'. submit ex cr r fr False w = (Ok submitted, w')"
proof -
  have u: "plain_uuid (flow_uuid fr)" using assms(1) by (simp add: plain_uuid_def)
  have nf: "no_faults w" using assms(3) by (simp add: no_faults_def)
  obtain s where "toml_ser_flow cr (run_flow fr) = Ok s" using assms(6) by blast
  moreover have "is_ok (dependency_build cr (parents_of fr j) ids j)" if "j \<in> set order" for j ids
    by (rule dependency_build_parsed, unfold dependency_text_def) (rule bspec[OF assms(8) that])
  ultimately show ?thesis
    using submit_live[where ex = ex, OF u assms(2) nf assms(4)] assms(5,7,9) by blast
qed

subsection \<open>A concrete flow: b runs after a\<close>

definition sample_run :: FlowRun where
  "sample_run = \<lparr>flow_uuid = sample_uuid, run_flow = sample_flow, run_plan = sample_plan, run_common = None\<rparr>"

definition run_with :: "Lifecycle \<Rightarrow> u64 \<Rightarrow> JobRun" where
  "run_with l i = \<lparr>lifecycle = l, updated_at = 0, slurm_jobid = Some i, slurm_status = None, run_note = None\<rparr>"

definition run_text :: "JobRun \<Rightarrow> string" where
  "run_text run = (case encode_run run of Ok t \<Rightarrow> t | Err _ \<Rightarrow> [])"

definition status_world :: "Lifecycle \<Rightarrow> Lifecycle \<Rightarrow> world" where
  \<comment> \<open>the two status files and nothing else\<close>
  "status_world la lb = quiet_world
    [(status_file sample_root sample_uuid (JobId ''a''), File (run_text (run_with la 1))),
     (status_file sample_root sample_uuid (JobId ''b''), File (run_text (run_with lb 2)))]"

lemma sample_order: "run_order sample_run = Ok [JobId ''a'', JobId ''b'']"
  by code_simp

lemma sample_keys: "bt_keys (jobs (run_flow sample_run)) = [JobId ''a'', JobId ''b'']"
  by code_simp

lemma sample_plain: "plain_uuid (flow_uuid sample_run)" "plain_id (JobId ''a'')" "plain_id (JobId ''b'')"
  by (simp_all add: sample_run_def plain_uuid_def plain_id_def, simp_all add: plain_name_def)

lemma sample_uuid_of [simp]: "flow_uuid sample_run = sample_uuid"
  by (simp add: sample_run_def)

lemma sample_restores: "restores sample_crates"
  by (simp add: restores_def sample_crates_def decode_encode_run)

lemma sample_serialises: "\<exists>t. toml_ser_run sample_crates run = Ok t"
  by (simp add: sample_crates_def encode_run_def)

lemma run_text_eq: "encode_run run = Ok (run_text run)"
  by (simp add: run_text_def encode_run_def)

lemma run_text_utf8 [simp]: "utf8 (run_text (run_with l i))"
  using encode_run_utf8[OF run_text_eq] by (simp add: run_with_def)

lemma run_text_length: "length (run_text (run_with l 1)) < 100 \<and> length (run_text (run_with l 2)) < 100"
  by (cases l) (simp_all only:, code_simp+)

lemma status_world_nodes:
  "node_at (status_file sample_root sample_uuid (JobId ''a'')) (status_world la lb) = Some (File (run_text (run_with la 1)))"
  "node_at (status_file sample_root sample_uuid (JobId ''b'')) (status_world la lb) = Some (File (run_text (run_with lb 2)))"
  "no_faults (status_world la lb)"
  "max_toml_size (status_world la lb) = DEFAULT_MAX_TOML_SIZE"
proof -
  have u: "plain_uuid sample_uuid" using sample_plain(1) by simp
  show "node_at (status_file sample_root sample_uuid (JobId ''a'')) (status_world la lb) = Some (File (run_text (run_with la 1)))"
    "node_at (status_file sample_root sample_uuid (JobId ''b'')) (status_world la lb) = Some (File (run_text (run_with lb 2)))"
    by (simp_all add: node_at_def status_world_def quiet_world_def status_file_eq[OF u] sample_plain)
qed (simp_all add: status_world_def quiet_world_def no_faults_def max_toml_size_def)

lemma status_world_other:
  "node_at q (status_world la lb) = Some n \<Longrightarrow>
    n = Dir \<and> (q = [] \<or> q = [RootDir])
    \<or> (\<exists>s. n = File s) \<and> q \<in> status_level sample_root sample_uuid"
proof -
  have u: "plain_uuid sample_uuid" using sample_plain(1) by simp
  show "node_at q (status_world la lb) = Some n \<Longrightarrow> ?thesis"
    using status_levels(2)[OF u sample_plain(2), of sample_root] status_levels(2)[OF u sample_plain(3), of sample_root]
    by (auto simp: node_at_def status_world_def quiet_world_def split: if_splits)
qed

lemma status_world_ready:
  assumes "j = JobId ''a'' \<or> j = JobId ''b''"
  shows "plain_id j \<and> readable_status sample_crates (status_file sample_root sample_uuid j) (status_world la lb)
    \<and> writable (status_file sample_root sample_uuid j) (status_world la lb)"
proof -
  have u: "plain_uuid sample_uuid" using sample_plain(1) by simp
  have j: "plain_id j" using assms sample_plain by auto
  have "readable_status sample_crates (status_file sample_root sample_uuid j) (status_world la lb)"
    using assms run_text_length[of la] run_text_length[of lb] decode_encode_run[OF run_text_eq]
    by (auto simp: readable_status_def status_world_nodes DEFAULT_MAX_TOML_SIZE_def sample_crates_def)
  moreover have "writable (status_file sample_root sample_uuid j) (status_world la lb)"
    unfolding writable_def
  proof (intro conjI ballI allI)
    show "file_name (status_file sample_root sample_uuid j) \<noteq> None"
      using job_paths[OF u j, of sample_root] by simp
    show "node_at q (status_world la lb) \<noteq> Some (File s)"
      if "q \<in> dirs_above (status_file sample_root sample_uuid j)" for q s
      using that status_levels(1)[OF u j, of sample_root] levels_disjoint[of sample_root sample_uuid]
        status_world_other[of q la lb "File s"] by auto
    show "node_at q (status_world la lb) \<noteq> Some Dir"
      if "q \<in> insert (status_file sample_root sample_uuid j) (temporaries (status_file sample_root sample_uuid j))" for q
    proof -
      have "q \<in> status_level sample_root sample_uuid" using that status_levels(2)[OF u j, of sample_root] by blast
      then have "length q > 1" by (simp add: status_level_def)
      then show ?thesis using status_world_other[of q la lb Dir] by auto
    qed
  qed
  ultimately show ?thesis using j by blast
qed

lemma sample_tick:
  assumes "\<And>ids. \<exists>m. q ids = Ok m"
  obtains res w' where "tick q sample_crates sample_root sample_run (status_world la lb) = (Ok res, w')"
  using tick_live[OF sample_plain(1) sample_order status_world_nodes(3)[of la lb] _ sample_serialises,
      where q = q and r = sample_root]
    status_world_ready assms
  by auto

lemma tick_succeeds_witness:
  "\<exists>res w'. tick (in_memory_query Map.empty) sample_crates sample_root sample_run (status_world Failed Queued) = (Ok res, w')"
proof (rule tick_succeeds[OF _ sample_order])
  show "\<forall>j\<in>set [JobId ''a'', JobId ''b'']. plain_name (jid j)
      \<and> readable_status sample_crates (status_file sample_root (flow_uuid sample_run) j) (status_world Failed Queued)
      \<and> writable (status_file sample_root (flow_uuid sample_run) j) (status_world Failed Queued)"
    using status_world_ready by (simp add: plain_id_def)
qed (use sample_plain(1) status_world_nodes(3)[of Failed Queued] sample_serialises in
    \<open>simp_all add: plain_uuid_def no_faults_def in_memory_query_def\<close>)

lemma sample_hyps:
  "plain_name (uuid_str (flow_uuid sample_run))"
  "\<forall>k\<in>set (bt_keys (jobs (run_flow sample_run))). plain_name (jid k)"
  "\<forall>run t. toml_ser_run sample_crates run = Ok t \<longrightarrow> toml_de_run sample_crates t = Ok run"
  "\<forall>n. w_fault (status_world la lb) n = None"
  "JobId ''b'' \<in> set (bt_keys (jobs (run_flow sample_run)))"
  using sample_plain sample_restores status_world_nodes(3)[of la lb]
  by (simp_all add: sample_keys plain_uuid_def plain_id_def restores_def no_faults_def)

lemma sample_life:
  "life_at sample_crates sample_root sample_uuid (status_world la lb) (JobId ''a'') = Some la"
  "life_at sample_crates sample_root sample_uuid (status_world la lb) (JobId ''b'') = Some lb"
  using decode_encode_run[OF run_text_eq]
  by (simp_all add: life_at_def status_at_def status_world_nodes sample_crates_def run_with_def)

lemma tick_steps_witness:
  "\<exists>res w'. tick (in_memory_query Map.empty) sample_crates sample_root sample_run (status_world Failed Queued) = (Ok res, w')
    \<and> life_at sample_crates sample_root sample_uuid w' (JobId ''a'') = Some Failed"
proof -
  obtain res w' where t: "tick (in_memory_query Map.empty) sample_crates sample_root sample_run
      (status_world Failed Queued) = (Ok res, w')"
    using sample_tick[of "in_memory_query Map.empty" Failed Queued] by (auto simp: in_memory_query_def)
  have "JobId ''a'' \<in> set (bt_keys (jobs (run_flow sample_run)))" by (simp add: sample_keys)
  from tick_steps[OF sample_hyps(1-3) t this] sample_life(1)[of Failed Queued]
  show ?thesis using t by (intro exI[of _ res] exI[of _ w']) (auto simp: life_at_def elim: life_step_from)
qed

lemma tick_settles_witness:
  "\<exists>res w'. tick (in_memory_query Map.empty) sample_crates sample_root sample_run (status_world Failed Queued) = (Ok res, w')
    \<and> bt_get (transitions res) (JobId ''a'') = None
    \<and> life_at sample_crates sample_root sample_uuid w' (JobId ''a'') = Some Failed"
proof -
  obtain res w' where t: "tick (in_memory_query Map.empty) sample_crates sample_root sample_run
      (status_world Failed Queued) = (Ok res, w')"
    using sample_tick[of "in_memory_query Map.empty" Failed Queued] by (auto simp: in_memory_query_def)
  have k: "JobId ''a'' \<in> set (bt_keys (jobs (run_flow sample_run)))" by (simp add: sample_keys)
  obtain run where run: "status_at sample_crates sample_root (flow_uuid sample_run) (status_world Failed Queued) (JobId ''a'') = Some run"
    and f: "lifecycle run = Failed" using sample_life(1)[of Failed Queued] by (auto simp: life_at_def)
  note all = tick_settles[OF sample_hyps(1-4) t]
  have "bt_get (transitions res) (JobId ''a'') = None
    \<and> life_at sample_crates sample_root (flow_uuid sample_run) w' (JobId ''a'') = Some Failed"
    using all k run f by (elim exE conjE) (drule (1) bspec, simp)
  then show ?thesis using t by (intro exI[of _ res] exI[of _ w']) simp
qed

lemma tick_skips_downstream_witness:
  "\<exists>res w'. tick (in_memory_query Map.empty) sample_crates sample_root sample_run (status_world Failed Queued) = (Ok res, w')
    \<and> life_at sample_crates sample_root sample_uuid w' (JobId ''b'') = Some Skipped"
proof -
  obtain res w' where t: "tick (in_memory_query Map.empty) sample_crates sample_root sample_run
      (status_world Failed Queued) = (Ok res, w')"
    using sample_tick[of "in_memory_query Map.empty" Failed Queued] by (auto simp: in_memory_query_def)
  have k: "JobId ''a'' \<in> set (bt_keys (jobs (run_flow sample_run)))" by (simp add: sample_keys)
  have "life_at sample_crates sample_root sample_uuid w' (JobId ''a'') = Some Failed"
    using tick_moved[OF sample_restores sample_plain(1) _ t k] sample_hyps(2) sample_life(1)[of Failed Queued]
    by (auto simp: life_at_def moved_def plain_id_def elim: life_step_from)
  moreover have "\<lparr>edge_from = JobId ''a'', edge_kind = DependencyType ''afterok''\<rparr> \<in> set (parents_of sample_run (JobId ''b''))"
    by code_simp
  ultimately show ?thesis
    using tick_skips_downstream[OF sample_hyps(1-4) t, of "JobId ''b''"] sample_life(2)[of Failed Queued] t by fastforce
qed

lemma settled_collect:
  assumes "no_faults w" and "node_at p w = Some (File (run_text run))" and "p = status_file r (flow_uuid fr) j"
    and "length (run_text run) \<le> unat (max_toml_size w)" and "utf8 (run_text run)"
  shows "tick_collect_one sample_crates r fr cur j w = (Ok (bt_insert j run cur), advance 3 w)"
proof -
  have "toml_de_run sample_crates (run_text run) = Ok run"
    using decode_encode_run[OF run_text_eq] by (simp add: sample_crates_def)
  then show ?thesis
    using assms
    by (simp add: tick_collect_one_def Let_def act_bind_def path_exists_run read_job_run_succeeds numeral_3_eq_3)
qed

lemma settled_tick:
  "\<exists>res k'. tick (in_memory_query Map.empty) sample_crates sample_root sample_run (advance k (status_world Success Success))
    = (Ok res, advance k' (status_world Success Success))"
proof -
  let ?w = "status_world Success Success"
  have c: "tick_collect_one sample_crates sample_root sample_run cur (JobId ''a'') (advance n ?w)
      = (Ok (bt_insert (JobId ''a'') (run_with Success 1) cur), advance (n + 3) ?w)"
    "tick_collect_one sample_crates sample_root sample_run cur (JobId ''b'') (advance n ?w)
      = (Ok (bt_insert (JobId ''b'') (run_with Success 2) cur), advance (n + 3) ?w)" for n cur
    using run_text_length[of Success]
    by (subst settled_collect[OF _ _ refl];
        simp add: status_world_nodes DEFAULT_MAX_TOML_SIZE_def)+
  have "jobids_to_query (bt_insert (JobId ''b'') (run_with Success 2) (bt_insert (JobId ''a'') (run_with Success 1) bt_empty)) = []"
    by code_simp
  then show ?thesis
    by (simp add: tick_def tick_collect_def sample_order act_bind_def act_lift_def c query_slurm_def
        tick_one_def run_with_def bt_get_insert) blast
qed

lemma tick_converges_witness:
  "\<exists>r3 w2 w3. tick (in_memory_query Map.empty) sample_crates sample_root sample_run w2 = (Ok r3, w3)
    \<and> (\<exists>k. w2 = advance k (status_world Success Success))
    \<and> life_at sample_crates sample_root sample_uuid w3 (JobId ''b'')
      = life_at sample_crates sample_root sample_uuid w2 (JobId ''b'')"
proof -
  let ?q = "in_memory_query Map.empty" and ?w = "status_world Success Success"
  obtain r1 k1 where 1: "tick ?q sample_crates sample_root sample_run (advance 0 ?w) = (Ok r1, advance k1 ?w)"
    using settled_tick by blast
  obtain r2 k2 where 2: "tick ?q sample_crates sample_root sample_run (advance k1 ?w) = (Ok r2, advance k2 ?w)"
    using settled_tick by blast
  obtain r3 k3 where 3: "tick ?q sample_crates sample_root sample_run (advance k2 ?w) = (Ok r3, advance k3 ?w)"
    using settled_tick by blast
  have "\<forall>n. w_fault (advance 0 ?w) n = None" using sample_hyps(4)[of Success Success] by simp
  moreover have "\<forall>ids m. ?q ids = Ok m \<longrightarrow> (\<forall>i\<in>set ids. m i = Map.empty i)"
    by (simp add: in_memory_query_restrict)
  ultimately have "life_at sample_crates sample_root (flow_uuid sample_run) (advance k3 ?w) (JobId ''b'')
      = life_at sample_crates sample_root (flow_uuid sample_run) (advance k2 ?w) (JobId ''b'')"
    by (rule tick_converges[OF sample_hyps(1-3) _ _ 1 2 3 sample_hyps(5)])
  then show ?thesis using 3 by auto
qed

subsection \<open>The submissions of that flow\<close>

definition log_world :: "(unit \<times> SbatchCmd list) world_scheme" where
  \<comment> \<open>an empty file system, and an executor that has logged nothing\<close>
  "log_world = world.extend (quiet_world []) ((), [])"

lemma log_world_node: "node_at q log_world = Some n \<Longrightarrow> n = Dir \<and> length q \<le> 1"
  by (auto simp: node_at_def log_world_def quiet_world_def world.defs split: if_splits)

lemma log_world_quiet: "w_fault log_world n = None" "world.more log_world = ((), [])"
  by (simp_all add: log_world_def quiet_world_def world.defs)

lemma log_world_tidy: "plain_uuid u \<Longrightarrow> tidy r u log_world"
  unfolding tidy_def using log_world_node submit_files_shape by fastforce

lemma sample_jobs_ready:
  assumes "j \<in> set [JobId ''a'', JobId ''b'']"
  shows "is_ok (parse_job_id sample_crates (jid j)) \<and> is_ok (params_of sample_run j)
    \<and> (\<exists>cfg. effective_config sample_run j = Ok cfg \<and> log_dirs_exist sample_root cfg log_world)"
proof -
  have "is_ok (parse_job_id sample_crates ''a'') \<and> is_ok (params_of sample_run (JobId ''a''))
      \<and> is_ok (parse_job_id sample_crates ''b'') \<and> is_ok (params_of sample_run (JobId ''b''))" by code_simp
  moreover have "effective_config sample_run (JobId ''a'') = Ok plain_config
      \<and> effective_config sample_run (JobId ''b'') = Ok plain_config" by code_simp
  moreover have "log_dirs_exist sample_root plain_config log_world"
    by (simp add: log_dirs_exist_def plain_config_def)
  ultimately show ?thesis using assms by auto
qed

lemma sample_submit:
  obtains submitted w' where
    "submit (logged (dry_run_executor sample_crates)) sample_crates sample_root sample_run False log_world = (Ok submitted, w')"
proof -
  have "toml_ser_flow sample_crates (run_flow sample_run) = Ok ''FLOW''" by (simp add: sample_crates_def)
  moreover have "is_ok (dependency_build sample_crates ps ids j)" for ps ids j
    by (rule dependency_build_parsed) (simp add: sample_crates_def)
  moreover have "\<exists>i x'. logged (dry_run_executor sample_crates) cmd x = (Ok i, x')" for cmd and x :: "unit \<times> SbatchCmd list"
    by (cases x) (simp add: logged_def dry_run_executor_def)
  moreover have "no_faults log_world" using log_world_quiet(1) by (simp add: no_faults_def)
  ultimately show thesis
    using submit_live[OF sample_plain(1) sample_order _ log_world_tidy[OF sample_plain(1)] sample_jobs_ready
        _ sample_serialises, where ex = "logged (dry_run_executor sample_crates)"] that by blast
qed

lemma submit_succeeds_witness:
  "\<exists>submitted w'. submit (logged (dry_run_executor sample_crates)) sample_crates sample_root sample_run False log_world = (Ok submitted, w')"
proof (rule submit_succeeds[OF _ sample_order])
  show "\<forall>j\<in>set [JobId ''a'', JobId ''b'']. is_ok (parse_job_id sample_crates (jid j)) \<and> is_ok (params_of sample_run j)
      \<and> (\<exists>cfg. effective_config sample_run j = Ok cfg \<and> log_dirs_exist sample_root cfg log_world)"
    using sample_jobs_ready by blast
  show "tidy sample_root (flow_uuid sample_run) log_world" using log_world_tidy sample_plain(1) by simp
  show "\<forall>run. \<exists>s. toml_ser_run sample_crates run = Ok s" using sample_serialises by blast
qed (use sample_plain(1) log_world_quiet in
    \<open>simp_all add: plain_uuid_def sample_crates_def logged_def dry_run_executor_def\<close>)


lemma submit_commands_witness:
  "\<exists>submitted w' ca cb. submit (logged (dry_run_executor sample_crates)) sample_crates sample_root sample_run False log_world = (Ok submitted, w')
    \<and> snd (world.more w') = [ca, cb]
    \<and> cmd_script ca = batch_bash sample_root sample_uuid (JobId ''a'')
    \<and> cmd_script cb = batch_bash sample_root sample_uuid (JobId ''b'')"
proof -
  obtain submitted w' where s: "submit (logged (dry_run_executor sample_crates)) sample_crates sample_root sample_run False log_world
      = (Ok submitted, w')" by (rule sample_submit)
  from submit_commands[OF _ s] sample_plain(1) show ?thesis
    using s by (auto simp: plain_uuid_def sample_order log_world_quiet list_all2_Cons1 sbatch_cmd_def)
qed

lemma submit_statuses_witness:
  "\<exists>submitted w' i text. submit (logged (dry_run_executor sample_crates)) sample_crates sample_root sample_run False log_world = (Ok submitted, w')
    \<and> bt_get submitted (JobId ''b'') = Some i
    \<and> node_at (status_file sample_root sample_uuid (JobId ''b'')) w' = Some (File text)"
proof -
  obtain submitted w' where s: "submit (logged (dry_run_executor sample_crates)) sample_crates sample_root sample_run False log_world
      = (Ok submitted, w')" by (rule sample_submit)
  from submit_statuses[OF _ s, of "JobId ''b''"] sample_plain(1) show ?thesis
    using s by (auto simp: plain_uuid_def sample_keys)
qed

lemma sample_jm_dir: "jm_dir sample_root sample_uuid =
    [RootDir, Normal ''data'', Normal (uuid_str sample_uuid), Normal ''.jm'']"
  by code_simp

lemma submit_frame_witness:
  "node_at [RootDir, Normal ''etc''] (snd (submit (logged (dry_run_executor sample_crates)) sample_crates sample_root sample_run False log_world))
    = node_at [RootDir, Normal ''etc''] log_world"
  by (rule submit_frame[OF _ prod.collapse[symmetric]])
    (use sample_plain(1) in \<open>simp_all add: plain_uuid_def sample_jm_dir path_starts_with_def\<close>)

lemma dry_run_inert_witness:
  "world.more (snd (submit (logged (dry_run_executor sample_crates)) sample_crates sample_root sample_run True log_world)) = ((), [])"
  using dry_run_inert[OF _ prod.collapse[symmetric], of sample_run "logged (dry_run_executor sample_crates)" sample_crates sample_root log_world]
    sample_plain(1)
  by (simp add: plain_uuid_def log_world_quiet)

definition unlogged_run :: FlowRun where
  \<comment> \<open>the flow with a default log file in a directory that is not there\<close>
  "unlogged_run = sample_run\<lparr>run_common := Some \<lparr>slurm_default = logs_config, project_root = ''.''\<rparr>\<rparr>"

lemma preflight_before_calls_witness:
  "is_err (fst (submit (logged (dry_run_executor sample_crates)) sample_crates sample_root unlogged_run False log_world))
    \<and> snd (world.more (snd (submit (logged (dry_run_executor sample_crates)) sample_crates sample_root unlogged_run False log_world))) = []"
proof -
  let ?d = "[RootDir, Normal ''data'', Normal ''logs'']"
  have uuid: "flow_uuid unlogged_run = sample_uuid" by (simp add: unlogged_run_def)
  have c: "effective_config unlogged_run (JobId ''a'') = Ok logs_config" by code_simp
  have d: "resolve_log_dir (res_root sample_root) ''logs/%x/%j.out'' = Some ?d" by code_simp
  have "node_at ?d log_world = None" using log_world_node[of ?d] by (cases "node_at ?d log_world") auto
  moreover have "?d \<notin> write_set (flow_effective_toml sample_root sample_uuid)"
  proof -
    have e: "flow_effective_toml sample_root sample_uuid
        = [RootDir, Normal ''data'', Normal (uuid_str sample_uuid), Normal ''.jm'', Normal ''flow.effective.toml'']"
      by code_simp
    have "?d \<notin> temporaries (flow_effective_toml sample_root sample_uuid)"
      using temporaries_length[of ?d "flow_effective_toml sample_root sample_uuid"] by (auto simp: e)
    moreover have "uuid_str sample_uuid \<noteq> ''logs''" by (simp add: sample_uuid_def)
    ultimately show ?thesis by (simp add: write_set_def dirs_above_def path_starts_with_def e)
  qed
  moreover have "JobId ''a'' \<in> set (bt_keys (jobs (run_flow unlogged_run)))" by code_simp
  ultimately show ?thesis
    using preflight_before_calls[OF _ c _ d _ _ prod.collapse[symmetric],
        where ex = "logged (dry_run_executor sample_crates)" and cr = sample_crates and w = log_world]
    by (simp add: uuid logs_config_def log_world_quiet)
qed

end
