(* ===== verification/Reading.thy ===== *)
theory Reading
  imports FlowRun Slurm
begin

section \<open>Read-only code\<close>

text \<open>
  When no system call fails, code that only reads is a function of the file system: running it
  earlier or later gives the same value, and it leaves the world as it was but for the number of
  system calls made. \<open>steady\<close> says so of an action, \<open>val\<close> is its value, and the lemmas
  compute the value of a composed action from those of its parts. Listing, view and doctor are
  evaluated with them.
\<close>

definition steady :: "('x world_scheme, 'e, 'a) act \<Rightarrow> bool" where
  "steady m \<longleftrightarrow> (\<forall>w. no_faults w \<longrightarrow>
     (\<exists>k. snd (m w) = advance k w) \<and> (\<forall>k. fst (m (advance k w)) = fst (m w)))"

definition val :: "('x world_scheme, 'e, 'a) act \<Rightarrow> 'x world_scheme \<Rightarrow> 'e + 'a" where
  "val m w = fst (m w)"

named_theorems steady_intros "actions that only read"
named_theorems val_simps "their values"

lemma advance_zero [simp]: "advance 0 w = w"
  by (simp add: advance_def)

lemma steadyI:
  "(\<And>w. no_faults w \<Longrightarrow> \<exists>k. m w = (f w, advance k w)) \<Longrightarrow>
    (\<And>w k. no_faults w \<Longrightarrow> f (advance k w) = f w) \<Longrightarrow> steady m"
  unfolding steady_def by (metis advance_simps(3) fst_conv snd_conv)

lemma steady_run: "steady m \<Longrightarrow> no_faults w \<Longrightarrow> \<exists>k. m w = (val m w, advance k w)"
  unfolding steady_def val_def by (metis prod.collapse)

lemma steady_val: "steady m \<Longrightarrow> no_faults w \<Longrightarrow> val m (advance k w) = val m w"
  by (simp add: steady_def val_def)

lemma steady_ret [steady_intros]: "steady (ret x)"
  by (rule steadyI[of _ "\<lambda>_. Ok x"]) (auto intro: exI[of _ 0])

lemma steady_fail [steady_intros]: "steady (fail e)"
  by (rule steadyI[of _ "\<lambda>_. Err e"]) (auto intro: exI[of _ 0])

lemma steady_lift [steady_intros]: "steady (act_lift r)"
  by (rule steadyI[of _ "\<lambda>_. r"]) (auto simp: act_lift_def intro: exI[of _ 0])

lemma bind_run:
  assumes "steady m" and "\<And>x. steady (f x)" and nf: "no_faults w"
  shows "\<exists>k. act_bind m f w = (res_bind (val m w) (\<lambda>x. val (f x) w), advance k w)"
proof -
  obtain k where m: "m w = (val m w, advance k w)" using steady_run[OF assms(1) nf] by blast
  show ?thesis
  proof (cases "val m w")
    case (Inl e)
    then show ?thesis using m by (auto simp: act_bind_def)
  next
    case (Inr x)
    have "no_faults (advance k w)" using nf by simp
    then obtain k' where "f x (advance k w) = (val (f x) (advance k w), advance k' (advance k w))"
      using steady_run[OF assms(2)] by blast
    then show ?thesis
      using m Inr steady_val[OF assms(2) nf] by (auto simp: act_bind_def)
  qed
qed

lemma steady_bind [steady_intros]:
  assumes "steady m" and "\<And>x. steady (f x)"
  shows "steady (act_bind m f)"
  by (rule steadyI[OF bind_run[OF assms]]) (use assms in \<open>simp_all add: steady_val\<close>)

lemma val_bind [val_simps]:
  "steady m \<Longrightarrow> (\<And>x. steady (f x)) \<Longrightarrow> no_faults w \<Longrightarrow>
    val (act_bind m f) w = res_bind (val m w) (\<lambda>x. val (f x) w)"
  using bind_run[of m f w] by (auto simp: val_def)

lemma steady_try [steady_intros]:
  assumes "steady m"
  shows "steady (act_try m)"
  by (rule steadyI[of _ "\<lambda>w. Ok (val m w)"])
    (use steady_run[OF assms] steady_val[OF assms] in \<open>force simp: act_try_def split: prod.split\<close>)+

lemma steady_map_err [steady_intros]:
  assumes "steady m"
  shows "steady (act_map_err f m)"
  by (rule steadyI[of _ "\<lambda>w. map_err f (val m w)"])
    (use steady_run[OF assms] steady_val[OF assms] in \<open>force simp: act_map_err_def split: prod.split\<close>)+

lemma steady_if [steady_intros]: "steady a \<Longrightarrow> steady b \<Longrightarrow> steady (if c then a else b)"
  by simp

lemma steady_foldM [steady_intros]: "(\<And>acc x. steady (f acc x)) \<Longrightarrow> steady (act_foldM f acc xs)"
  by (induction xs arbitrary: acc) (simp_all add: steady_ret steady_bind)

lemma val_basic [val_simps]:
  "val (ret x) w = Ok x"
  "val (fail e) w = Err e"
  "val (act_lift r) w = r"
  "val (act_try m) w = Ok (val m w)"
  "val (act_map_err f m) w = map_err f (val m w)"
  by (simp_all add: val_def act_lift_def act_try_def act_map_err_def split: prod.split)

lemma val_foldM_Cons:
  "(\<And>acc x. steady (f acc x)) \<Longrightarrow> no_faults w \<Longrightarrow>
    val (act_foldM f acc (x # xs)) w = res_bind (val (f acc x) w) (\<lambda>acc'. val (act_foldM f acc' xs) w)"
  by (simp add: val_bind steady_foldM)

text \<open>A loop that only ever appends what its body computes, and one whose body may fail.\<close>

lemma val_foldM_append:
  assumes "\<And>acc x. steady (f acc x)" and "\<And>acc x. val (f acc x) w = Ok (acc @ g x)" and "no_faults w"
  shows "val (act_foldM f acc xs) w = Ok (acc @ concat (map g xs))"
proof (induction xs arbitrary: acc)
  case (Cons x xs)
  then show ?case unfolding val_foldM_Cons[OF assms(1,3)] using assms(2)[of acc x] by simp
qed (simp add: val_basic)

lemma val_foldM_fold:
  assumes "\<And>acc x. steady (f acc x)" and "\<And>acc x. val (f acc x) w = Ok (g x acc)" and "no_faults w"
  shows "val (act_foldM f acc xs) w = Ok (fold g xs acc)"
proof (induction xs arbitrary: acc)
  case (Cons x xs)
  then show ?case unfolding val_foldM_Cons[OF assms(1,3)] using assms(2)[of acc x] by simp
qed (simp add: val_basic)

subsection \<open>The system calls that read\<close>

definition dir_entry :: "Path \<Rightarrow> ('x, Path) sys" where
  \<comment> \<open>the next entry of a listing: reading it may fail on its own\<close>
  "dir_entry q = syscall (\<lambda>w. (Ok q, w))"

lemma steady_syscall:
  assumes "\<And>w. f w = (g w, w)" and "\<And>w k. g (advance k w) = g w"
  shows "steady (syscall f)" and "no_faults w \<Longrightarrow> val (syscall f) w = g w"
proof -
  show "steady (syscall f)"
    by (rule steadyI[of _ g]) (use assms in \<open>auto simp: syscall_run\<close>)
  show "no_faults w \<Longrightarrow> val (syscall f) w = g w" using assms by (simp add: val_def syscall_run)
qed

lemma metadata_steady [steady_intros]: "steady (metadata p)"
  and val_metadata [val_simps]: "no_faults w \<Longrightarrow>
    val (metadata p) w = (case node_at p w of None \<Rightarrow> Err (no_entry p w) | Some n \<Rightarrow> Ok n)"
  unfolding metadata_def
  by (rule steady_syscall[where g = "\<lambda>w. case node_at p w of None \<Rightarrow> Err (no_entry p w) | Some n \<Rightarrow> Ok n"];
      simp split: option.split)+

lemma path_exists_steady [steady_intros]: "steady (path_exists p)"
  and val_path_exists [val_simps]: "no_faults w \<Longrightarrow> val (path_exists p) w = Ok (node_at p w \<noteq> None)"
proof -
  show "steady (path_exists p)"
    by (rule steadyI[of _ "\<lambda>w. Ok (node_at p w \<noteq> None)"]) (auto simp: path_exists_run)
  show "no_faults w \<Longrightarrow> val (path_exists p) w = Ok (node_at p w \<noteq> None)"
    by (simp add: val_def path_exists_run)
qed

definition is_file_node :: "node option \<Rightarrow> bool" where
  "is_file_node n = (case n of Some (File _) \<Rightarrow> True | _ \<Rightarrow> False)"

lemma path_is_dir_run: "no_faults w \<Longrightarrow> path_is_dir p w = (Ok (node_at p w = Some Dir), advance 1 w)"
  by (auto simp: path_is_dir_def metadata_def syscall_run split: option.split)

lemma path_is_file_run: "no_faults w \<Longrightarrow> path_is_file p w = (Ok (is_file_node (node_at p w)), advance 1 w)"
  by (auto simp: path_is_file_def metadata_def syscall_run is_file_node_def split: option.split)

lemma path_is_dir_steady [steady_intros]: "steady (path_is_dir p)"
  by (rule steadyI[of _ "\<lambda>w. Ok (node_at p w = Some Dir)"]) (auto simp: path_is_dir_run)

lemma path_is_file_steady [steady_intros]: "steady (path_is_file p)"
  by (rule steadyI[of _ "\<lambda>w. Ok (is_file_node (node_at p w))"]) (auto simp: path_is_file_run)

lemma val_path_is [val_simps]:
  "no_faults w \<Longrightarrow> val (path_is_dir p) w = Ok (node_at p w = Some Dir)"
  "no_faults w \<Longrightarrow> val (path_is_file p) w = Ok (is_file_node (node_at p w))"
  by (simp_all add: val_def path_is_dir_run path_is_file_run)

lemma dir_entry_steady [steady_intros]: "steady (dir_entry q)"
  and val_dir_entry [val_simps]: "no_faults w \<Longrightarrow> val (dir_entry q) w = Ok q"
  unfolding dir_entry_def by (rule steady_syscall[where g = "\<lambda>_. Ok q"]; simp)+

definition children :: "Path \<Rightarrow> 'x world_scheme \<Rightarrow> Path list" where
  \<comment> \<open>in the order of the listing\<close>
  "children p w = filter (\<lambda>q. path_parent q = Some p) (remdups (map fst (w_fs w)))"

definition listing_of :: "Path \<Rightarrow> 'x world_scheme \<Rightarrow> IoError + Path list" where
  "listing_of p w = (case node_at p w of
      Some Dir \<Rightarrow> Ok (children p w)
    | Some (File _) \<Rightarrow> Err (io_error NotADirectory)
    | None \<Rightarrow> Err (no_entry p w))"

lemma children_advance [simp]: "children p (advance k w) = children p w"
  by (simp add: children_def advance_def)

lemma listing_of_advance [simp]: "listing_of p (advance k w) = listing_of p w"
  by (simp add: listing_of_def split: option.split node.split)

lemma read_dir_steady [steady_intros]: "steady (read_dir p)"
  and val_read_dir [val_simps]: "no_faults w \<Longrightarrow> val (read_dir p) w = listing_of p w"
  unfolding read_dir_def
  by (rule steady_syscall[where g = "listing_of p"];
      simp add: listing_of_def children_def split: option.split node.split)+

definition text_at :: "Path \<Rightarrow> 'x world_scheme \<Rightarrow> JobManagerError + string" where
  \<comment> \<open>what a size-limited read gives\<close>
  "text_at p w = (case node_at p w of
      None \<Rightarrow> Err (Io p (no_entry p w))
    | Some n \<Rightarrow>
        if unat (max_toml_size w) < node_len w p n
        then Err (FileTooLarge p (node_len w p n) (unat (max_toml_size w)))
        else (case n of Dir \<Rightarrow> Err (Io p (io_error IsADirectory))
              | File s \<Rightarrow> if utf8 s then Ok s else Err (Io p (io_error InvalidData))))"

lemma max_toml_size_advance [simp]: "max_toml_size (advance k w) = max_toml_size w"
  by (simp add: max_toml_size_def)

lemma text_at_advance [simp]: "text_at p (advance k w) = text_at p w"
  by (simp add: text_at_def split: option.split node.split)

lemma text_at_kept:
  assumes "text_at p w = Ok t" and "node_at p w' = node_at p w" and "same_host w w'"
  shows "text_at p w' = Ok t"
  using assms max_toml_size_host[OF assms(3)]
  by (auto simp: text_at_def node_len_def same_host_def split: option.splits node.splits if_splits)

lemma read_toml_string_val: "no_faults w \<Longrightarrow> \<exists>k. read_toml_string p w = (text_at p w, advance k w)"
  by (cases "node_at p w")
    (auto simp: read_toml_string_def text_at_def act_bind_def act_map_err_def metadata_def read_to_string_def
      syscall_run Let_def node_len_def split: node.split)

lemma read_toml_string_steady [steady_intros]: "steady (read_toml_string p)"
  by (rule steadyI[OF read_toml_string_val]) simp_all

lemma val_read_toml_string [val_simps]: "no_faults w \<Longrightarrow> val (read_toml_string p) w = text_at p w"
  using read_toml_string_val[of w p] by (auto simp: val_def)

lemma readers_steady [steady_intros]:
  "steady (read_toml de path)" "steady (read_common cr path)" "steady (read_plan cr path)"
  "steady (read_job_run cr path)" "steady (read_flow cr path common)" "steady (read_flow_effective cr path)"
  unfolding read_toml_def read_common_def read_plan_def read_job_run_def read_flow_def read_flow_effective_def Let_def
  by (intro steady_intros)+

lemma val_read_toml [val_simps]:
  "no_faults w \<Longrightarrow> val (read_toml de path) w = res_bind (text_at path w) (\<lambda>t. map_err (TomlParse path) (de t))"
  by (simp add: read_toml_def val_simps steady_intros)

lemma missing_log_dirs_steady [steady_intros]: "steady (missing_log_dirs root cfg)"
  unfolding missing_log_dirs_def
  by (intro steady_foldM) (auto split: option.split intro!: steady_intros)

end
