(* ===== verification/Walk.thy ===== *)
theory Walk
  imports Reading "HOL-Library.Multiset"
begin

section \<open>Walking the flows and viewing a job (walk.rs, view.rs, concurrency.rs)\<close>

text \<open>
  The candidates of a walk are the flow files of the directories below the root. Their reads run
  concurrently and the items come in the order in which the reads complete; the completion order
  is an argument, a schedule that permutes the indices of its tasks, and the theorems hold for
  every schedule. A view gives access to one job of a flow.
\<close>

subsection \<open>The number of tasks in flight\<close>

definition FLOOR :: nat where "FLOOR = 8"

definition CEIL :: nat where "CEIL = 32"

definition clamp :: "nat \<Rightarrow> nat \<Rightarrow> nat \<Rightarrow> nat" where
  "clamp lo hi n = (if n < lo then lo else if hi < n then hi else n)"

definition parallelism :: "nat option \<Rightarrow> 'x world_scheme \<Rightarrow> nat" where
  \<comment> \<open>the first argument is what \<open>available_parallelism\<close> answers\<close>
  "parallelism available w =
     (let default = (case available of Some n \<Rightarrow> clamp FLOOR CEIL n | None \<Rightarrow> FLOOR)
      in case w_env w ''JOB_MANAGER_PARALLELISM'' of
           None \<Rightarrow> default
         | Some s \<Rightarrow> (case parse_u64 s of
             None \<Rightarrow> default
           | Some n \<Rightarrow> if 0 < n then unat n else default))"

text \<open>
  At least one task is always in flight, so the buffered streams make progress; without a
  valid override the number stays between the floor and the ceiling, and a valid override is
  taken as it is, the ceiling notwithstanding.
\<close>

theorem parallelism_bounds:
  "0 < parallelism available w
    \<and> (case w_env w ''JOB_MANAGER_PARALLELISM'' of
         None \<Rightarrow> 8 \<le> parallelism available w \<and> parallelism available w \<le> 32
       | Some s \<Rightarrow> (case parse_u64 s of
           None \<Rightarrow> 8 \<le> parallelism available w \<and> parallelism available w \<le> 32
         | Some n \<Rightarrow> if n = 0 then 8 \<le> parallelism available w \<and> parallelism available w \<le> 32
                    else parallelism available w = unat n))"
proof -
  have "8 \<le> clamp FLOOR CEIL n \<and> clamp FLOOR CEIL n \<le> 32" for n
    by (simp add: clamp_def FLOOR_def CEIL_def)
  moreover have "0 < unat n \<longleftrightarrow> n \<noteq> 0" for n :: u64 using unat_gt_0[of n] by blast
  moreover have "0 < n \<longleftrightarrow> n \<noteq> 0" for n :: u64 by (simp add: word_neq_0_conv)
  ultimately show ?thesis
    unfolding parallelism_def
    by (auto simp: Let_def FLOOR_def split: option.split intro: order.strict_trans2[of 0 8])
qed

subsection \<open>Schedules\<close>

type_synonym schedule = "nat \<Rightarrow> nat list"

definition fair :: "schedule \<Rightarrow> bool" where
  \<comment> \<open>every task completes once\<close>
  "fair sched \<longleftrightarrow> (\<forall>n. mset (sched n) = mset [0..<n])"

definition completed :: "schedule \<Rightarrow> 'a list \<Rightarrow> 'a list" where
  "completed sched xs = map ((!) xs) (sched (length xs))"

lemma mset_completed: "fair sched \<Longrightarrow> mset (completed sched xs) = mset xs"
proof -
  assume "fair sched"
  then have "mset (completed sched xs) = image_mset ((!) xs) (mset [0..<length xs])"
    by (simp add: completed_def fair_def)
  also have "\<dots> = mset (map ((!) xs) [0..<length xs])" by simp
  finally show ?thesis by (simp add: map_nth)
qed

subsection \<open>Candidates and the walk\<close>

definition candidate_paths :: "Path \<Rightarrow> ('x, Path list) io" where
  "candidate_paths root =
     act_bind (act_map_err (Io root) (read_dir root)) (\<lambda>entries.
     act_foldM (\<lambda>out entry.
       act_bind (act_map_err (Io root) (dir_entry entry)) (\<lambda>p.
       act_bind (path_is_dir p) (\<lambda>d.
       if \<not> d then ret out
       else act_bind (path_is_file (join_str p ''flow.toml'')) (\<lambda>f.
            ret (if f then out @ [join_str p ''flow.toml''] else out)))))
     [] entries)"

definition walk_flows :: "schedule \<Rightarrow> crates \<Rightarrow> Path \<Rightarrow> CommonConfig \<Rightarrow> ('x, (JobManagerError + JobFlow) list) io" where
  \<comment> \<open>the items of the stream\<close>
  "walk_flows sched cr root common =
     act_bind (act_try (candidate_paths root)) (\<lambda>paths.
     case paths of
       Err e \<Rightarrow> ret [Err e]
     | Ok ps \<Rightarrow> act_foldM (\<lambda>items p. act_bind (act_try (read_flow cr p common)) (\<lambda>item. ret (items @ [item])))
                [] (completed sched ps))"

definition flow_candidates :: "Path \<Rightarrow> 'x world_scheme \<Rightarrow> Path list" where
  "flow_candidates root w = map (\<lambda>p. join_str p ''flow.toml'')
     (filter (\<lambda>p. node_at p w = Some Dir \<and> is_file_node (node_at (join_str p ''flow.toml'') w)) (children root w))"

lemma candidate_steady [steady_intros]: "steady (candidate_paths root)"
  unfolding candidate_paths_def
  by (intro steady_intros)

lemma walk_steady [steady_intros]: "steady (walk_flows sched cr root common)"
  unfolding walk_flows_def
  by (intro steady_bind) (auto split: sum.split intro!: steady_intros)

lemma concat_map_if: "concat (map (\<lambda>x. if P x then [f x] else []) xs) = map f (filter P xs)"
  by (induction xs) auto

lemma val_candidates [val_simps]:
  assumes nf: "no_faults w"
  shows "val (candidate_paths root) w =
    map_err (Io root) (map_ok (\<lambda>_. flow_candidates root w) (listing_of root w))"
proof -
  let ?f = "\<lambda>out entry. act_bind (act_map_err (Io root) (dir_entry entry)) (\<lambda>p.
       act_bind (path_is_dir p) (\<lambda>d.
       if \<not> d then ret out
       else act_bind (path_is_file (join_str p ''flow.toml'')) (\<lambda>f.
            (ret (if f then out @ [join_str p ''flow.toml''] else out) :: ('x, _) io))))"
  let ?g = "\<lambda>p. if node_at p w = Some Dir \<and> is_file_node (node_at (join_str p ''flow.toml'') w)
      then [join_str p ''flow.toml''] else []"
  have st: "steady (?f out e)" for out e by (intro steady_intros)
  have "val (?f out e) w = Ok (out @ ?g e)" for out e
    using nf by (simp add: val_simps steady_intros)
  from val_foldM_append[OF st this nf, where acc = "[]"]
  have "val (act_foldM ?f [] es) w = Ok (concat (map ?g es))" for es by simp
  then show ?thesis
    using nf unfolding candidate_paths_def
    by (cases "listing_of root w")
      (auto simp: val_simps steady_intros st flow_candidates_def concat_map_if listing_of_def
        split: option.splits node.splits)
qed

definition flow_value :: "crates \<Rightarrow> CommonConfig \<Rightarrow> 'x world_scheme \<Rightarrow> Path \<Rightarrow> JobManagerError + JobFlow" where
  "flow_value cr common w p = val (read_flow cr p common) w"

lemma val_walk [val_simps]:
  assumes nf: "no_faults w"
  shows "val (walk_flows sched cr root common) w = Ok
    (case listing_of root w of
       Err e \<Rightarrow> [Err (Io root e)]
     | Ok _ \<Rightarrow> map (flow_value cr common w) (completed sched (flow_candidates root w)))"
proof -
  let ?f = "\<lambda>items p. act_bind (act_try (read_flow cr p common)) (\<lambda>item. (ret (items @ [item]) :: ('x, _) io))"
  have st: "steady (?f items p)" for items p by (intro steady_intros)
  have "val (?f items p) w = Ok (items @ [flow_value cr common w p])" for items p
    using nf by (simp add: val_simps steady_intros flow_value_def)
  from val_foldM_append[OF st this nf, where acc = "[]"]
  have v: "val (act_foldM ?f [] ps) w = Ok (map (flow_value cr common w) ps)" for ps
    by (simp add: concat_map_singleton)
  have st2: "steady (case paths of Err e \<Rightarrow> (ret [Err e] :: ('x, _) io) | Ok ps \<Rightarrow> act_foldM ?f [] (completed sched ps))" for paths
    using st by (auto split: sum.split intro!: steady_intros)
  show ?thesis
    unfolding walk_flows_def
    by (simp add: val_bind[OF steady_try[OF candidate_steady] st2 nf] val_basic val_candidates[OF nf] v
        split: sum.split)
qed

lemma obeys_dir_entry [inv_intros]: "obeys (changes_only S) (dir_entry q)"
  unfolding dir_entry_def by (rule obeys_syscall) (simp add: frame.R_refl)

lemma obeys_walk [inv_intros]: "obeys (changes_only S) (walk_flows sched cr root common)"
  unfolding walk_flows_def candidate_paths_def
  by (auto split: sum.split intro!: frame.obeys_bind frame.obeys_ret frame.obeys_try frame.obeys_foldM
      frame.obeys_map_err frame.obeys_if inv_intros)

end
