(* ===== verification/Display.thy ===== *)
theory Display
  imports Domain
begin

section \<open>Display states (listing/mod.rs)\<close>

text \<open>
  The lifecycle shown for a job (pending when it has no readable status file), its codes and
  names, the parser of the --status option, and the status a whole flow is rolled up to. The
  roll-up is shown to be the join of the jobs' displays in a linear order.
\<close>

datatype DisplayLifecycle = Pending | Real Lifecycle

fun display_rank :: "DisplayLifecycle \<Rightarrow> nat" where
  "display_rank Pending = 0"
| "display_rank (Real l) = Suc (lifecycle_rank l)"

lemma display_rank_inject [simp]: "display_rank a = display_rank b \<longleftrightarrow> a = b"
  by (cases a; cases b) simp_all

text \<open>The order the \<open>BTreeSet\<close> of a filter uses: the derived one.\<close>

instantiation DisplayLifecycle :: linorder
begin

definition less_eq_DisplayLifecycle :: "DisplayLifecycle \<Rightarrow> DisplayLifecycle \<Rightarrow> bool" where
  "less_eq_DisplayLifecycle a b \<longleftrightarrow> display_rank a \<le> display_rank b"

definition less_DisplayLifecycle :: "DisplayLifecycle \<Rightarrow> DisplayLifecycle \<Rightarrow> bool" where
  "less_DisplayLifecycle a b \<longleftrightarrow> display_rank a < display_rank b"

instance
  by standard (auto simp: less_eq_DisplayLifecycle_def less_DisplayLifecycle_def)

end

type_synonym DisplaySet = "(DisplayLifecycle, unit) btree"

definition display_code :: "DisplayLifecycle \<Rightarrow> string" where
  "display_code d = (case d of
     Pending \<Rightarrow> ''PD''
   | Real Queued \<Rightarrow> ''Q''
   | Real Running \<Rightarrow> ''R''
   | Real Success \<Rightarrow> ''OK''
   | Real Failed \<Rightarrow> ''F''
   | Real Skipped \<Rightarrow> ''SK'')"

definition display_long :: "DisplayLifecycle \<Rightarrow> string" where
  "display_long d = (case d of
     Pending \<Rightarrow> ''pending''
   | Real Queued \<Rightarrow> ''queued''
   | Real Running \<Rightarrow> ''running''
   | Real Success \<Rightarrow> ''success''
   | Real Failed \<Rightarrow> ''failed''
   | Real Skipped \<Rightarrow> ''skipped'')"

definition token_table :: "(string \<times> DisplayLifecycle) list" where
  \<comment> \<open>the arms of the match in \<open>parse_token\<close>\<close>
  "token_table =
     [(''pd'', Pending), (''pending'', Pending),
      (''q'', Real Queued), (''queued'', Real Queued),
      (''r'', Real Running), (''running'', Real Running),
      (''ok'', Real Success), (''success'', Real Success),
      (''f'', Real Failed), (''failed'', Real Failed),
      (''sk'', Real Skipped), (''skipped'', Real Skipped)]"

definition hex_digit :: "nat \<Rightarrow> char" where
  "hex_digit d = (if d < 10 then char_of (48 + d) else char_of (87 + d))"

definition debug_char :: "char \<Rightarrow> string" where
  \<comment> \<open>\<open>escape_debug\<close> of one byte inside a string; bytes of characters beyond ASCII are
     printed as they are, as the standard library does for printable characters\<close>
  "debug_char c =
     (if c = CHR 0x00 then [CHR 0x5C, CHR ''0'']
      else if c = CHR 0x09 then [CHR 0x5C, CHR ''t'']
      else if c = CHR 0x0A then [CHR 0x5C, CHR ''n'']
      else if c = CHR 0x0D then [CHR 0x5C, CHR ''r'']
      else if c = CHR 0x22 \<or> c = CHR 0x5C then [CHR 0x5C, c]
      else if code c < 16 then [CHR 0x5C, CHR ''u'', CHR ''{'', hex_digit (code c), CHR ''}'']
      else if code c < 32 \<or> code c = 127
      then [CHR 0x5C, CHR ''u'', CHR ''{'', hex_digit (code c div 16), hex_digit (code c mod 16), CHR ''}'']
      else [c])"

definition str_debug :: "string \<Rightarrow> string" where
  \<comment> \<open>the Debug format of a str\<close>
  "str_debug s = [CHR 0x22] @ concat (map debug_char s) @ [CHR 0x22]"

definition parse_token :: "string \<Rightarrow> string + DisplayLifecycle" where
  "parse_token s =
     (let tok = map to_lower (trim s)
      in case map_of token_table tok of
           Some d \<Rightarrow> Ok d
         | None \<Rightarrow> Err (''unknown status '' @ str_debug tok
             @ '' (expected one of pd,q,r,ok,f,sk / pending,queued,running,success,failed,skipped)''))"

fun status_tokens :: "string list \<Rightarrow> DisplaySet \<Rightarrow> string + DisplaySet" where
  \<comment> \<open>the loop over the pieces\<close>
  "status_tokens [] out = Ok out"
| "status_tokens (tok # toks) out =
     (if trim tok = [] then status_tokens toks out
      else res_bind (parse_token tok) (\<lambda>d. status_tokens toks (bt_insert d () out)))"

definition parse_status_set :: "string \<Rightarrow> string + DisplaySet" where
  "parse_status_set csv = status_tokens (split_pat '','' csv) bt_empty"

subsection \<open>Rolling up a flow\<close>

datatype FlowStatus = FsFailed | FsRunning | FsQueued | FsDone | FsPartial | FsPending

definition flow_status_str :: "FlowStatus \<Rightarrow> string" where
  "flow_status_str s = (case s of
     FsFailed \<Rightarrow> ''FAILED'' | FsRunning \<Rightarrow> ''RUNNING'' | FsQueued \<Rightarrow> ''QUEUED''
   | FsDone \<Rightarrow> ''DONE'' | FsPartial \<Rightarrow> ''PARTIAL'' | FsPending \<Rightarrow> ''PENDING'')"

definition aggregate_flow_status :: "DisplayLifecycle list \<Rightarrow> FlowStatus" where
  "aggregate_flow_status js =
     (if js = [] then FsPending
      else if Real Failed \<in> set js then FsFailed
      else if Real Running \<in> set js then FsRunning
      else if Real Queued \<in> set js then FsQueued
      else if list_all (\<lambda>d. d = Real Success) js then FsDone
      else (let any_skipped = Real Skipped \<in> set js;
                all_terminal = list_all (\<lambda>d. d = Real Success \<or> d = Real Skipped) js
            in if any_skipped \<and> all_terminal then FsPartial else FsPending))"

subsection \<open>Tokens\<close>

definition all_displays :: "DisplayLifecycle list" where
  "all_displays = [Pending, Real Queued, Real Running, Real Success, Real Failed, Real Skipped]"

lemma in_all_displays: "d \<in> set all_displays"
proof (cases d)
  case (Real l)
  then show ?thesis by (cases l) (simp_all add: all_displays_def)
qed (simp add: all_displays_def)

lemma ex_display:
  "(\<exists>d. P d) \<longleftrightarrow>
    P Pending \<or> P (Real Queued) \<or> P (Real Running) \<or> P (Real Success) \<or> P (Real Failed) \<or> P (Real Skipped)"
proof
  assume "\<exists>d. P d"
  then obtain d where "P d" by blast
  moreover have "d = Pending \<or> d = Real Queued \<or> d = Real Running \<or> d = Real Success \<or> d = Real Failed \<or> d = Real Skipped"
    using in_all_displays[of d] by (simp add: all_displays_def)
  ultimately show "P Pending \<or> P (Real Queued) \<or> P (Real Running) \<or> P (Real Success) \<or> P (Real Failed) \<or> P (Real Skipped)"
    by (elim disjE) simp_all
qed blast

lemma trim_word:
  assumes "list_all is_ascii_alphanumeric s"
  shows "trim s = s"
proof -
  have a: "code c < 128 \<and> \<not> is_whitespace [c]" if "is_ascii_alphanumeric c" for c
    using that by (auto simp: is_ascii_alphanumeric_def is_digit_def is_upper_def is_lower_def is_whitespace_def)
  then have u: "uchars s = map (\<lambda>c. [c]) s" using assms by (intro uchars_ascii) (auto simp: list_all_iff)
  have "dropWhile is_whitespace xs = xs" if "set xs \<subseteq> set (uchars s)" for xs
    using that assms a by (cases xs) (auto simp: u list_all_iff)
  then have "dropWhile is_whitespace (rev (uchars s)) = rev (uchars s)" "dropWhile is_whitespace (uchars s) = uchars s"
    by simp_all
  then show ?thesis by (simp add: trim_def)
qed

lemma lower_names:
  "map to_lower (display_code Pending) = ''pd''" "map to_lower (display_code (Real Queued)) = ''q''"
  "map to_lower (display_code (Real Running)) = ''r''" "map to_lower (display_code (Real Success)) = ''ok''"
  "map to_lower (display_code (Real Failed)) = ''f''" "map to_lower (display_code (Real Skipped)) = ''sk''"
  "map to_lower ''pending'' = ''pending''" "map to_lower ''queued'' = ''queued''"
  "map to_lower ''running'' = ''running''" "map to_lower ''success'' = ''success''"
  "map to_lower ''failed'' = ''failed''" "map to_lower ''skipped'' = ''skipped''"
  by code_simp+

lemma display_table: "list_all (\<lambda>d. list_all is_ascii_alphanumeric (display_code d)
    \<and> list_all is_ascii_alphanumeric (display_long d)
    \<and> map_of token_table (map to_lower (display_code d)) = Some d
    \<and> map_of token_table (map to_lower (display_long d)) = Some d
    \<and> CHR '','' \<notin> set (display_code d) \<and> CHR '','' \<notin> set (display_long d)
    \<and> display_code d \<noteq> [] \<and> display_long d \<noteq> []) all_displays"
  using lower_names
  by (simp add: all_displays_def token_table_def display_long_def)
    (simp add: display_code_def is_ascii_alphanumeric_def is_digit_def is_upper_def is_lower_def code_def)

lemma display_tokens:
  "trim (display_code d) = display_code d" "trim (display_long d) = display_long d"
  "parse_token (display_code d) = Ok d" "parse_token (display_long d) = Ok d"
  "CHR '','' \<notin> set (display_code d)" "CHR '','' \<notin> set (display_long d)"
  "display_code d \<noteq> []" "display_long d \<noteq> []"
  using display_table in_all_displays[of d] by (simp_all add: list_all_iff parse_token_def trim_word)

definition names :: "string \<Rightarrow> DisplayLifecycle \<Rightarrow> bool" where
  "names s d \<longleftrightarrow> s = display_code d \<or> s = display_long d"

lemma names_token: "names s d \<Longrightarrow> trim s = s \<and> s \<noteq> [] \<and> CHR '','' \<notin> set s \<and> parse_token s = Ok d"
  using display_tokens[of d] by (auto simp: names_def)

lemma status_tokens_names:
  "list_all2 names toks ds \<Longrightarrow> status_tokens toks out = Ok (fold (\<lambda>d. bt_insert d ()) ds out)"
  by (induction arbitrary: out rule: list_all2_induct) (simp_all add: names_token)

lemma bt_set_fold: "set (bt_keys (fold (\<lambda>d. bt_insert d ()) ds out)) = set ds \<union> set (bt_keys out)"
  by (induction ds arbitrary: out) auto

text \<open>
  The status option reads back what it prints: whichever of the two names each state is
  given, a comma-separated list of states parses to exactly the set of them, the empty list to
  the empty set.
\<close>

theorem parse_status_set_names:
  assumes "list_all2 (\<lambda>s d. s = display_code d \<or> s = display_long d) toks ds"
  shows "\<exists>S. parse_status_set (join '','' toks) = Ok S \<and> set (bt_keys S) = set ds"
proof -
  have n: "list_all2 names toks ds" using assms by (simp add: names_def[abs_def])
  show ?thesis
  proof (cases "toks = []")
    case True
    have "split_pat '','' [] = [[]]" and "trim [] = []" by code_simp+
    then show ?thesis using True n by (simp add: parse_status_set_def)
  next
    case False
    have "\<forall>x\<in>set toks. CHR '','' \<notin> set x" using list_all2_in_left[OF n] names_token by blast
    then have "split_pat '','' (join '','' toks) = toks" using False by (rule split_pat_join_single)
    then show ?thesis
      using status_tokens_names[OF n] bt_set_fold[of ds bt_empty] by (simp add: parse_status_set_def)
  qed
qed

lemma parse_status_set_names_witness:
  "\<exists>S. parse_status_set ''PD,running,OK'' = Ok S \<and> set (bt_keys S) = {Pending, Real Running, Real Success}"
  using parse_status_set_names[of "[''PD'', ''running'', ''OK'']" "[Pending, Real Running, Real Success]"]
  by (simp add: display_code_def display_long_def)

lemma parse_token_err: "is_err (parse_token s) \<longleftrightarrow> map_of token_table (map to_lower (trim s)) = None"
  by (simp add: parse_token_def Let_def split: option.split)

text \<open>
  A status token that is not one of the twelve names is refused, and one bad token makes the
  whole option fail with that token's message.
\<close>

theorem parse_status_set_error:
  "is_err (parse_status_set csv) \<longleftrightarrow>
    (\<exists>tok\<in>set (split_pat '','' csv). trim tok \<noteq> []
      \<and> \<not> (\<exists>d. map to_lower (trim tok) = map to_lower (display_code d)
             \<or> map to_lower (trim tok) = display_long d))"
proof -
  have tok: "is_err (parse_token tok) \<longleftrightarrow> \<not> (\<exists>d. map to_lower (trim tok) = map to_lower (display_code d)
      \<or> map to_lower (trim tok) = display_long d)" for tok
  proof -
    have "(\<exists>d. map to_lower (trim tok) = map to_lower (display_code d)
        \<or> map to_lower (trim tok) = display_long d) \<longleftrightarrow> map to_lower (trim tok) \<in> fst ` set token_table"
      unfolding ex_display lower_names by (auto simp: token_table_def display_long_def)
    also have "\<dots> \<longleftrightarrow> \<not> is_err (parse_token tok)"
      by (simp add: parse_token_err map_of_eq_None_iff)
    finally show ?thesis by blast
  qed
  have "is_err (status_tokens toks out) \<longleftrightarrow> (\<exists>tok\<in>set toks. trim tok \<noteq> [] \<and> is_err (parse_token tok))" for toks out
  proof (induction toks arbitrary: out)
    case (Cons t toks)
    then show ?case by (cases "parse_token t") simp_all
  qed simp
  then show ?thesis by (simp add: parse_status_set_def tok)
qed

subsection \<open>The roll-up is a join\<close>

fun severity :: "DisplayLifecycle \<Rightarrow> nat" where
  "severity (Real Success) = 0"
| "severity (Real Skipped) = 1"
| "severity Pending = 2"
| "severity (Real Queued) = 3"
| "severity (Real Running) = 4"
| "severity (Real Failed) = 5"

definition severity_status :: "nat \<Rightarrow> FlowStatus" where
  "severity_status n = [FsDone, FsPartial, FsPending, FsQueued, FsRunning, FsFailed] ! n"

lemma severity_inject_zero: "severity d = 0 \<longleftrightarrow> d = Real Success"
  by (cases d rule: severity.cases) simp_all

text \<open>
  The status of a flow is the join of its jobs' displays: the display of greatest severity
  (success, skipped, pending, queued, running, failed) decides, so neither the order of the jobs
  nor repetitions matter, and a flow is done exactly when it has jobs and all succeeded.
\<close>

theorem aggregate_is_join:
  "aggregate_flow_status js =
    (if js = [] then FsPending else severity_status (Max (severity ` set js)))"
proof (cases "js = []")
  case False
  let ?m = "Max (severity ` set js)"
  have fin: "finite (severity ` set js)" "severity ` set js \<noteq> {}" using False by simp_all
  have le: "severity d \<le> ?m" if "d \<in> set js" for d using fin that by simp
  obtain d where d: "d \<in> set js" "severity d = ?m" using Max_in[OF fin] by fastforce
  have below: "severity e \<le> severity d" if "e \<in> set js" for e using le[OF that] d(2) by simp
  have no: "Real l \<notin> set js" if "severity d < severity (Real l)" for l using below that by fastforce
  have "aggregate_flow_status js = severity_status (severity d)"
  proof (cases d)
    case Pending
    then show ?thesis using d(1) False no[of Failed] no[of Running] no[of Queued]
      by (auto simp: aggregate_flow_status_def severity_status_def list_all_iff)
  next
    case (Real l)
    have all: "list_all P js \<longleftrightarrow> (\<forall>e\<in>set js. P e)" for P by (simp add: list_all_iff)
    have low: "e = Real Success \<or> e = Real Skipped" if "e \<in> set js" "severity d \<le> 1" for e
      using below[OF that(1)] that(2) by (cases e rule: severity.cases) simp_all
    show ?thesis
    proof (cases l)
      case Success
      then have "\<forall>e\<in>set js. e = Real Success"
        using below Real by (metis (no_types) le_zero_eq severity.simps(1) severity_inject_zero)
      then show ?thesis using Success Real False
        by (auto simp: aggregate_flow_status_def severity_status_def all)
    next
      case Skipped
      then show ?thesis using Real d(1) False low no[of Failed] no[of Running] no[of Queued]
        by (auto simp: aggregate_flow_status_def severity_status_def all Let_def)
    next
      case Queued
      then show ?thesis using Real d(1) False no[of Failed] no[of Running]
        by (auto simp: aggregate_flow_status_def severity_status_def)
    next
      case Running
      then show ?thesis using Real d(1) False no[of Failed]
        by (auto simp: aggregate_flow_status_def severity_status_def)
    next
      case Failed
      then show ?thesis using Real d(1) False
        by (auto simp: aggregate_flow_status_def severity_status_def)
    qed
  qed
  then show ?thesis using False d(2) by simp
qed (simp add: aggregate_flow_status_def)

lemma aggregate_done: "aggregate_flow_status js = FsDone \<longleftrightarrow> js \<noteq> [] \<and> (\<forall>d\<in>set js. d = Real Success)"
  by (auto simp: aggregate_flow_status_def list_all_iff Let_def)

end
