(* ===== verification/Search.thy ===== *)
theory Search
  imports Display
begin

section \<open>Search filters (search.rs)\<close>

text \<open>
  The filter of a listing and the predicate \<open>matches\<close>, in the order of the code's early
  returns. The prefix of a uuid is lowered byte by byte: no character beyond ASCII lowers to a
  character that occurs in the text of a uuid, so the Unicode lowering of the code gives the same
  answer.
\<close>

record SearchFilter =
  sf_program :: "Program option"
  sf_tags :: "(string, string) btree"
  sf_status :: DisplaySet
  sf_uuid_prefix :: "string option"
  sf_created_after :: "DateTime option"
  sf_created_before :: "DateTime option"
  sf_slurm_jobid :: "u64 option"
  sf_job_id :: "JobId option"

definition default_filter :: SearchFilter where
  \<comment> \<open>the derived Default\<close>
  "default_filter = \<lparr>sf_program = None, sf_tags = bt_empty, sf_status = bt_empty, sf_uuid_prefix = None,
     sf_created_after = None, sf_created_before = None, sf_slurm_jobid = None, sf_job_id = None\<rparr>"

definition display_of :: "JobRun option \<Rightarrow> DisplayLifecycle" where
  "display_of status = (case status of Some jr \<Rightarrow> Real (lifecycle jr) | None \<Rightarrow> Pending)"

definition matches :: "JobFlow \<Rightarrow> JobId \<Rightarrow> Job \<Rightarrow> JobRun option \<Rightarrow> SearchFilter \<Rightarrow> bool" where
  "matches flow j job status f =
     (if (case sf_program f of Some p \<Rightarrow> program (spec job) \<noteq> p | None \<Rightarrow> False) then False
      else if \<not> bt_is_empty (sf_tags f)
              \<and> \<not> list_all (\<lambda>(k, v). case bt_get (tags flow) k of Some existing \<Rightarrow> existing = v | None \<Rightarrow> False)
                    (bt_entries (sf_tags f)) then False
      else if \<not> bt_is_empty (sf_status f) \<and> \<not> bt_contains (sf_status f) (display_of status) then False
      else if (case sf_uuid_prefix f of
                 Some prefix \<Rightarrow> \<not> starts_with (uuid_str (flow_id flow)) (map to_lower prefix)
               | None \<Rightarrow> False) then False
      else if (case sf_created_after f of Some after \<Rightarrow> created_at flow < after | None \<Rightarrow> False) then False
      else if (case sf_created_before f of Some before \<Rightarrow> created_at flow > before | None \<Rightarrow> False) then False
      else if (case sf_slurm_jobid f of
                 Some want \<Rightarrow> \<not> (case status of Some e \<Rightarrow> slurm_jobid e = Some want | None \<Rightarrow> False)
               | None \<Rightarrow> False) then False
      else if (case sf_job_id f of Some want \<Rightarrow> j \<noteq> want | None \<Rightarrow> False) then False
      else True)"

definition agrees :: "'a option \<Rightarrow> ('a \<Rightarrow> bool) \<Rightarrow> bool" where
  \<comment> \<open>an unset filter constrains nothing\<close>
  "agrees x P \<longleftrightarrow> (\<forall>v. x = Some v \<longrightarrow> P v)"

lemma agrees_simps [simp]: "agrees None P" "agrees (Some v) P = P v"
  by (simp_all add: agrees_def)

lemma matches_iff:
  "matches flow j job status f \<longleftrightarrow>
    agrees (sf_program f) ((=) (program (spec job)))
    \<and> (\<forall>k v. bt_get (sf_tags f) k = Some v \<longrightarrow> bt_get (tags flow) k = Some v)
    \<and> (bt_keys (sf_status f) = [] \<or> display_of status \<in> set (bt_keys (sf_status f)))
    \<and> agrees (sf_uuid_prefix f) (\<lambda>p. \<exists>r. uuid_str (flow_id flow) = map to_lower p @ r)
    \<and> agrees (sf_created_after f) (\<lambda>t. t \<le> created_at flow)
    \<and> agrees (sf_created_before f) (\<lambda>t. created_at flow \<le> t)
    \<and> agrees (sf_slurm_jobid f) (\<lambda>i. \<exists>run. status = Some run \<and> slurm_jobid run = Some i)
    \<and> agrees (sf_job_id f) ((=) j)"
proof -
  have t: "(bt_is_empty (sf_tags f)
      \<or> list_all (\<lambda>(k, v). case bt_get (tags flow) k of Some existing \<Rightarrow> existing = v | None \<Rightarrow> False)
          (bt_entries (sf_tags f)))
    \<longleftrightarrow> (\<forall>k v. bt_get (sf_tags f) k = Some v \<longrightarrow> bt_get (tags flow) k = Some v)"
    by (auto simp: bt_is_empty_def list_all_iff bt_get_Some_entries[of "sf_tags f"] split: option.splits)
  have s: "(bt_is_empty (sf_status f) \<or> bt_contains (sf_status f) (display_of status))
    \<longleftrightarrow> (bt_keys (sf_status f) = [] \<or> display_of status \<in> set (bt_keys (sf_status f)))"
    by (simp add: bt_is_empty_iff bt_contains_iff)
  show ?thesis
    unfolding t[symmetric] s[symmetric] matches_def
    by (cases "sf_program f"; cases "sf_uuid_prefix f"; cases "sf_created_after f"; cases "sf_created_before f";
        cases "sf_slurm_jobid f"; cases "sf_job_id f") (simp_all add: starts_with_iff not_less split: option.split)
qed

text \<open>
  A job passes a filter exactly when it passes each of its criteria: the filter of a
  criterion list is the intersection, an unset criterion constrains nothing, every requested tag
  must be on the flow with that value, the states are alternatives, the uuid prefix is compared
  without regard to the case of the request, the bounds of the creation time are inclusive, and
  a jobid is only found on a job that has a status.
\<close>

theorem matches_spec:
  "matches flow j job status f =
    ((sf_program f = None \<or> sf_program f = Some (program (spec job)))
     \<and> bt_get (sf_tags f) \<subseteq>\<^sub>m bt_get (tags flow)
     \<and> (set (bt_keys (sf_status f)) = {} \<or> display_of status \<in> set (bt_keys (sf_status f)))
     \<and> (sf_uuid_prefix f = None
        \<or> (\<exists>p r. sf_uuid_prefix f = Some p \<and> uuid_str (flow_id flow) = map to_lower p @ r))
     \<and> (sf_created_after f = None \<or> (\<exists>t. sf_created_after f = Some t \<and> t \<le> created_at flow))
     \<and> (sf_created_before f = None \<or> (\<exists>t. sf_created_before f = Some t \<and> created_at flow \<le> t))
     \<and> (sf_slurm_jobid f = None
        \<or> (\<exists>run i. sf_slurm_jobid f = Some i \<and> status = Some run \<and> slurm_jobid run = Some i))
     \<and> (sf_job_id f = None \<or> sf_job_id f = Some j))"
proof -
  have "(\<forall>k v. bt_get (sf_tags f) k = Some v \<longrightarrow> bt_get (tags flow) k = Some v)
      \<longleftrightarrow> bt_get (sf_tags f) \<subseteq>\<^sub>m bt_get (tags flow)"
    by (force simp: map_le_def dom_def)
  then show ?thesis
    unfolding matches_iff
    by (cases "sf_program f"; cases "sf_uuid_prefix f"; cases "sf_created_after f"; cases "sf_created_before f";
      cases "sf_slurm_jobid f"; cases "sf_job_id f") (simp_all add: eq_commute[of "Some j"] eq_commute[of j] eq_commute[of "program (spec job)"])
qed

lemma default_filter_all: "matches flow j job status default_filter"
  by (simp add: matches_iff default_filter_def)

end
