(* ===== verification/Listing.thy ===== *)
theory Listing
  imports Walk Search
begin

section \<open>Listing flows (listing/collect.rs and the rows of listing/mod.rs)\<close>

text \<open>
  \<open>collect\<close> gathers the readable flows with the status of each job, newest first; the
  projections turn them into job rows and flow rows. A job row panics on an order that names a
  missing job; the lemmas show it never does.
\<close>

record CollectedFlow =
  cf_flow :: JobFlow
  cf_statuses :: "(JobId, JobRun option) btree"

definition status_of :: "CollectedFlow \<Rightarrow> JobId \<Rightarrow> JobRun option" where
  "status_of cf j = Option.bind (bt_get (cf_statuses cf) j) id"

definition job_display :: "CollectedFlow \<Rightarrow> JobId \<Rightarrow> DisplayLifecycle" where
  "job_display cf j = (case status_of cf j of Some jr \<Rightarrow> Real (lifecycle jr) | None \<Rightarrow> Pending)"

definition topo_or_key_order :: "CollectedFlow \<Rightarrow> JobId list" where
  "topo_or_key_order cf =
     (case topological_order (jobs (cf_flow cf)) (flow_id (cf_flow cf)) of
        Ok order \<Rightarrow> order
      | Err _ \<Rightarrow> bt_keys (jobs (cf_flow cf)))"

subsection \<open>Collecting\<close>

definition collect_status ::
  "crates \<Rightarrow> PathResolver \<Rightarrow> Uuid \<Rightarrow> (JobId, JobRun option) btree \<Rightarrow> JobId \<Rightarrow> ('x, (JobId, JobRun option) btree) io" where
  "collect_status cr r u statuses j =
     (let path = status_file r u j
      in act_bind (path_exists path) (\<lambda>ex.
         act_bind (if ex then act_bind (act_try (read_job_run cr path)) (\<lambda>res.
                          ret (case res of Ok jr \<Rightarrow> Some jr | Err _ \<Rightarrow> None))
                   else ret None) (\<lambda>run.
         ret (bt_insert j run statuses))))"

definition collect_flow :: "crates \<Rightarrow> PathResolver \<Rightarrow> JobFlow \<Rightarrow> ('x, CollectedFlow) io" where
  "collect_flow cr r flow =
     act_bind (act_foldM (collect_status cr r (flow_id flow)) bt_empty (bt_keys (jobs flow))) (\<lambda>statuses.
     ret \<lparr>cf_flow = flow, cf_statuses = statuses\<rparr>)"

definition collect ::
  "schedule \<Rightarrow> schedule \<Rightarrow> crates \<Rightarrow> Path \<Rightarrow> CommonConfig \<Rightarrow> SearchFilter \<Rightarrow> ('x, CollectedFlow list) io" where
  \<comment> \<open>the schedules of the walk and of the status reads; the filter is not used\<close>
  "collect walking reading cr root common _ =
     act_bind (walk_flows walking cr root common) (\<lambda>items.
     let flows = List.map_filter (\<lambda>item. case item of Ok f \<Rightarrow> Some f | Err _ \<Rightarrow> None) items
     in act_bind (act_foldM (\<lambda>acc flow.
            act_bind (collect_flow cr \<lparr>res_root = root\<rparr> flow) (\<lambda>cf. ret (acc @ [cf])))
          [] (completed reading flows)) (\<lambda>collected.
        ret (sort_key (\<lambda>cf. - created_at (cf_flow cf)) collected)))"

subsection \<open>Rows\<close>

record JobRow =
  jr_flow_uuid :: Uuid
  jr_job_id :: string
  jr_status :: DisplayLifecycle
  jr_slurm_jobid :: "u64 option"
  jr_program :: string
  jr_updated_at :: "DateTime option"
  jr_created_at :: DateTime

record FlowRow =
  fr_flow_uuid :: Uuid
  fr_total :: nat
  fr_done :: nat
  fr_status :: FlowStatus
  fr_created_at :: DateTime

definition is_default_filter :: "SearchFilter \<Rightarrow> bool" where
  "is_default_filter f \<longleftrightarrow> sf_program f = None \<and> bt_is_empty (sf_tags f) \<and> bt_is_empty (sf_status f)
     \<and> sf_uuid_prefix f = None \<and> sf_created_after f = None \<and> sf_created_before f = None
     \<and> sf_slurm_jobid f = None \<and> sf_job_id f = None"

definition full :: "nat option \<Rightarrow> 'a list \<Rightarrow> bool" where
  \<comment> \<open>the check after a push\<close>
  "full limit out = (case limit of Some n \<Rightarrow> n \<le> length out | None \<Rightarrow> False)"

definition row_of :: "CollectedFlow \<Rightarrow> JobId \<Rightarrow> Job \<Rightarrow> JobRow" where
  "row_of cf j job =
     \<lparr>jr_flow_uuid = flow_id (cf_flow cf), jr_job_id = jid j, jr_status = job_display cf j,
      jr_slurm_jobid = Option.bind (status_of cf j) slurm_jobid, jr_program = prog (program (spec job)),
      jr_updated_at = map_option updated_at (status_of cf j), jr_created_at = created_at (cf_flow cf)\<rparr>"

fun rows_of_flow ::
  "CollectedFlow \<Rightarrow> SearchFilter \<Rightarrow> nat option \<Rightarrow> JobId list \<Rightarrow> JobRow list \<Rightarrow> string + bool \<times> JobRow list" where
  \<comment> \<open>the inner loop; the flag says that the function has returned\<close>
  "rows_of_flow cf f limit [] out = Ok (False, out)"
| "rows_of_flow cf f limit (j # js) out =
     (case bt_get (jobs (cf_flow cf)) j of
        None \<Rightarrow> Err ''no entry found for key''
      | Some job \<Rightarrow>
          if \<not> matches (cf_flow cf) j job (status_of cf j) f then rows_of_flow cf f limit js out
          else (let out' = out @ [row_of cf j job]
                in if full limit out' then Ok (True, out') else rows_of_flow cf f limit js out'))"

fun rows_of_flows ::
  "CollectedFlow list \<Rightarrow> SearchFilter \<Rightarrow> nat option \<Rightarrow> JobRow list \<Rightarrow> string + JobRow list" where
  "rows_of_flows [] f limit out = Ok out"
| "rows_of_flows (cf # cfs) f limit out =
     res_bind (rows_of_flow cf f limit (topo_or_key_order cf) out) (\<lambda>(returned, out').
     if returned then Ok out' else rows_of_flows cfs f limit out')"

definition job_rows :: "CollectedFlow list \<Rightarrow> SearchFilter \<Rightarrow> nat option \<Rightarrow> string + JobRow list" where
  \<comment> \<open>the error is the message of a panic\<close>
  "job_rows collected f limit = rows_of_flows collected f limit []"

definition listed :: "SearchFilter \<Rightarrow> CollectedFlow \<Rightarrow> bool" where
  "listed f cf =
     (if bt_is_empty (jobs (cf_flow cf)) then is_default_filter f
      else list_ex (\<lambda>(j, job). matches (cf_flow cf) j job (status_of cf j) f) (bt_entries (jobs (cf_flow cf))))"

fun matched_loop :: "CollectedFlow list \<Rightarrow> SearchFilter \<Rightarrow> nat option \<Rightarrow> CollectedFlow list \<Rightarrow> CollectedFlow list" where
  "matched_loop [] f limit out = out"
| "matched_loop (cf # cfs) f limit out =
     (if listed f cf
      then (let out' = out @ [cf] in if full limit out' then out' else matched_loop cfs f limit out')
      else matched_loop cfs f limit out)"

definition matched_flows :: "CollectedFlow list \<Rightarrow> SearchFilter \<Rightarrow> nat option \<Rightarrow> CollectedFlow list" where
  "matched_flows collected f limit = matched_loop collected f limit []"

definition displays_of :: "CollectedFlow \<Rightarrow> DisplayLifecycle list" where
  "displays_of cf = map (job_display cf) (bt_keys (jobs (cf_flow cf)))"

definition flow_row :: "CollectedFlow \<Rightarrow> FlowRow" where
  "flow_row cf =
     (let displays = displays_of cf
      in \<lparr>fr_flow_uuid = flow_id (cf_flow cf), fr_total = bt_len (jobs (cf_flow cf)),
          fr_done = length (filter (\<lambda>d. d = Real Success) displays),
          fr_status = aggregate_flow_status displays, fr_created_at = created_at (cf_flow cf)\<rparr>)"

definition flow_rows :: "CollectedFlow list \<Rightarrow> SearchFilter \<Rightarrow> nat option \<Rightarrow> FlowRow list" where
  "flow_rows collected f limit = map flow_row (matched_flows collected f limit)"

subsection \<open>The rows in closed form\<close>

lemma topo_or_key_order_keys:
  "distinct (topo_or_key_order cf)" "set (topo_or_key_order cf) = set (bt_keys (jobs (cf_flow cf)))"
  using topological_order_sound(1)[of "jobs (cf_flow cf)" "flow_id (cf_flow cf)"]
  by (auto simp: topo_or_key_order_def topo_sorted_def split: sum.split)

definition room :: "nat option \<Rightarrow> 'a list \<Rightarrow> bool" where
  "room limit out = (case limit of Some n \<Rightarrow> length out < max n 1 | None \<Rightarrow> True)"

definition capped :: "nat option \<Rightarrow> 'a list \<Rightarrow> 'a list" where
  "capped limit xs = (case limit of Some n \<Rightarrow> take (max n 1) xs | None \<Rightarrow> xs)"

lemma full_push: "full limit (out @ [x]) \<longleftrightarrow> \<not> room limit (out @ [x])"
  by (auto simp: full_def room_def split: option.split)

lemma capped_room: "room limit xs \<Longrightarrow> capped limit xs = xs"
  by (auto simp: capped_def room_def split: option.splits)

lemma capped_push: "room limit out \<Longrightarrow> \<not> room limit (out @ [x]) \<Longrightarrow> capped limit (out @ x # ys) = out @ [x]"
proof (cases limit)
  case (Some n)
  assume "room limit out" and "\<not> room limit (out @ [x])"
  then have "max n 1 = Suc (length out)" using Some by (simp add: room_def)
  then show ?thesis using Some by (simp add: capped_def)
qed (simp add: room_def)

lemma room_prefix: "room limit (xs @ ys) \<Longrightarrow> room limit xs"
  by (auto simp: room_def split: option.splits)

definition rows_in :: "SearchFilter \<Rightarrow> CollectedFlow \<Rightarrow> JobId list \<Rightarrow> JobRow list" where
  "rows_in f cf js = List.map_filter (\<lambda>j. Option.bind (bt_get (jobs (cf_flow cf)) j) (\<lambda>job.
     if matches (cf_flow cf) j job (status_of cf j) f then Some (row_of cf j job) else None)) js"

lemma rows_of_flow_eq:
  "set js \<subseteq> set (bt_keys (jobs (cf_flow cf))) \<Longrightarrow> room limit out \<Longrightarrow>
    rows_of_flow cf f limit js out = Ok (\<not> room limit (out @ rows_in f cf js), capped limit (out @ rows_in f cf js))"
proof (induction js arbitrary: out)
  case Nil
  then show ?case by (simp add: rows_in_def map_filter_simps capped_room)
next
  case (Cons j js)
  obtain job where job: "bt_get (jobs (cf_flow cf)) j = Some job" using Cons.prems(1) by (auto simp: bt_in_keys)
  show ?case
  proof (cases "matches (cf_flow cf) j job (status_of cf j) f")
    case True
    then have r: "rows_in f cf (j # js) = row_of cf j job # rows_in f cf js"
      using job by (simp add: rows_in_def map_filter_simps)
    show ?thesis
    proof (cases "room limit (out @ [row_of cf j job])")
      case True
      then have "\<not> full limit (out @ [row_of cf j job])" by (simp add: full_push)
      then show ?thesis
        using Cons.IH[of "out @ [row_of cf j job]"] Cons.prems(1) True \<open>matches _ _ _ _ _\<close> job r
        by (simp add: Let_def)
    next
      case False
      then have "full limit (out @ [row_of cf j job])" by (simp add: full_push)
      moreover have "\<not> room limit ((out @ [row_of cf j job]) @ rows_in f cf js)"
        using False room_prefix by blast
      ultimately show ?thesis
        using \<open>matches _ _ _ _ _\<close> job r False capped_push[OF Cons.prems(2) False] by (simp add: Let_def)
    qed
  next
    case False
    then show ?thesis
      using Cons job by (simp add: rows_in_def map_filter_simps)
  qed
qed

definition all_rows :: "SearchFilter \<Rightarrow> CollectedFlow \<Rightarrow> JobRow list" where
  "all_rows f cf = rows_in f cf (topo_or_key_order cf)"

lemma rows_of_flows_eq:
  "room limit out \<Longrightarrow> rows_of_flows cfs f limit out = Ok (capped limit (out @ concat (map (all_rows f) cfs)))"
proof (induction cfs arbitrary: out)
  case (Cons cf cfs)
  let ?all = "out @ all_rows f cf"
  have r: "rows_of_flow cf f limit (topo_or_key_order cf) out = Ok (\<not> room limit ?all, capped limit ?all)"
    using rows_of_flow_eq[OF _ Cons.prems] topo_or_key_order_keys by (simp add: all_rows_def)
  show ?case
  proof (cases "room limit ?all")
    case True
    then show ?thesis using Cons.IH[OF True] r by (simp add: capped_room)
  next
    case False
    then have "capped limit (?all @ ys) = capped limit ?all" for ys
      by (auto simp: capped_def room_def split: option.splits)
    from this[of "concat (map (all_rows f) cfs)"] show ?thesis using r False by simp
  qed
qed (simp add: capped_room)

lemma room_Nil [simp]: "room limit []"
  by (simp add: room_def max_def split: option.split)

text \<open>
  C37. Job rows never panic: they are the rows of the jobs that pass the filter, flow by flow in
  the order given and in topological order (or key order when the flow has a cycle) within each,
  cut after the limit. A limit of zero still gives one row, because it is only checked after a
  row has been added.
\<close>

theorem job_rows_spec:
  "job_rows collected f limit = Ok
    (let rows = concat (map (\<lambda>cf. List.map_filter (\<lambda>j. Option.bind (bt_get (jobs (cf_flow cf)) j) (\<lambda>job.
         if matches (cf_flow cf) j job (status_of cf j) f then Some (row_of cf j job) else None))
         (topo_or_key_order cf)) collected)
     in case limit of None \<Rightarrow> rows | Some n \<Rightarrow> take (max n 1) rows)"
  using rows_of_flows_eq[OF room_Nil, of collected f limit]
  by (simp add: job_rows_def all_rows_def[abs_def] rows_in_def capped_def Let_def cong: map_cong)

lemma matched_loop_eq:
  "room limit out \<Longrightarrow> matched_loop cfs f limit out = capped limit (out @ filter (listed f) cfs)"
proof (induction cfs arbitrary: out)
  case (Cons cf cfs)
  show ?case
  proof (cases "listed f cf")
    case True
    show ?thesis
    proof (cases "room limit (out @ [cf])")
      case True
      then show ?thesis using Cons.IH[OF True] \<open>listed f cf\<close> by (simp add: full_push Let_def)
    next
      case False
      then show ?thesis using capped_push[OF Cons.prems False] \<open>listed f cf\<close> by (simp add: full_push Let_def)
    qed
  qed (use Cons in simp)
qed (simp add: capped_room)

lemma length_filter_all: "length (filter P xs) = length xs \<longleftrightarrow> (\<forall>x\<in>set xs. P x)"
proof (induction xs)
  case (Cons x xs)
  have "length (filter P xs) \<noteq> Suc (length xs)" using length_filter_le[of P xs] by linarith
  then show ?case using Cons by simp
qed simp

lemma listed_iff:
  "listed f cf \<longleftrightarrow> (if bt_keys (jobs (cf_flow cf)) = [] then is_default_filter f
     else \<exists>j job. bt_get (jobs (cf_flow cf)) j = Some job \<and> matches (cf_flow cf) j job (status_of cf j) f)"
  by (auto simp: listed_def bt_is_empty_iff list_ex_iff bt_get_Some_entries)

text \<open>
  A flow is listed exactly when one of its jobs passes the filter, or it has no job and the
  filter is the default one; the order is kept and the list is cut as the rows are, with the same
  behaviour at limit zero. The flow's row never counts more jobs done than there are, and calls
  the flow done exactly when all of its jobs, and at least one, succeeded.
\<close>

theorem flow_rows_spec:
  "flow_rows collected f limit = map flow_row
    (let shown = filter (\<lambda>cf. if bt_keys (jobs (cf_flow cf)) = [] then is_default_filter f
         else \<exists>j job. bt_get (jobs (cf_flow cf)) j = Some job \<and> matches (cf_flow cf) j job (status_of cf j) f) collected
     in case limit of None \<Rightarrow> shown | Some n \<Rightarrow> take (max n 1) shown)
   \<and> (\<forall>cf. fr_done (flow_row cf) \<le> fr_total (flow_row cf)
       \<and> (fr_status (flow_row cf) = FsDone \<longleftrightarrow> 0 < fr_total (flow_row cf) \<and> fr_done (flow_row cf) = fr_total (flow_row cf)))"
proof (intro conjI allI)
  show "flow_rows collected f limit = map flow_row
    (let shown = filter (\<lambda>cf. if bt_keys (jobs (cf_flow cf)) = [] then is_default_filter f
         else \<exists>j job. bt_get (jobs (cf_flow cf)) j = Some job \<and> matches (cf_flow cf) j job (status_of cf j) f) collected
     in case limit of None \<Rightarrow> shown | Some n \<Rightarrow> take (max n 1) shown)"
    using matched_loop_eq[OF room_Nil, of collected f limit]
    by (simp add: flow_rows_def matched_flows_def capped_def Let_def listed_iff[abs_def])
  fix cf
  let ?ds = "displays_of cf"
  have l: "bt_len (jobs (cf_flow cf)) = length ?ds" by (simp add: displays_of_def bt_len_keys)
  show "fr_done (flow_row cf) \<le> fr_total (flow_row cf)" by (simp add: flow_row_def Let_def l)
  have "length (filter (\<lambda>d. d = Real Success) ?ds) = length ?ds \<longleftrightarrow> (\<forall>d\<in>set ?ds. d = Real Success)"
    by (rule length_filter_all)
  then show "fr_status (flow_row cf) = FsDone \<longleftrightarrow> 0 < fr_total (flow_row cf) \<and> fr_done (flow_row cf) = fr_total (flow_row cf)"
    by (auto simp: flow_row_def Let_def l aggregate_done)
qed

subsection \<open>What is collected\<close>

lemma collect_status_steady [steady_intros]: "steady (collect_status cr r u statuses j)"
  unfolding collect_status_def Let_def by (intro steady_intros)

lemma collect_flow_steady [steady_intros]: "steady (collect_flow cr r flow)"
  unfolding collect_flow_def by (intro steady_intros)

lemma collect_steady [steady_intros]: "steady (collect ws rs cr root common f)"
  unfolding collect_def Let_def by (intro steady_intros)

lemma obeys_collect_listing [inv_intros]: "obeys (changes_only S) (collect ws rs cr root common f)"
  unfolding collect_def collect_flow_def collect_status_def Let_def
  by (intro frame.obeys_bind frame.obeys_ret frame.obeys_try frame.obeys_foldM frame.obeys_if inv_intros)

definition read_status :: "crates \<Rightarrow> PathResolver \<Rightarrow> Uuid \<Rightarrow> 'x world_scheme \<Rightarrow> JobId \<Rightarrow> JobRun option" where
  "read_status cr r u w j = (case val (read_job_run cr (status_file r u j)) w of Ok run \<Rightarrow> Some run | Err _ \<Rightarrow> None)"

lemma val_collect_status:
  "no_faults w \<Longrightarrow> val (collect_status cr r u statuses j) w = Ok (bt_insert j (read_status cr r u w j) statuses)"
  by (cases "node_at (status_file r u j) w")
    (simp_all add: collect_status_def Let_def val_simps steady_intros read_status_def read_job_run_def text_at_def
      split: sum.split)

lemma val_collect_flow:
  assumes nf: "no_faults w"
  shows "val (collect_flow cr r flow) w = Ok \<lparr>cf_flow = flow,
    cf_statuses = fold (\<lambda>j. bt_insert j (read_status cr r (flow_id flow) w j)) (bt_keys (jobs flow)) bt_empty\<rparr>"
proof -
  have "val (act_foldM (collect_status cr r (flow_id flow)) bt_empty (bt_keys (jobs flow))) w
      = Ok (fold (\<lambda>j. bt_insert j (read_status cr r (flow_id flow) w j)) (bt_keys (jobs flow)) bt_empty)"
    by (rule val_foldM_fold[OF collect_status_steady val_collect_status[OF nf] nf])
  then show ?thesis
    by (simp add: collect_flow_def val_bind[OF steady_foldM[OF collect_status_steady] steady_ret nf] val_basic)
qed

lemma fold_insert_get:
  "bt_get (fold (\<lambda>j. bt_insert j (g j)) js m) k = (if k \<in> set js then Some (g k) else bt_get m k)"
  by (induction js arbitrary: m) (auto simp: bt_get_insert)

definition readable_flows :: "crates \<Rightarrow> CommonConfig \<Rightarrow> Path \<Rightarrow> 'x world_scheme \<Rightarrow> JobFlow list" where
  "readable_flows cr common root w = List.map_filter
     (\<lambda>p. case flow_value cr common w p of Ok f \<Rightarrow> Some f | Err _ \<Rightarrow> None) (flow_candidates root w)"

lemma mset_map_filter: "mset (List.map_filter f xs) = image_mset (the \<circ> f) (filter_mset (\<lambda>x. f x \<noteq> None) (mset xs))"
  by (simp add: List.map_filter_def)

lemma map_filter_map: "List.map_filter f (map g xs) = List.map_filter (f \<circ> g) xs"
  by (simp add: List.map_filter_def filter_map comp_def)

lemma val_collect:
  assumes nf: "no_faults w" and d: "node_at root w = Some Dir" and ws: "fair ws" and rs: "fair rs"
  shows "\<exists>flows. val (collect ws rs cr root common f) w = Ok (sort_key (\<lambda>cf. - created_at (cf_flow cf))
      (map (\<lambda>flow. \<lparr>cf_flow = flow, cf_statuses =
          fold (\<lambda>j. bt_insert j (read_status cr \<lparr>res_root = root\<rparr> (flow_id flow) w j)) (bt_keys (jobs flow)) bt_empty\<rparr>) flows))
    \<and> mset flows = mset (readable_flows cr common root w)"
proof -
  let ?ok = "\<lambda>item :: JobManagerError + JobFlow. case item of Ok f \<Rightarrow> Some f | Err _ \<Rightarrow> None"
  let ?r = "\<lparr>res_root = root\<rparr>"
  let ?cf = "\<lambda>flow. \<lparr>cf_flow = flow, cf_statuses =
      fold (\<lambda>j. bt_insert j (read_status cr ?r (flow_id flow) w j)) (bt_keys (jobs flow)) bt_empty\<rparr>"
  let ?items = "map (flow_value cr common w) (completed ws (flow_candidates root w))"
  let ?walked = "List.map_filter ?ok ?items"
  let ?f = "\<lambda>acc flow. act_bind (collect_flow cr ?r flow) (\<lambda>cf. (ret (acc @ [cf]) :: ('x, _) io))"
  have st: "steady (?f acc flow)" for acc flow by (intro steady_intros)
  have "val (?f acc flow) w = Ok (acc @ [?cf flow])" for acc flow
    by (simp add: val_bind[OF collect_flow_steady steady_ret nf] val_collect_flow[OF nf] val_basic)
  from val_foldM_append[OF st this nf, where acc = "[]"]
  have loop: "val (act_foldM ?f [] flows) w = Ok (map ?cf flows)" for flows by (simp add: concat_map_singleton)
  have st2: "steady (let flows = List.map_filter ?ok items
      in act_bind (act_foldM ?f [] (completed rs flows)) (\<lambda>collected.
        ret (sort_key (\<lambda>cf. - created_at (cf_flow cf)) collected)))" for items
    unfolding Let_def by (intro steady_bind steady_foldM st steady_ret)
  have w: "val (walk_flows ws cr root common) w = Ok ?items"
    using d by (simp add: val_walk[OF nf] listing_of_def)
  have "mset (completed rs ?walked) = mset (readable_flows cr common root w)"
    by (simp add: mset_completed[OF rs] readable_flows_def map_filter_map mset_map_filter mset_completed[OF ws])
      (simp add: comp_def)
  moreover have "val (collect ws rs cr root common f) w
      = Ok (sort_key (\<lambda>cf. - created_at (cf_flow cf)) (map ?cf (completed rs ?walked)))"
    unfolding collect_def val_bind[OF walk_steady st2 nf] w
    by (simp add: Let_def val_bind[OF steady_foldM[OF st] steady_ret nf] loop val_basic)
  ultimately show ?thesis by blast
qed

text \<open>
  C36. With no failing system call, and in whatever order the concurrent reads complete, the
  listing holds each readable flow once per directory that has one, newest first; each job of a
  flow comes with the status its status file holds, or none when there is no readable one; and
  collecting changes nothing.
\<close>

theorem collect_spec:
  assumes "\<forall>n. w_fault w n = None" and "node_at root w = Some Dir"
    and "\<forall>n. mset (walking n) = mset [0..<n]" and "\<forall>n. mset (reading n) = mset [0..<n]"
    and "collect walking reading cr root common f w = (result, w')"
  shows "\<exists>out. result = Ok out
    \<and> sorted_wrt (\<lambda>a b. created_at (cf_flow b) \<le> created_at (cf_flow a)) out
    \<and> mset (map cf_flow out) = mset (readable_flows cr common root w)
    \<and> (\<forall>cf\<in>set out. \<forall>j\<in>set (bt_keys (jobs (cf_flow cf))).
         status_of cf j = read_status cr \<lparr>res_root = root\<rparr> (flow_id (cf_flow cf)) w j)
    \<and> (\<forall>p. node_at p w' = node_at p w)"
proof -
  have nf: "no_faults w" using assms(1) by (simp add: no_faults_def)
  let ?k = "\<lambda>cf. - created_at (cf_flow cf)"
  let ?cf = "\<lambda>flow. \<lparr>cf_flow = flow, cf_statuses =
      fold (\<lambda>j. bt_insert j (read_status cr \<lparr>res_root = root\<rparr> (flow_id flow) w j)) (bt_keys (jobs flow)) bt_empty\<rparr>"
  obtain flows where v: "val (collect walking reading cr root common f) w = Ok (sort_key ?k (map ?cf flows))"
    and m: "mset flows = mset (readable_flows cr common root w)"
    using val_collect[OF nf assms(2), of walking reading cr common f] assms(3,4) by (auto simp: fair_def)
  let ?out = "sort_key ?k (map ?cf flows)"
  have "sorted (map ?k ?out)" by (rule sorted_sort_key)
  then have "sorted_wrt (\<lambda>a b. created_at (cf_flow b) \<le> created_at (cf_flow a)) ?out"
    by (simp add: sorted_map)
  moreover have "mset (map cf_flow ?out) = mset flows"
    by (simp add: multiset.map_comp comp_def)
  moreover have "status_of cf j = read_status cr \<lparr>res_root = root\<rparr> (flow_id (cf_flow cf)) w j"
    if "cf \<in> set ?out" "j \<in> set (bt_keys (jobs (cf_flow cf)))" for cf j
    using that by (auto simp: status_of_def fold_insert_get)
  moreover have "result = Ok ?out" using v assms(5) by (simp add: val_def)
  moreover have "node_at p w' = node_at p w" for p
    using obeysD[OF obeys_collect_listing[of "{}"] assms(5)] by (simp add: changes_only_def)
  ultimately show ?thesis using m by (intro exI[of _ ?out]) simp
qed

definition listing_world :: world where
  "listing_world = quiet_world
    [([RootDir, Normal ''data''], Dir),
     ([RootDir, Normal ''data'', Normal (uuid_str sample_uuid)], Dir),
     ([RootDir, Normal ''data'', Normal (uuid_str sample_uuid), Normal ''flow.toml''], File ''FLOW''),
     (status_file sample_root sample_uuid (JobId ''a''), File queued_text)]"

lemma listing_world_flows:
  "readable_flows sample_crates sample_common [RootDir, Normal ''data''] listing_world = [sample_flow]"
proof -
  have c: "flow_candidates [RootDir, Normal ''data''] listing_world
      = [[RootDir, Normal ''data'', Normal (uuid_str sample_uuid), Normal ''flow.toml'']]" by code_simp
  have "no_faults listing_world" by (simp add: no_faults_def listing_world_def quiet_world_def)
  moreover have "text_at [RootDir, Normal ''data'', Normal (uuid_str sample_uuid), Normal ''flow.toml''] listing_world
      = Ok ''FLOW''"
    by (simp add: text_at_def node_at_def listing_world_def quiet_world_def max_toml_size_def
        DEFAULT_MAX_TOML_SIZE_def node_len_def)
  ultimately show ?thesis
    by (simp add: readable_flows_def c flow_value_def read_flow_def Let_def val_simps steady_intros
        sample_crates_def inject_partition_defaults_def map_filter_simps)
qed

lemma collect_spec_witness:
  "\<exists>out. fst (collect (\<lambda>n. rev [0..<n]) (\<lambda>n. [0..<n]) sample_crates [RootDir, Normal ''data''] sample_common
      default_filter listing_world) = Ok out \<and> map cf_flow out = [sample_flow]"
proof -
  have d: "node_at [RootDir, Normal ''data''] listing_world = Some Dir"
    by (simp add: node_at_def listing_world_def quiet_world_def)
  have nf: "\<forall>n. w_fault listing_world n = None" by (simp add: listing_world_def quiet_world_def)
  from collect_spec[OF nf d _ _ prod.collapse[symmetric], of "\<lambda>n. rev [0..<n]" "\<lambda>n. [0..<n]" sample_crates sample_common default_filter]
  show ?thesis by (auto simp: listing_world_flows mset_single_iff simp flip: mset_map)
qed

end
