(* ===== verification/Format.thy ===== *)
theory Format
  imports Listing Render
begin

section \<open>Tables, JSON and trees (listing/format.rs)\<close>

text \<open>
  The renderers of a listing. Widths count characters, not bytes. The JSON serialiser is an
  argument; the records it is given are modelled. The tree panics on an order that names a
  missing job, which the theorem on it excludes.
\<close>

subsection \<open>JSON views\<close>

record JobRowJson =
  jj_flow :: string
  jj_job :: string
  jj_status :: string
  jj_slurm_jobid :: "u64 option"
  jj_program :: string
  jj_updated_at :: "string option"
  jj_created_at :: string

definition job_row_json :: "crates \<Rightarrow> JobRow \<Rightarrow> JobRowJson" where
  "job_row_json cr r =
     \<lparr>jj_flow = uuid_str (jr_flow_uuid r), jj_job = jr_job_id r, jj_status = display_long (jr_status r),
      jj_slurm_jobid = jr_slurm_jobid r, jj_program = jr_program r,
      jj_updated_at = map_option (to_rfc3339 cr) (jr_updated_at r),
      jj_created_at = to_rfc3339 cr (jr_created_at r)\<rparr>"

record FlowRowJson =
  fj_flow :: string
  fj_total :: nat
  fj_done :: nat
  fj_status :: string
  fj_created_at :: string

definition flow_row_json :: "crates \<Rightarrow> FlowRow \<Rightarrow> FlowRowJson" where
  "flow_row_json cr r =
     \<lparr>fj_flow = uuid_str (fr_flow_uuid r), fj_total = fr_total r, fj_done = fr_done r,
      fj_status = flow_status_str (fr_status r), fj_created_at = to_rfc3339 cr (fr_created_at r)\<rparr>"

definition format_jobs_json :: "(JobRowJson list \<Rightarrow> string + string) \<Rightarrow> crates \<Rightarrow> JobRow list \<Rightarrow> string + string" where
  "format_jobs_json pretty cr rows = pretty (map (job_row_json cr) rows)"

definition format_flows_json :: "(FlowRowJson list \<Rightarrow> string + string) \<Rightarrow> crates \<Rightarrow> FlowRow list \<Rightarrow> string + string" where
  "format_flows_json pretty cr rows = pretty (map (flow_row_json cr) rows)"

subsection \<open>Tables\<close>

definition pad :: "string \<Rightarrow> nat \<Rightarrow> string" where
  "pad s w = (let len = chars_count s in if w \<le> len then s else s @ replicate (w - len) CHR '' '')"

definition col_width :: "string \<Rightarrow> string list \<Rightarrow> nat" where
  "col_width header cells = foldl (\<lambda>m c. max m (chars_count c)) (chars_count header) cells"

definition render_row :: "string list \<Rightarrow> nat list \<Rightarrow> string" where
  "render_row cells w =
     concat (map (\<lambda>(i, c). (if 0 < i then ''  '' else [])
       @ (if i = length cells - 1 then c else pad c (w ! i))) (List.enumerate 0 cells)) @ newline"

definition widths :: "string list \<Rightarrow> string list list \<Rightarrow> nat list" where
  "widths hdr cells = map (\<lambda>(i, h). col_width h (map (\<lambda>c. c ! i) cells)) (List.enumerate 0 hdr)"

definition table_text :: "string list \<Rightarrow> string list list \<Rightarrow> bool \<Rightarrow> string" where
  \<comment> \<open>the part the two tables share\<close>
  "table_text hdr cells no_header =
     (let w = widths hdr cells
      in (if no_header then [] else render_row hdr w) @ concat (map (\<lambda>c. render_row c w) cells))"

definition jobs_header :: "string list" where
  "jobs_header = [''FLOW'', ''JOB'', ''ST'', ''SLURM_ID'', ''PROGRAM'', ''UPDATED'', ''CREATED'']"

definition job_cells :: "crates \<Rightarrow> JobRow \<Rightarrow> string list" where
  "job_cells cr r =
     [take 8 (uuid_str (jr_flow_uuid r)), jr_job_id r, display_code (jr_status r),
      (case jr_slurm_jobid r of Some j \<Rightarrow> show_nat (unat j) | None \<Rightarrow> ''-''), jr_program r,
      (case jr_updated_at r of Some t \<Rightarrow> to_rfc3339 cr t | None \<Rightarrow> ''-''),
      to_rfc3339 cr (jr_created_at r)]"

definition format_jobs_table :: "crates \<Rightarrow> JobRow list \<Rightarrow> bool \<Rightarrow> string" where
  "format_jobs_table cr rows no_header = table_text jobs_header (map (job_cells cr) rows) no_header"

definition flows_header :: "string list" where
  "flows_header = [''FLOW'', ''TOTAL'', ''DONE'', ''STATUS'', ''CREATED'']"

definition flow_cells :: "crates \<Rightarrow> FlowRow \<Rightarrow> string list" where
  "flow_cells cr r =
     [take 8 (uuid_str (fr_flow_uuid r)), show_nat (fr_total r), show_nat (fr_done r),
      flow_status_str (fr_status r), to_rfc3339 cr (fr_created_at r)]"

definition format_flows_table :: "crates \<Rightarrow> FlowRow list \<Rightarrow> bool \<Rightarrow> string" where
  "format_flows_table cr rows no_header = table_text flows_header (map (flow_cells cr) rows) no_header"

subsection \<open>Trees\<close>

definition middle_dot :: string where
  "middle_dot = map char_of [194, 183 :: nat]"

definition branch_text :: "bool \<Rightarrow> string" where
  \<comment> \<open>the box-drawing characters, in UTF-8\<close>
  "branch_text is_last = map char_of
     (if is_last then [226, 148, 148, 226, 148, 128 :: nat] else [226, 148, 156, 226, 148, 128])"

definition edges_text :: "JobEdge list \<Rightarrow> string" where
  "edges_text ps =
     (if ps = [] then []
      else ''  ('' @ join '', '' (map (\<lambda>e. kind_str (edge_kind e) @ '' '' @ jid (edge_from e)) ps) @ '')'')"

definition tree_line :: "CollectedFlow \<Rightarrow> bool \<Rightarrow> JobId \<Rightarrow> Job \<Rightarrow> string" where
  "tree_line cf is_last j job =
     branch_text is_last @ '' '' @ jid j @ ''  '' @ display_code (job_display cf j) @ edges_text (parents job) @ newline"

definition tree_job :: "CollectedFlow \<Rightarrow> nat \<Rightarrow> nat \<times> JobId \<Rightarrow> string + string" where
  "tree_job cf n entry = (case entry of (i, j) \<Rightarrow>
     (case bt_get (jobs (cf_flow cf)) j of
        None \<Rightarrow> Err ''no entry found for key''
      | Some job \<Rightarrow> Ok (tree_line cf (i = n - 1) j job)))"

definition tree_header :: "CollectedFlow \<Rightarrow> string" where
  "tree_header cf =
     (let displays = displays_of cf
      in take 8 (uuid_str (flow_id (cf_flow cf))) @ ''  ('' @ show_nat (bt_len (jobs (cf_flow cf))) @ '' jobs ''
         @ middle_dot @ '' '' @ show_nat (length (filter (\<lambda>d. d = Real Success) displays)) @ '' OK ''
         @ middle_dot @ '' '' @ flow_status_str (aggregate_flow_status displays) @ '')'' @ newline)"

definition tree_flow :: "CollectedFlow \<Rightarrow> string + string" where
  "tree_flow cf =
     (let order = topo_or_key_order cf
      in map_ok (\<lambda>lines. tree_header cf @ concat lines)
           (traverse (tree_job cf (length order)) (List.enumerate 0 order)))"

definition format_tree :: "CollectedFlow list \<Rightarrow> string + string" where
  "format_tree flows =
     map_ok concat (traverse (\<lambda>(fi, cf). map_ok ((@) (if 0 < fi then newline else [])) (tree_flow cf))
       (List.enumerate 0 flows))"

subsection \<open>Columns line up\<close>

lemma pad_eq: "pad s w = s @ replicate (w - chars_count s) CHR '' ''"
  by (simp add: pad_def Let_def)

lemma col_width_ge:
  "chars_count header \<le> col_width header cells" "c \<in> set cells \<Longrightarrow> chars_count c \<le> col_width header cells"
proof -
  have mono: "m \<le> foldl (\<lambda>m c. max m (chars_count c)) m cs" for m and cs :: "string list"
    by (induction cs arbitrary: m) (auto intro: order_trans[OF max.cobounded1])
  have "c \<in> set cs \<Longrightarrow> chars_count c \<le> foldl (\<lambda>m c. max m (chars_count c)) m cs" for m c and cs :: "string list"
    by (induction cs arbitrary: m) (auto intro: order_trans[OF max.cobounded2 mono])
  then show "c \<in> set cells \<Longrightarrow> chars_count c \<le> col_width header cells" by (simp add: col_width_def)
  show "chars_count header \<le> col_width header cells" by (simp add: col_width_def mono)
qed

lemma widths_nth:
  "i < length hdr \<Longrightarrow> widths hdr cells ! i = col_width (hdr ! i) (map (\<lambda>c. c ! i) cells)"
  "length (widths hdr cells) = length hdr"
  by (simp_all add: widths_def nth_enumerate_eq)

definition aligned :: "nat list \<Rightarrow> string list \<Rightarrow> string" where
  \<comment> \<open>every cell but the last filled up with blanks to the width of its column\<close>
  "aligned ws cells = concat (map (\<lambda>(c, w). c @ replicate (w - chars_count c) CHR '' '' @ ''  '') (zip (butlast cells) ws))
     @ last cells @ newline"

lemma enumerate_snoc: "List.enumerate n (xs @ [x]) = List.enumerate n xs @ [(n + length xs, x)]"
  by (simp add: enumerate_append_eq)

lemma render_row_aligned:
  assumes "cells \<noteq> []" and "length cells = length ws"
  shows "render_row cells ws = aligned ws cells"
proof -
  obtain cs c where cells: "cells = cs @ [c]" using assms(1) by (cases cells rule: rev_cases) auto
  have n: "length cs < length ws" using assms(2) cells by simp
  have shift: "concat (map (\<lambda>(i, d). (if 0 < i then ''  '' else []) @ pad d (ws ! i)) (List.enumerate 0 ds))
        @ (if 0 < length ds then ''  '' else [])
      = concat (map (\<lambda>(d, w). d @ replicate (w - chars_count d) CHR '' '' @ ''  '') (zip ds ws))"
    if "length ds \<le> length ws" for ds
    using that
  proof (induction ds rule: rev_induct)
    case (snoc d ds)
    have z: "zip (ds @ [d]) ws = zip ds ws @ [(d, ws ! length ds)]"
      using zip_append1[of ds "[d]" ws] zip_append1[of ds "[]" ws] Cons_nth_drop_Suc[of "length ds" ws] snoc.prems
      by (metis Suc_le_eq append.right_neutral length_append_singleton zip_Cons_Cons zip_Nil)
    show ?case
      using snoc by (simp add: enumerate_snoc z pad_eq flip: append_assoc)
  qed simp
  have "concat (map (\<lambda>(i, d). (if 0 < i then ''  '' else []) @ (if i = length cells - 1 then d else pad d (ws ! i)))
        (List.enumerate 0 cells))
      = concat (map (\<lambda>(i, d). (if 0 < i then ''  '' else []) @ pad d (ws ! i)) (List.enumerate 0 cs))
        @ (if 0 < length cs then ''  '' else []) @ c"
  proof -
    let ?f = "\<lambda>(i, d). (if 0 < i then ''  '' else []) @ (if i = length cells - 1 then d else pad d (ws ! i))"
    have "map ?f (List.enumerate 0 cs)
        = map (\<lambda>(i, d). (if 0 < i then ''  '' else []) @ pad d (ws ! i)) (List.enumerate 0 cs)"
      by (rule map_cong) (auto simp: cells in_set_enumerate_eq)
    moreover have "List.enumerate 0 cells = List.enumerate 0 cs @ [(length cs, c)]"
      by (simp add: cells enumerate_snoc)
    ultimately have "concat (map ?f (List.enumerate 0 cells))
        = concat (map (\<lambda>(i, d). (if 0 < i then ''  '' else []) @ pad d (ws ! i)) (List.enumerate 0 cs))
          @ ?f (length cs, c)"
      by (simp only: map_append concat_append list.map concat.simps append_Nil2)
    then show ?thesis by (simp add: cells)
  qed
  then show ?thesis
    using shift[of cs] n by (simp add: render_row_def aligned_def cells flip: append_assoc)
qed

lemma table_aligned:
  assumes "hdr \<noteq> []" and "\<And>c. c \<in> set cells \<Longrightarrow> length c = length hdr"
  shows "\<exists>ws. length ws = length hdr
    \<and> table_text hdr cells nh = concat (map (aligned ws) ((if nh then [] else [hdr]) @ cells))
    \<and> (\<forall>line\<in>set (hdr # cells). list_all2 (\<lambda>c w. chars_count c \<le> w) line ws)"
proof (intro exI conjI ballI)
  let ?ws = "widths hdr cells"
  show len: "length ?ws = length hdr" by (rule widths_nth)
  have row: "render_row line ?ws = aligned ?ws line" if "line \<in> set (hdr # cells)" for line
  proof (rule render_row_aligned)
    have "length line = length hdr" using that assms(2) by auto
    then show "length line = length ?ws" and "line \<noteq> []" using len assms(1) by auto
  qed
  then show "table_text hdr cells nh = concat (map (aligned ?ws) ((if nh then [] else [hdr]) @ cells))"
    by (simp add: table_text_def Let_def cong: map_cong)
  show "list_all2 (\<lambda>c w. chars_count c \<le> w) line ?ws" if "line \<in> set (hdr # cells)" for line
  proof (rule list_all2_all_nthI)
    show l: "length line = length ?ws" using that assms len by auto
    fix i
    assume "i < length line"
    then have "i < length hdr" using l len by simp
    then show "chars_count (line ! i) \<le> ?ws ! i"
    proof (cases "line = hdr")
      case True
      then show ?thesis using \<open>i < length hdr\<close> by (simp add: widths_nth col_width_ge(1))
    next
      case False
      then have "line ! i \<in> set (map (\<lambda>c. c ! i) cells)" using that by auto
      then show ?thesis using \<open>i < length hdr\<close> by (simp only: widths_nth col_width_ge(2))
    qed
  qed
qed

text \<open>
  The columns of a job table line up: there are column widths, none smaller than a cell or
  heading of its column, such that every line is its cells, all but the last filled up with
  blanks to the width, counted in characters, two blanks apart. Without rows and header the
  table is empty.
\<close>

theorem format_jobs_table_aligned:
  "\<exists>ws. length ws = 7
    \<and> format_jobs_table cr rows no_header =
        concat (map (\<lambda>cells. concat (map (\<lambda>(c, w). c @ replicate (w - chars_count c) CHR '' '' @ ''  '')
            (zip (butlast cells) ws)) @ last cells @ newline)
          ((if no_header then [] else [jobs_header]) @ map (job_cells cr) rows))
    \<and> list_all (\<lambda>cells. list_all2 (\<lambda>c w. chars_count c \<le> w) cells ws) (jobs_header # map (job_cells cr) rows)"
proof -
  have "length jobs_header = 7" "jobs_header \<noteq> []" by (simp_all add: jobs_header_def)
  moreover have "length c = 7" if "c \<in> set (map (job_cells cr) rows)" for c
    using that by (auto simp: job_cells_def)
  ultimately show ?thesis
    using table_aligned[of jobs_header "map (job_cells cr) rows" no_header]
    by (simp add: format_jobs_table_def aligned_def[abs_def] list_all_iff)
qed

lemma format_flows_table_aligned:
  "\<exists>ws. length ws = 5
    \<and> format_flows_table cr rows no_header =
        concat (map (aligned ws) ((if no_header then [] else [flows_header]) @ map (flow_cells cr) rows))
    \<and> (\<forall>cells\<in>set (flows_header # map (flow_cells cr) rows). list_all2 (\<lambda>c w. chars_count c \<le> w) cells ws)"
proof -
  have "length flows_header = 5" "flows_header \<noteq> []" by (simp_all add: flows_header_def)
  moreover have "length c = 5" if "c \<in> set (map (flow_cells cr) rows)" for c
    using that by (auto simp: flow_cells_def)
  ultimately show ?thesis
    using table_aligned[of flows_header "map (flow_cells cr) rows" no_header]
    by (simp add: format_flows_table_def)
qed

subsection \<open>The tree is total\<close>

definition tree_block :: "CollectedFlow \<Rightarrow> string" where
  "tree_block cf = tree_header cf
     @ concat (map (\<lambda>(i, j). tree_line cf (i = bt_len (jobs (cf_flow cf)) - 1) j (the (bt_get (jobs (cf_flow cf)) j)))
         (List.enumerate 0 (topo_or_key_order cf)))"

lemma traverse_all_Ok: "(\<And>x. x \<in> set xs \<Longrightarrow> f x = Ok (g x)) \<Longrightarrow> traverse f xs = Ok (map g xs)"
  by (induction xs) simp_all

lemma order_length: "length (topo_or_key_order cf) = bt_len (jobs (cf_flow cf))"
  using topo_or_key_order_keys[of cf] distinct_card[of "topo_or_key_order cf"]
    distinct_card[OF bt_distinct_keys, of "jobs (cf_flow cf)"]
  by (simp add: bt_len_keys)

lemma tree_flow_eq: "tree_flow cf = Ok (tree_block cf)"
proof -
  have "tree_job cf (bt_len (jobs (cf_flow cf))) e = Ok ((\<lambda>(i, j). tree_line cf (i = bt_len (jobs (cf_flow cf)) - 1) j
      (the (bt_get (jobs (cf_flow cf)) j))) e)"
    if "e \<in> set (List.enumerate 0 (topo_or_key_order cf))" for e
  proof -
    obtain i j where e: "e = (i, j)" by fastforce
    have "j \<in> set (topo_or_key_order cf)" using that e by (auto simp: in_set_enumerate_eq)
    then have "j \<in> set (bt_keys (jobs (cf_flow cf)))" by (simp add: topo_or_key_order_keys)
    then show ?thesis by (auto simp: e tree_job_def bt_in_keys)
  qed
  then have "traverse (tree_job cf (bt_len (jobs (cf_flow cf)))) (List.enumerate 0 (topo_or_key_order cf))
      = Ok (map (\<lambda>(i, j). tree_line cf (i = bt_len (jobs (cf_flow cf)) - 1) j (the (bt_get (jobs (cf_flow cf)) j)))
          (List.enumerate 0 (topo_or_key_order cf)))"
    by (rule traverse_all_Ok)
  then show ?thesis
    by (simp add: tree_flow_def Let_def order_length tree_block_def)
qed

text \<open>
  The tree never panics: it is the flows' blocks separated by one empty line, each a
  header line and one line per job, in topological order when there is one.
\<close>

theorem format_tree_total:
  "format_tree flows = Ok (join newline (map tree_block flows))"
proof -
  let ?g = "\<lambda>(fi, cf). (if 0 < fi then newline else []) @ tree_block cf"
  have "traverse (\<lambda>(fi, cf). map_ok ((@) (if 0 < fi then newline else [])) (tree_flow cf)) (List.enumerate 0 flows)
      = Ok (map ?g (List.enumerate 0 flows))"
    by (rule traverse_all_Ok) (auto simp: tree_flow_eq)
  moreover have "concat (map ?g (List.enumerate (Suc n) xs)) = concat (map (\<lambda>cf. newline @ tree_block cf) xs)" for n xs
    by (induction xs arbitrary: n) simp_all
  moreover have "join newline (x # xs) = x @ concat (map (\<lambda>y. newline @ y) xs)" for x and xs :: "string list"
    by (induction xs arbitrary: x) simp_all
  ultimately show ?thesis by (cases flows) (simp_all add: format_tree_def comp_def)
qed

end
