(* ===== verification/Doctor.thy ===== *)
theory Doctor
  imports Reading Display Walk Samples
begin

section \<open>Doctor (doctor/*.rs)\<close>

text \<open>
  The findings and the report, one definition per check, and \<open>run_doctor\<close>. A check reads with
  the readers the other commands use and turns their errors into findings, so it has a value
  whatever happens to the file system; only the listing of the root can make doctor itself fail.
\<close>

subsection \<open>Findings and reports (doctor/report.rs)\<close>

datatype Severity = Pass | Warn | Fail

definition severity_label :: "Severity \<Rightarrow> string" where
  "severity_label s = (case s of Pass \<Rightarrow> ''PASS'' | Warn \<Rightarrow> ''WARN'' | Fail \<Rightarrow> ''FAIL'')"

record Finding =
  fi_severity :: Severity
  fi_path :: Path
  fi_message :: string

definition finding_pass :: "Path \<Rightarrow> string \<Rightarrow> Finding" where
  "finding_pass path message = \<lparr>fi_severity = Pass, fi_path = path, fi_message = message\<rparr>"

definition finding_warn :: "Path \<Rightarrow> string \<Rightarrow> Finding" where
  "finding_warn path message = \<lparr>fi_severity = Warn, fi_path = path, fi_message = message\<rparr>"

definition finding_fail :: "Path \<Rightarrow> string \<Rightarrow> Finding" where
  "finding_fail path message = \<lparr>fi_severity = Fail, fi_path = path, fi_message = message\<rparr>"

record DoctorReport =
  dr_findings :: "Finding list"

definition report_new :: DoctorReport where
  "report_new = \<lparr>dr_findings = []\<rparr>"

definition report_push :: "Finding \<Rightarrow> DoctorReport \<Rightarrow> DoctorReport" where
  "report_push f r = r\<lparr>dr_findings := dr_findings r @ [f]\<rparr>"

definition report_extend :: "Finding list \<Rightarrow> DoctorReport \<Rightarrow> DoctorReport" where
  "report_extend fs r = r\<lparr>dr_findings := dr_findings r @ fs\<rparr>"

definition report_count :: "Severity \<Rightarrow> DoctorReport \<Rightarrow> nat" where
  "report_count sev r = length (filter (\<lambda>f. fi_severity f = sev) (dr_findings r))"

definition has_fail :: "DoctorReport \<Rightarrow> bool" where
  "has_fail r \<longleftrightarrow> 0 < report_count Fail r"

definition report_display :: "DoctorReport \<Rightarrow> string" where
  "report_display r =
     concat (map (\<lambda>f. severity_label (fi_severity f) @ ''  '' @ path_display (fi_path f) @ ''  ''
        @ fi_message f @ [CHR 0x0A]) (dr_findings r))
     @ ''summary: '' @ show_nat (report_count Pass r) @ '' pass, '' @ show_nat (report_count Warn r)
     @ '' warn, '' @ show_nat (report_count Fail r) @ '' fail'' @ [CHR 0x0A]"

subsection \<open>Checks (doctor/checks.rs)\<close>

definition check_flow :: "crates \<Rightarrow> Path \<Rightarrow> CommonConfig \<Rightarrow> ('x, JobFlow option \<times> Finding list) io" where
  "check_flow cr fdir common =
     (let path = join_str fdir ''flow.toml''
      in act_bind (act_try (read_flow cr path common)) (\<lambda>res.
         ret (case res of
                Ok flow \<Rightarrow> (Some flow, [finding_pass path ''flow.toml parses as JobFlow''])
              | Err e \<Rightarrow> (None, [finding_fail path (err_display cr e)]))))"

definition check_plan :: "crates \<Rightarrow> Path \<Rightarrow> ('x, Finding list) io" where
  "check_plan cr fdir =
     (let path = join_str fdir ''plan.toml''
      in act_bind (path_exists path) (\<lambda>ex.
         if \<not> ex then ret [finding_fail path ''plan.toml is missing'']
         else act_bind (act_try (read_plan cr path)) (\<lambda>res.
              ret (case res of
                     Ok _ \<Rightarrow> [finding_pass path ''plan.toml parses as ExperimentPlan'']
                   | Err e \<Rightarrow> [finding_fail path (err_display cr e)]))))"

definition check_flow_effective :: "crates \<Rightarrow> Path \<Rightarrow> ('x, Finding list) io" where
  "check_flow_effective cr fdir =
     (let path = join_str (join_str fdir ''.jm'') ''flow.effective.toml''
      in act_bind (path_exists path) (\<lambda>ex.
         if \<not> ex then ret [finding_pass path (''no snapshot yet (not rendered) '' @ em_dash @ '' ok'')]
         else act_bind (act_try (read_flow_effective cr path)) (\<lambda>res.
              ret (case res of
                     Ok _ \<Rightarrow> [finding_pass path ''flow.effective.toml parses as JobFlow'']
                   | Err e \<Rightarrow> [finding_fail path (err_display cr e)]))))"

definition check_status_files :: "crates \<Rightarrow> Path \<Rightarrow> string list \<Rightarrow> ('x, Finding list) io" where
  "check_status_files cr fdir job_ids =
     act_foldM (\<lambda>out j.
       let path = join_str (join_str (join_str fdir ''.jm'') j) ''status.toml''
       in act_bind (path_exists path) (\<lambda>ex.
          if \<not> ex then ret out
          else act_bind (act_try (read_job_run cr path)) (\<lambda>res.
               ret (out @ [case res of
                      Ok _ \<Rightarrow> finding_pass path ''status.toml parses as JobRun''
                    | Err e \<Rightarrow> finding_fail path (err_display cr e)]))))
     [] job_ids"

definition check_uuid_matches_dir :: "crates \<Rightarrow> Path \<Rightarrow> JobFlow \<Rightarrow> Finding list" where
  "check_uuid_matches_dir cr fdir flow =
     (let path = join_str fdir ''flow.toml'';
          dir_name = (case file_name fdir of Some n \<Rightarrow> n | None \<Rightarrow> ''<non-utf8>'')
      in case uuid_parse cr dir_name of
           Ok dir_uuid \<Rightarrow>
             if dir_uuid = flow_id flow
             then [finding_pass path (''uuid matches directory name ('' @ uuid_str dir_uuid @ '')'')]
             else [finding_fail path (''uuid '' @ uuid_str (flow_id flow)
                     @ '' does not match directory name '' @ uuid_str dir_uuid)]
         | Err _ \<Rightarrow> [finding_fail path (''flow directory name '' @ str_debug dir_name @ '' is not a valid UUID'')])"

definition dangling :: "JobFlow \<Rightarrow> (JobId \<times> JobId) list" where
  \<comment> \<open>a job and a parent of it that the flow does not have, in the order of the two loops\<close>
  "dangling flow = concat (map (\<lambda>(j, job).
     map (\<lambda>e. (j, edge_from e)) (filter (\<lambda>e. \<not> bt_contains (jobs flow) (edge_from e)) (parents job)))
     (bt_entries (jobs flow)))"

definition check_parents_resolve :: "Path \<Rightarrow> JobFlow \<Rightarrow> Finding list" where
  "check_parents_resolve fdir flow =
     (let path = join_str fdir ''flow.toml'';
          out = map (\<lambda>(j, p). finding_fail path (''job '' @ str_debug (jid j) @ '' has parent ''
                  @ str_debug (jid p) @ '' which is not a job in this flow'')) (dangling flow)
      in if out = [] then [finding_pass path ''all parent edges resolve''] else out)"

definition names_debug :: "string list \<Rightarrow> string" where
  \<comment> \<open>the Debug format of a vector of strings\<close>
  "names_debug xs = ''['' @ join '', '' (map str_debug xs) @ '']''"

definition coverage_findings :: "Path \<Rightarrow> JobFlow \<Rightarrow> ExperimentPlan \<Rightarrow> Finding list" where
  "coverage_findings path flow plan =
     (let flow_jobs = map jid (bt_keys (jobs flow));
          plan_names = map jid (bt_keys (plan_jobs plan));
          missing = filter (\<lambda>n. n \<notin> set plan_names) flow_jobs;
          extra = filter (\<lambda>n. n \<notin> set flow_jobs) plan_names;
          out = (if missing = [] then []
                 else [finding_warn path (''plan has no entry for flow jobs: '' @ names_debug missing)])
              @ (if extra = [] then []
                 else [finding_warn path (''plan has entries for unknown jobs: '' @ names_debug extra)])
      in if out = [] then [finding_pass path (''plan covers exactly the flow'' @ [CHR 0x27] @ ''s jobs'')] else out)"

definition check_plan_coverage :: "crates \<Rightarrow> Path \<Rightarrow> JobFlow \<Rightarrow> ('x, Finding list) io" where
  "check_plan_coverage cr fdir flow =
     (let path = join_str fdir ''plan.toml''
      in act_bind (path_exists path) (\<lambda>ex.
         if \<not> ex then ret []
         else act_bind (act_try (read_plan cr path)) (\<lambda>res.
              ret (case res of Ok plan \<Rightarrow> coverage_findings path flow plan | Err _ \<Rightarrow> []))))"

definition log_dir_finding :: "Path \<Rightarrow> JobId \<Rightarrow> string \<times> Path \<Rightarrow> Finding" where
  "log_dir_finding path j m = (case m of (field, dir) \<Rightarrow>
     finding_warn path (''job '' @ str_debug (jid j) @ '': '' @ field @ '' parent dir '' @ path_display dir
       @ '' does not exist. sbatch does not create it; SLURM will fail the job before it runs. ''
       @ ''`mkdir -p` it or fix the path.''))"

definition check_log_dirs_exist :: "Path \<Rightarrow> Path \<Rightarrow> JobFlow \<Rightarrow> CommonConfig \<Rightarrow> ('x, Finding list) io" where
  "check_log_dirs_exist root fdir flow common =
     (let path = join_str fdir ''flow.toml''
      in act_bind (act_foldM (\<lambda>out (j, job).
           act_bind (missing_log_dirs root (merge_with_defaults common (config (spec job)))) (\<lambda>missing.
           ret (out @ map (log_dir_finding path j) missing)))
         [] (bt_entries (jobs flow))) (\<lambda>out.
         ret (if out = []
              then [finding_pass path ''log_stdout/log_stderr parent directories exist (or unset)'']
              else out)))"

subsection \<open>The run (doctor/mod.rs)\<close>

definition flow_dirs :: "Path \<Rightarrow> ('x, Path list) io" where
  "flow_dirs root =
     act_bind (act_map_err (Io root) (read_dir root)) (\<lambda>entries.
     act_bind (act_foldM (\<lambda>out entry.
       act_bind (act_map_err (Io root) (dir_entry entry)) (\<lambda>p.
       act_bind (path_is_dir p) (\<lambda>d.
       if \<not> d then ret out
       else act_bind (path_is_file (join_str p ''flow.toml'')) (\<lambda>f. ret (if f then out @ [p] else out)))))
     [] entries) (\<lambda>out. ret (sort out)))"

datatype DoctorScope = AllFlows | OneFlow Uuid

definition doctor_common :: "crates \<Rightarrow> Path \<Rightarrow> ('x, CommonConfig \<times> Finding) io" where
  "doctor_common cr root =
     (let common_path = join_str root ''common.toml''
      in act_bind (path_exists common_path) (\<lambda>ex.
         if ex then act_bind (act_try (read_common cr common_path)) (\<lambda>res.
                ret (case res of
                       Ok c \<Rightarrow> (c, finding_pass common_path ''common.toml parses as CommonConfig'')
                     | Err e \<Rightarrow> (synth_empty_common, finding_fail common_path (err_display cr e))))
         else ret (synth_empty_common, finding_pass common_path (''no common.toml (optional) '' @ em_dash @ '' ok''))))"

definition doctor_flow :: "crates \<Rightarrow> Path \<Rightarrow> CommonConfig \<Rightarrow> Path \<Rightarrow> ('x, Finding list) io" where
  \<comment> \<open>the body of the loop over the directories\<close>
  "doctor_flow cr root common dir =
     act_bind (check_flow cr dir common) (\<lambda>(flow, fs1).
     act_bind (check_plan cr dir) (\<lambda>fs2.
     act_bind (check_flow_effective cr dir) (\<lambda>fs3.
     case flow of
       None \<Rightarrow> ret (fs1 @ fs2 @ fs3)
     | Some fl \<Rightarrow>
         act_bind (check_status_files cr dir (map jid (bt_keys (jobs fl)))) (\<lambda>fs4.
         act_bind (check_plan_coverage cr dir fl) (\<lambda>fs7.
         act_bind (check_log_dirs_exist root dir fl common) (\<lambda>fs8.
         ret (fs1 @ fs2 @ fs3 @ fs4 @ check_uuid_matches_dir cr dir fl @ check_parents_resolve dir fl
              @ fs7 @ fs8)))))))"

definition run_doctor :: "crates \<Rightarrow> Path \<Rightarrow> DoctorScope \<Rightarrow> ('x, DoctorReport) io" where
  "run_doctor cr root scope =
     act_bind (doctor_common cr root) (\<lambda>(common, f).
     let report = report_push f report_new
     in act_bind (case scope of AllFlows \<Rightarrow> flow_dirs root | OneFlow u \<Rightarrow> ret [join_str root (uuid_str u)]) (\<lambda>dirs.
        act_foldM (\<lambda>rep dir. act_bind (doctor_flow cr root common dir) (\<lambda>fs. ret (report_extend fs rep)))
          report dirs))"

subsection \<open>Doctor reads only and always reports\<close>

lemma obeys_doctor_flow [inv_intros]: "obeys (changes_only S) (doctor_flow cr root common dir)"
  unfolding doctor_flow_def check_flow_def check_plan_def check_flow_effective_def check_status_files_def
    check_plan_coverage_def check_log_dirs_exist_def Let_def
  by (auto split: option.split prod.split intro!: frame.obeys_bind frame.obeys_ret frame.obeys_if frame.obeys_foldM
      frame.obeys_try inv_intros)

lemma obeys_doctor [inv_intros]: "obeys (changes_only S) (run_doctor cr root scope)"
  unfolding run_doctor_def doctor_common_def flow_dirs_def Let_def
  by (auto split: prod.split DoctorScope.split intro!: frame.obeys_bind frame.obeys_ret frame.obeys_if
      frame.obeys_foldM frame.obeys_try frame.obeys_map_err inv_intros)

definition total :: "('s, 'e, 'a) act \<Rightarrow> bool" where
  \<comment> \<open>succeeds in every world\<close>
  "total m \<longleftrightarrow> (\<forall>w. is_ok (fst (m w)))"

lemma total_ret: "total (ret x)"
  by (simp add: total_def)

lemma total_try: "total (act_try m)"
  by (simp add: total_def act_try_def split: prod.split)

lemma total_path_exists: "total (path_exists p)"
  by (simp add: total_def path_exists_def split: prod.split)

lemma total_bind: "total m \<Longrightarrow> (\<And>x. total (f x)) \<Longrightarrow> total (act_bind m f)"
  unfolding total_def act_bind_def by (auto split: prod.split sum.split) (metis fst_conv is_ok_simps(2))

lemma total_if: "total a \<Longrightarrow> total b \<Longrightarrow> total (if c then a else b)"
  by simp

lemma total_foldM: "(\<And>acc x. total (f acc x)) \<Longrightarrow> total (act_foldM f acc xs)"
  by (induction xs arbitrary: acc) (simp_all add: total_ret total_bind)

lemmas total_intros = total_ret total_try total_path_exists total_bind total_if total_foldM

lemma total_missing_log_dirs: "total (missing_log_dirs root cfg)"
  unfolding missing_log_dirs_def
  by (intro total_foldM) (auto split: option.split intro!: total_intros)

lemma total_doctor_flow: "total (doctor_flow cr root common dir)"
  unfolding doctor_flow_def check_flow_def check_plan_def check_flow_effective_def check_status_files_def
    check_plan_coverage_def check_log_dirs_exist_def Let_def
  by (auto split: option.split prod.split intro!: total_intros total_missing_log_dirs)

text \<open>
  C39. Doctor is advisory: it changes no file and calls nothing outside, and for a single flow it
  gives a report whatever the state of the files and whatever system calls fail; for all flows
  it can only fail because the root cannot be listed.
\<close>

theorem doctor_reports:
  fixes w :: "'x world_scheme"
  shows "(\<exists>rep w'. run_doctor cr root (OneFlow u) w = (Ok rep, w'))
    \<and> (\<forall>scope. changes_only {} w (snd (run_doctor cr root scope w)))
    \<and> (case fst (run_doctor cr root AllFlows w) of Ok _ \<Rightarrow> True | Err e \<Rightarrow> \<exists>source. e = Io root source)"
proof (intro conjI allI)
  have common: "total (doctor_common cr root :: ('x, _) io)"
    unfolding doctor_common_def Let_def by (intro total_intros)
  have loop: "total (act_foldM (\<lambda>rep dir. act_bind (doctor_flow cr root c dir)
      (\<lambda>fs. ret (report_extend fs rep))) rep dirs :: ('x, _) io)"
    for c rep dirs by (intro total_intros total_doctor_flow)
  have "total (run_doctor cr root (OneFlow u) :: ('x, DoctorReport) io)"
    unfolding run_doctor_def Let_def DoctorScope.case
    by (intro total_bind common) (auto split: prod.split intro!: total_bind total_ret loop)
  then have "is_ok (fst (run_doctor cr root (OneFlow u) w))" by (simp add: total_def)
  then show "\<exists>rep w'. run_doctor cr root (OneFlow u) w = (Ok rep, w')"
    by (cases "run_doctor cr root (OneFlow u) w"; cases "fst (run_doctor cr root (OneFlow u) w)") auto
  show "changes_only {} w (snd (run_doctor cr root scope w))" for scope
    by (rule obeysD[OF obeys_doctor prod.collapse[symmetric]])
  have entries: "\<exists>source. e = Io root source"
    if "act_foldM (\<lambda>out entry. act_bind (act_map_err (Io root) (dir_entry entry)) (\<lambda>p.
       act_bind (path_is_dir p) (\<lambda>d. if \<not> d then ret out
       else act_bind (path_is_file (join_str p ''flow.toml'')) (\<lambda>f. ret (if f then out @ [p] else out)))))
     acc es v = (Err e, v')" for acc es e and v v' :: "'x world_scheme"
    using that
  proof (induction es arbitrary: acc v)
    case (Cons x es)
    then show ?case by (auto simp: io_simps path_is_dir_def path_is_file_def split: if_splits prod.splits)
  qed (simp add: io_simps)
  have never: "\<not> (m v = (Err x, v'))" if "total m" for m :: "('x, 'b) io" and v v' x
    using that unfolding total_def by (metis fst_conv is_ok_simps(2))
  have "\<exists>source. e = Io root source" if "run_doctor cr root AllFlows w = (Err e, w')" for e w'
    using that never[OF common] never[OF loop]
    by (auto simp: run_doctor_def Let_def flow_dirs_def io_simps split: prod.splits dest: entries)
  then show "case fst (run_doctor cr root AllFlows w) of Ok _ \<Rightarrow> True | Err e \<Rightarrow> \<exists>source. e = Io root source"
    by (cases "run_doctor cr root AllFlows w") (auto split: sum.split)
qed

subsection \<open>What doctor finds\<close>

definition fails :: "Finding list \<Rightarrow> bool" where
  "fails fs \<longleftrightarrow> (\<exists>f\<in>set fs. fi_severity f = Fail)"

definition warns :: "Finding list \<Rightarrow> bool" where
  "warns fs \<longleftrightarrow> (\<exists>f\<in>set fs. fi_severity f = Warn)"

lemma fails_simps [simp]:
  "\<not> fails []" "fails (f # fs) \<longleftrightarrow> fi_severity f = Fail \<or> fails fs" "fails (fs @ gs) \<longleftrightarrow> fails fs \<or> fails gs"
  "warns (f # fs) \<longleftrightarrow> fi_severity f = Warn \<or> warns fs" "\<not> warns []" "warns (fs @ gs) \<longleftrightarrow> warns fs \<or> warns gs"
  by (auto simp: fails_def warns_def)

lemma finding_severity [simp]:
  "fi_severity (finding_pass p m) = Pass" "fi_severity (finding_warn p m) = Warn"
  "fi_severity (finding_fail p m) = Fail"
  by (simp_all add: finding_pass_def finding_warn_def finding_fail_def)

lemma has_fail_iff: "has_fail r \<longleftrightarrow> fails (dr_findings r)"
  by (auto simp: has_fail_def report_count_def fails_def filter_empty_conv)

lemma checks_steady [steady_intros]:
  "steady (check_flow cr dir common)" "steady (check_plan cr dir)" "steady (check_flow_effective cr dir)"
  "steady (check_status_files cr dir ids)" "steady (check_plan_coverage cr dir flow)"
  "steady (check_log_dirs_exist root dir flow common)" "steady (doctor_common cr root)"
  unfolding check_flow_def check_plan_def check_flow_effective_def check_status_files_def check_plan_coverage_def
    check_log_dirs_exist_def doctor_common_def Let_def
  by (auto split: prod.split intro!: steady_intros)

lemma doctor_flow_steady [steady_intros]: "steady (doctor_flow cr root common dir)"
  unfolding doctor_flow_def by (auto split: prod.split option.split intro!: steady_intros)

lemma val_check_flow: "no_faults w \<Longrightarrow> val (check_flow cr dir common) w = Ok
    (case val (read_flow cr (join_str dir ''flow.toml'') common) w of
       Ok flow \<Rightarrow> (Some flow, [finding_pass (join_str dir ''flow.toml'') ''flow.toml parses as JobFlow''])
     | Err e \<Rightarrow> (None, [finding_fail (join_str dir ''flow.toml'') (err_display cr e)]))"
  by (simp add: check_flow_def Let_def val_simps steady_intros)

lemma val_check_plan:
  assumes nf: "no_faults w"
  shows "\<exists>fs. val (check_plan cr dir) w = Ok fs \<and> (fails fs \<longleftrightarrow> is_err (val (read_plan cr (join_str dir ''plan.toml'')) w))"
  using nf
  by (cases "node_at (join_str dir ''plan.toml'') w"; cases "val (read_plan cr (join_str dir ''plan.toml'')) w")
    (simp_all add: check_plan_def Let_def val_simps steady_intros, simp_all add: read_plan_def val_simps text_at_def)

lemma val_check_effective:
  assumes nf: "no_faults w"
  shows "\<exists>fs. val (check_flow_effective cr dir) w = Ok fs
    \<and> (let p = join_str (join_str dir ''.jm'') ''flow.effective.toml''
       in fails fs \<longleftrightarrow> node_at p w \<noteq> None \<and> is_err (val (read_flow_effective cr p) w))"
  using nf
  by (cases "node_at (join_str (join_str dir ''.jm'') ''flow.effective.toml'') w";
      cases "val (read_flow_effective cr (join_str (join_str dir ''.jm'') ''flow.effective.toml'')) w")
    (simp_all add: check_flow_effective_def Let_def val_simps steady_intros)

lemma val_check_status:
  assumes nf: "no_faults w"
  shows "\<exists>fs. val (check_status_files cr dir ids) w = Ok fs
    \<and> (fails fs \<longleftrightarrow> (\<exists>j\<in>set ids. let p = join_str (join_str (join_str dir ''.jm'') j) ''status.toml''
         in node_at p w \<noteq> None \<and> is_err (val (read_job_run cr p) w)))"
proof -
  let ?p = "\<lambda>j. join_str (join_str (join_str dir ''.jm'') j) ''status.toml''"
  let ?f = "\<lambda>out j. act_bind (path_exists (?p j)) (\<lambda>ex.
      if \<not> ex then ret out
      else act_bind (act_try (read_job_run cr (?p j))) (\<lambda>res. (ret (out @ [case res of
          Ok _ \<Rightarrow> finding_pass (?p j) ''status.toml parses as JobRun''
        | Err e \<Rightarrow> finding_fail (?p j) (err_display cr e)]) :: ('x, _) io)))"
  let ?g = "\<lambda>j. if node_at (?p j) w = None then []
      else [case val (read_job_run cr (?p j)) w of
          Ok _ \<Rightarrow> finding_pass (?p j) ''status.toml parses as JobRun''
        | Err e \<Rightarrow> finding_fail (?p j) (err_display cr e)]"
  have st: "steady (?f out j)" for out j by (intro steady_intros)
  have "val (?f out j) w = Ok (out @ ?g j)" for out j
    using nf by (simp add: val_simps steady_intros)
  from val_foldM_append[OF st this nf, where acc = "[]"]
  have "val (check_status_files cr dir ids) w = Ok (concat (map ?g ids))"
    by (simp add: check_status_files_def Let_def)
  moreover have "fails (concat (map ?g ids)) \<longleftrightarrow>
      (\<exists>j\<in>set ids. node_at (?p j) w \<noteq> None \<and> is_err (val (read_job_run cr (?p j)) w))"
    by (induction ids) (auto split: sum.split)
  ultimately show ?thesis by (simp add: Let_def)
qed

lemma val_check_coverage:
  assumes nf: "no_faults w"
  shows "\<exists>fs. val (check_plan_coverage cr dir flow) w = Ok fs \<and> \<not> fails fs"
proof -
  let ?p = "join_str dir ''plan.toml''"
  have "\<not> fails (coverage_findings ?p flow plan)" for plan by (simp add: coverage_findings_def Let_def)
  then show ?thesis
    using nf by (cases "node_at ?p w"; cases "val (read_plan cr ?p) w")
      (simp_all add: check_plan_coverage_def Let_def val_simps steady_intros)
qed

definition missing_of :: "Path \<Rightarrow> SlurmJobConfig \<Rightarrow> 'x world_scheme \<Rightarrow> (string \<times> Path) list" where
  "missing_of root cfg w = List.map_filter (\<lambda>(field, val). case Option.bind val (resolve_log_dir root) of
        Some d \<Rightarrow> if node_at d w = None then Some (field, d) else None | None \<Rightarrow> None)
      [(''log_stdout'', log_stdout cfg), (''log_stderr'', log_stderr cfg)]"

lemma val_missing_log_dirs: "no_faults w \<Longrightarrow> val (missing_log_dirs root cfg) w = Ok (missing_of root cfg w)"
  by (simp add: val_def missing_log_dirs_run missing_of_def)

lemma all_warn: "\<forall>f\<in>set fs. fi_severity f = Warn \<Longrightarrow> \<not> fails fs \<and> (warns fs \<longleftrightarrow> fs \<noteq> [])"
  by (cases fs) (auto simp: fails_def)

lemma concat_map_Nil_iff:
  "concat (map (\<lambda>(j, x). map (h j) (m x)) es) \<noteq> [] \<longleftrightarrow> (\<exists>j x. (j, x) \<in> set es \<and> m x \<noteq> [])"
  by (induction es) auto

lemma val_check_log_dirs:
  assumes nf: "no_faults w"
  shows "\<exists>fs. val (check_log_dirs_exist root dir flow common) w = Ok fs \<and> \<not> fails fs
    \<and> (warns fs \<longleftrightarrow> (\<exists>j job. bt_get (jobs flow) j = Some job
         \<and> missing_of root (merge_with_defaults common (config (spec job))) w \<noteq> []))"
proof -
  let ?path = "join_str dir ''flow.toml''"
  let ?m = "\<lambda>job. missing_of root (merge_with_defaults common (config (spec job))) w"
  let ?f = "\<lambda>out (j, job). act_bind (missing_log_dirs root (merge_with_defaults common (config (spec job))))
      (\<lambda>missing. (ret (out @ map (log_dir_finding ?path j) missing) :: ('x, _) io))"
  let ?g = "\<lambda>(j, job). map (log_dir_finding ?path j) (?m job)"
  have st: "steady (?f out e)" for out e by (auto split: prod.split intro!: steady_intros)
  have "val (?f out e) w = Ok (out @ ?g e)" for out e
    by (cases e) (simp add: val_bind[OF missing_log_dirs_steady steady_ret nf] val_missing_log_dirs[OF nf] val_basic)
  from val_foldM_append[OF st this nf, where acc = "[]"]
  have l: "val (act_foldM ?f [] es) w = Ok (concat (map ?g es))" for es by simp
  let ?out = "concat (map ?g (bt_entries (jobs flow)))"
  let ?fs = "if ?out = [] then [finding_pass ?path ''log_stdout/log_stderr parent directories exist (or unset)''] else ?out"
  have v: "val (check_log_dirs_exist root dir flow common) w = Ok ?fs"
    unfolding check_log_dirs_exist_def Let_def
    by (simp add: val_bind[OF steady_foldM[OF st] steady_ret nf] l val_basic)
  have sev: "fi_severity (log_dir_finding ?path j m) = Warn" for j m
    by (simp add: log_dir_finding_def split: prod.split)
  have out: "?out \<noteq> [] \<longleftrightarrow> (\<exists>j job. bt_get (jobs flow) j = Some job \<and> ?m job \<noteq> [])"
    unfolding bt_get_Some_entries by (rule concat_map_Nil_iff)
  have all: "\<not> fails (concat (map ?g es)) \<and> (warns (concat (map ?g es)) \<longleftrightarrow> concat (map ?g es) \<noteq> [])" for es
    by (rule all_warn) (auto simp: sev)
  have fs: "\<not> fails ?fs \<and> (warns ?fs \<longleftrightarrow> ?out \<noteq> [])"
    using all[of "bt_entries (jobs flow)"] by (cases "?out = []") simp_all
  show ?thesis
    by (rule exI[of _ ?fs], intro conjI, rule v, rule conjunct1[OF fs], rule trans[OF conjunct2[OF fs] out])
qed

lemma dangling_iff:
  "dangling flow = [] \<longleftrightarrow> (\<forall>j job. bt_get (jobs flow) j = Some job \<longrightarrow>
     (\<forall>e\<in>set (parents job). edge_from e \<in> set (bt_keys (jobs flow))))"
  by (force simp: dangling_def bt_get_Some_entries bt_contains_iff filter_empty_conv)

lemma check_parents_fails: "fails (check_parents_resolve dir flow) \<longleftrightarrow> dangling flow \<noteq> []"
  by (cases "dangling flow") (auto simp: check_parents_resolve_def Let_def split: prod.split)

lemma check_uuid_fails: "fails (check_uuid_matches_dir cr dir flow) \<longleftrightarrow>
    uuid_parse cr (case file_name dir of Some n \<Rightarrow> n | None \<Rightarrow> ''<non-utf8>'') \<noteq> Ok (flow_id flow)"
  by (simp add: check_uuid_matches_dir_def Let_def split: sum.split)

definition flow_unsound :: "crates \<Rightarrow> Path \<Rightarrow> JobFlow \<Rightarrow> 'x world_scheme \<Rightarrow> bool" where
  \<comment> \<open>what makes a readable flow fail\<close>
  "flow_unsound cr dir flow w \<longleftrightarrow>
     (\<exists>j\<in>set (bt_keys (jobs flow)). let p = join_str (join_str (join_str dir ''.jm'') (jid j)) ''status.toml''
        in node_at p w \<noteq> None \<and> is_err (val (read_job_run cr p) w))
     \<or> uuid_parse cr (case file_name dir of Some n \<Rightarrow> n | None \<Rightarrow> ''<non-utf8>'') \<noteq> Ok (flow_id flow)
     \<or> (\<exists>j job. bt_get (jobs flow) j = Some job \<and> (\<exists>e\<in>set (parents job). edge_from e \<notin> set (bt_keys (jobs flow))))"

lemma val_doctor_flow:
  assumes nf: "no_faults w"
  shows "\<exists>fs. val (doctor_flow cr root common dir) w = Ok fs
    \<and> (fails fs \<longleftrightarrow>
         is_err (val (read_plan cr (join_str dir ''plan.toml'')) w)
         \<or> (let p = join_str (join_str dir ''.jm'') ''flow.effective.toml''
            in node_at p w \<noteq> None \<and> is_err (val (read_flow_effective cr p) w))
         \<or> (case val (read_flow cr (join_str dir ''flow.toml'') common) w of
              Err _ \<Rightarrow> True | Ok flow \<Rightarrow> flow_unsound cr dir flow w))"
proof -
  obtain fs2 where 2: "val (check_plan cr dir) w = Ok fs2"
    "fails fs2 \<longleftrightarrow> is_err (val (read_plan cr (join_str dir ''plan.toml'')) w)" using val_check_plan[OF nf] by blast
  obtain fs3 where 3: "val (check_flow_effective cr dir) w = Ok fs3"
    "fails fs3 \<longleftrightarrow> (let p = join_str (join_str dir ''.jm'') ''flow.effective.toml''
       in node_at p w \<noteq> None \<and> is_err (val (read_flow_effective cr p) w))"
    using val_check_effective[OF nf] by (simp only: Let_def) blast
  let ?k = "\<lambda>flow fs1 fs2 fs3. case flow of
       None \<Rightarrow> ret (fs1 @ fs2 @ fs3)
     | Some fl \<Rightarrow>
         act_bind (check_status_files cr dir (map jid (bt_keys (jobs fl)))) (\<lambda>fs4.
         act_bind (check_plan_coverage cr dir fl) (\<lambda>fs7.
         act_bind (check_log_dirs_exist root dir fl common) (\<lambda>fs8.
         (ret (fs1 @ fs2 @ fs3 @ fs4 @ check_uuid_matches_dir cr dir fl @ check_parents_resolve dir fl
              @ fs7 @ fs8) :: ('x, _) io))))"
  have k: "steady (?k flow a b c)" for flow a b c
    by (auto split: option.split intro!: steady_intros)
  have steps: "val (doctor_flow cr root common dir) w =
      val (?k (fst (projr (val (check_flow cr dir common) w))) (snd (projr (val (check_flow cr dir common) w))) fs2 fs3) w"
    unfolding doctor_flow_def
    using 2(1) 3(1) val_check_flow[OF nf, of cr dir common]
    by (simp add: val_bind[OF _ _ nf] steady_bind k checks_steady split: prod.split sum.split)
  show ?thesis
  proof (cases "val (read_flow cr (join_str dir ''flow.toml'') common) w")
    case (Inl e)
    then show ?thesis using steps val_check_flow[OF nf, of cr dir common] by (simp add: val_basic)
  next
    case (Inr flow)
    obtain fs4 where 4: "val (check_status_files cr dir (map jid (bt_keys (jobs flow)))) w = Ok fs4"
      "fails fs4 \<longleftrightarrow> (\<exists>j\<in>set (bt_keys (jobs flow)). let p = join_str (join_str (join_str dir ''.jm'') (jid j)) ''status.toml''
        in node_at p w \<noteq> None \<and> is_err (val (read_job_run cr p) w))"
      using val_check_status[OF nf, of cr dir "map jid (bt_keys (jobs flow))"] by (auto simp: Let_def)
    obtain fs7 where 7: "val (check_plan_coverage cr dir flow) w = Ok fs7" "\<not> fails fs7"
      using val_check_coverage[OF nf] by blast
    obtain fs8 where 8: "val (check_log_dirs_exist root dir flow common) w = Ok fs8" "\<not> fails fs8"
      using val_check_log_dirs[OF nf] by blast
    have "val (doctor_flow cr root common dir) w
        = Ok (finding_pass (join_str dir ''flow.toml'') ''flow.toml parses as JobFlow'' # fs2 @ fs3 @ fs4
            @ check_uuid_matches_dir cr dir flow @ check_parents_resolve dir flow @ fs7 @ fs8)"
      using steps val_check_flow[OF nf, of cr dir common] Inr 4(1) 7(1) 8(1)
      by (simp add: val_bind[OF _ _ nf] steady_bind steady_ret checks_steady val_basic)
    then show ?thesis
      using 2(2) 3(2) 4(2) 7(2) 8(2) Inr
      by (auto simp: check_parents_fails check_uuid_fails flow_unsound_def dangling_iff)
  qed
qed

subsection \<open>The verdict on one flow\<close>

definition common_at :: "crates \<Rightarrow> Path \<Rightarrow> 'x world_scheme \<Rightarrow> JobManagerError + CommonConfig" where
  \<comment> \<open>the configuration of a root, the empty one if it has none\<close>
  "common_at cr root w = (let p = join_str root ''common.toml''
     in if node_at p w = None then Ok synth_empty_common else val (read_common cr p) w)"

lemma val_doctor_common:
  assumes nf: "no_faults w"
  shows "\<exists>f. val (doctor_common cr root) w = Ok (case common_at cr root w of Ok c \<Rightarrow> c | Err _ \<Rightarrow> synth_empty_common, f)
    \<and> (fi_severity f = Fail \<longleftrightarrow> is_err (common_at cr root w))"
  using nf
  by (cases "node_at (join_str root ''common.toml'') w"; cases "val (read_common cr (join_str root ''common.toml'')) w")
    (simp_all add: doctor_common_def common_at_def Let_def val_simps steady_intros)

definition flow_broken :: "crates \<Rightarrow> Path \<Rightarrow> Path \<Rightarrow> 'x world_scheme \<Rightarrow> bool" where
  \<comment> \<open>what makes doctor report a failure for the flow in a directory\<close>
  "flow_broken cr root dir w \<longleftrightarrow>
     is_err (common_at cr root w)
     \<or> is_err (val (read_plan cr (join_str dir ''plan.toml'')) w)
     \<or> (let p = join_str (join_str dir ''.jm'') ''flow.effective.toml''
        in node_at p w \<noteq> None \<and> is_err (val (read_flow_effective cr p) w))
     \<or> (case val (read_flow cr (join_str dir ''flow.toml'')
              (case common_at cr root w of Ok c \<Rightarrow> c | Err _ \<Rightarrow> synth_empty_common)) w of
          Err _ \<Rightarrow> True | Ok flow \<Rightarrow> flow_unsound cr dir flow w)"

lemma flow_readers_steady [steady_intros]:
  "steady (flow_run_read cr r u)" "steady (load_effective cr r u)"
  unfolding flow_run_read_def load_effective_def by (auto intro!: steady_intros)

lemma report_findings [simp]:
  "dr_findings (report_push f rep) = dr_findings rep @ [f]" "dr_findings (report_extend fs rep) = dr_findings rep @ fs"
  "dr_findings report_new = []"
  by (simp_all add: report_push_def report_extend_def report_new_def)

lemma ret_bind: "act_bind (ret x) f = f x"
  by (rule ext) (simp add: act_bind_def ret_def)

lemma run_doctor_one:
  assumes nf: "no_faults w"
  shows "\<exists>rep k. run_doctor cr root (OneFlow u) w = (Ok rep, advance k w)
    \<and> (has_fail rep \<longleftrightarrow> flow_broken cr root (join_str root (uuid_str u)) w)"
proof -
  let ?dir = "join_str root (uuid_str u)"
  let ?c = "case common_at cr root w of Ok c \<Rightarrow> c | Err _ \<Rightarrow> synth_empty_common"
  let ?k = "\<lambda>(common, f). act_foldM (\<lambda>rep dir. act_bind (doctor_flow cr root common dir)
      (\<lambda>fs. (ret (report_extend fs rep) :: ('x, _) io))) (report_push f report_new) [?dir]"
  obtain f where c: "val (doctor_common cr root) w = Ok (?c, f)"
    "fi_severity f = Fail \<longleftrightarrow> is_err (common_at cr root w)"
    using val_doctor_common[OF nf] by blast
  obtain fs where d: "val (doctor_flow cr root ?c ?dir) w = Ok fs"
    "fails fs \<longleftrightarrow> is_err (val (read_plan cr (join_str ?dir ''plan.toml'')) w)
         \<or> (let p = join_str (join_str ?dir ''.jm'') ''flow.effective.toml''
            in node_at p w \<noteq> None \<and> is_err (val (read_flow_effective cr p) w))
         \<or> (case val (read_flow cr (join_str ?dir ''flow.toml'') ?c) w of
              Err _ \<Rightarrow> True | Ok flow \<Rightarrow> flow_unsound cr ?dir flow w)"
    using val_doctor_flow[OF nf, of cr root ?c ?dir] by blast
  have k: "steady (?k x)" for x by (auto split: prod.split intro!: steady_intros)
  have run: "run_doctor cr root (OneFlow u) = act_bind (doctor_common cr root) ?k"
    by (simp add: run_doctor_def Let_def ret_bind)
  let ?rep = "report_extend fs (report_push f report_new)"
  have v: "val (run_doctor cr root (OneFlow u)) w = Ok ?rep"
    unfolding run val_bind[OF checks_steady(7) k nf] c
    by (simp add: val_bind[OF steady_bind[OF doctor_flow_steady steady_ret] steady_ret nf]
        val_bind[OF doctor_flow_steady steady_ret nf] d(1) val_basic)
  have "steady (run_doctor cr root (OneFlow u) :: ('x, DoctorReport) io)"
    unfolding run by (rule steady_bind[OF checks_steady(7) k])
  from steady_run[OF this nf] obtain k' where "run_doctor cr root (OneFlow u) w = (Ok ?rep, advance k' w)"
    unfolding v ..
  moreover have "has_fail ?rep \<longleftrightarrow> flow_broken cr root ?dir w"
    unfolding has_fail_iff flow_broken_def report_findings fails_simps d(2) c(2) by simp
  ultimately show ?thesis by blast
qed

text \<open>
  C26. What a passing \<open>jm doctor\<close> of one flow buys: when no system call fails and the report has
  no failure, then \<open>FlowRun::read\<close>, from which render and submit start, succeeds on the flow,
  every parent edge names a job of it, and the directory's name is the flow's UUID.
\<close>

theorem doctor_ok_loads:
  fixes w :: "'x world_scheme"
  assumes nf: "no_faults w"
    and run: "run_doctor cr (res_root r) (OneFlow u) w = (Ok rep, w')"
    and pass: "\<not> has_fail rep"
  shows "\<exists>fr w''. flow_run_read cr r u w = (Ok fr, w'') \<and> dangling (run_flow fr) = []
    \<and> uuid_parse cr (case file_name (flow_dir r u) of Some n \<Rightarrow> n | None \<Rightarrow> ''<non-utf8>'') = Ok (flow_id (run_flow fr))"
proof -
  have b: "\<not> flow_broken cr (res_root r) (flow_dir r u) w"
    using run_doctor_one[OF nf, of cr "res_root r" u] run pass by (auto simp: flow_dir_def)
  then obtain cm plan flow where cm: "common_at cr (res_root r) w = Ok cm"
    and plan: "val (read_plan cr (plan_toml r u)) w = Ok plan"
    and flow: "val (read_flow cr (flow_toml r u) cm) w = Ok flow" and sound: "\<not> flow_unsound cr (flow_dir r u) flow w"
    by (auto simp: flow_broken_def plan_toml_def flow_toml_def is_err_def split: sum.splits)
  have "val (flow_run_read cr r u) w = Ok \<lparr>flow_uuid = u, run_flow = flow, run_plan = plan,
      run_common = if node_at (common_toml r) w = None then None else Some cm\<rparr>"
  proof (cases "node_at (common_toml r) w = None")
    case True
    then show ?thesis
      using cm plan flow nf
      by (simp add: flow_run_read_def common_at_def common_toml_def Let_def val_simps steady_intros)
  next
    case False
    then have "val (read_common cr (common_toml r)) w = Ok cm"
      using cm unfolding common_at_def common_toml_def[symmetric] Let_def by (simp only: if_False)
    then show ?thesis
      using False plan flow nf by (simp add: flow_run_read_def val_simps steady_intros)
  qed
  then obtain k where "flow_run_read cr r u w = (Ok \<lparr>flow_uuid = u, run_flow = flow, run_plan = plan,
      run_common = if node_at (common_toml r) w = None then None else Some cm\<rparr>, advance k w)"
    using steady_run[OF flow_readers_steady(1) nf] by metis
  then show ?thesis using sound by (auto simp: flow_unsound_def dangling_iff)
qed

subsection \<open>Doctor on concrete flows\<close>

definition doctor_crates :: "(JobId, Job) btree \<Rightarrow> crates" where
  \<comment> \<open>a decoder that gives these jobs\<close>
  "doctor_crates js = sample_crates\<lparr>toml_value_flow := (\<lambda>_. Ok (sample_flow\<lparr>jobs := js\<rparr>))\<rparr>"

definition doctor_world :: world where
  "doctor_world = quiet_world
    [(flow_toml sample_root sample_uuid, File ''FLOW''), (plan_toml sample_root sample_uuid, File ''PLAN'')]"

lemma doctor_world_quiet: "no_faults doctor_world"
  by (simp add: no_faults_def doctor_world_def quiet_world_def)

lemma doctor_world_nodes:
  "node_at (flow_toml sample_root sample_uuid) doctor_world = Some (File ''FLOW'')"
  "node_at (plan_toml sample_root sample_uuid) doctor_world = Some (File ''PLAN'')"
  "node_at (common_toml sample_root) doctor_world = None"
  "node_at (flow_effective_toml sample_root sample_uuid) doctor_world = None"
  by code_simp+

lemma doctor_world_no_status:
  "list_all (\<lambda>j. node_at (status_file sample_root sample_uuid j) doctor_world = None) (bt_keys looped)"
  "list_all (\<lambda>j. node_at (status_file sample_root sample_uuid j) doctor_world = None) (bt_keys diamond)"
  by code_simp+

lemma doctor_world_texts:
  "text_at (flow_toml sample_root sample_uuid) doctor_world = Ok ''FLOW''"
  "text_at (plan_toml sample_root sample_uuid) doctor_world = Ok ''PLAN''"
proof -
  have "max_toml_size doctor_world = DEFAULT_MAX_TOML_SIZE"
    by (simp add: max_toml_size_def doctor_world_def quiet_world_def)
  then show "text_at (flow_toml sample_root sample_uuid) doctor_world = Ok ''FLOW''"
    "text_at (plan_toml sample_root sample_uuid) doctor_world = Ok ''PLAN''"
    by (simp_all add: text_at_def doctor_world_nodes node_len_def DEFAULT_MAX_TOML_SIZE_def)
qed

lemma doctor_passes:
  assumes "list_all (\<lambda>j. node_at (status_file sample_root sample_uuid j) doctor_world = None) (bt_keys js)"
    and "dangling (sample_flow\<lparr>jobs := js\<rparr>) = []"
  shows "\<not> flow_broken (doctor_crates js) (res_root sample_root) (flow_dir sample_root sample_uuid) doctor_world"
proof -
  have c: "common_at (doctor_crates js) (res_root sample_root) doctor_world = Ok synth_empty_common"
    using doctor_world_nodes(3) by (simp add: common_at_def common_toml_def)
  have p: "val (read_plan (doctor_crates js) (plan_toml sample_root sample_uuid)) doctor_world = Ok sample_plan"
    by (simp add: read_plan_def val_read_toml doctor_world_quiet doctor_world_texts doctor_crates_def sample_crates_def)
  have f: "val (read_flow (doctor_crates js) (flow_toml sample_root sample_uuid) synth_empty_common) doctor_world
      = Ok (sample_flow\<lparr>jobs := js\<rparr>)"
    by (simp add: read_flow_def Let_def val_simps steady_intros doctor_world_quiet doctor_world_texts doctor_crates_def
        sample_crates_def inject_partition_defaults_def synth_empty_common_def)
  have d: "uuid_parse (doctor_crates js) (case file_name (flow_dir sample_root sample_uuid) of
      Some n \<Rightarrow> n | None \<Rightarrow> ''<non-utf8>'') = Ok sample_uuid"
  proof -
    have "file_name (flow_dir sample_root sample_uuid) = Some (uuid_str sample_uuid)" by code_simp
    then show ?thesis by (simp add: doctor_crates_def sample_crates_def)
  qed
  have "\<not> flow_unsound (doctor_crates js) (flow_dir sample_root sample_uuid) (sample_flow\<lparr>jobs := js\<rparr>) doctor_world"
    using assms d
    by (auto simp: flow_unsound_def dangling_iff list_all_iff status_file_def job_dir_def jm_dir_def sample_flow_def)
  then show ?thesis
    unfolding flow_broken_def c
    using p f doctor_world_nodes(4)
    by (simp add: plan_toml_def flow_toml_def flow_effective_toml_def jm_dir_def)
qed

lemma doctor_ok_loads_witness:
  "\<exists>fr w''. flow_run_read (doctor_crates diamond) sample_root sample_uuid doctor_world = (Ok fr, w'')
    \<and> dangling (run_flow fr) = []"
proof -
  have "dangling (sample_flow\<lparr>jobs := diamond\<rparr>) = []" by code_simp
  from doctor_passes[OF doctor_world_no_status(2) this]
  obtain rep k where r: "run_doctor (doctor_crates diamond) (res_root sample_root) (OneFlow sample_uuid) doctor_world
      = (Ok rep, advance k doctor_world)" and p: "\<not> has_fail rep"
    using run_doctor_one[OF doctor_world_quiet, of "doctor_crates diamond" "res_root sample_root" sample_uuid]
    by (auto simp: flow_dir_def)
  show ?thesis using doctor_ok_loads[OF doctor_world_quiet r p] by blast
qed

text \<open>
  Doctor does not look for dependency cycles: it passes a flow whose jobs b and c wait for
  each other, although the flow then has no run order, so that render and submit refuse it.
\<close>

theorem doctor_misses_cycles:
  "\<exists>rep w' fr w''.
     run_doctor (doctor_crates looped) (res_root sample_root) (OneFlow sample_uuid) doctor_world = (Ok rep, w')
     \<and> \<not> has_fail rep
     \<and> flow_run_read (doctor_crates looped) sample_root sample_uuid doctor_world = (Ok fr, w'')
     \<and> run_order fr = Err (DependencyCycle sample_uuid [JobId ''b'', JobId ''c''])"
proof -
  have "dangling (sample_flow\<lparr>jobs := looped\<rparr>) = []" by code_simp
  from doctor_passes[OF doctor_world_no_status(1) this]
  obtain rep k where r: "run_doctor (doctor_crates looped) (res_root sample_root) (OneFlow sample_uuid) doctor_world
      = (Ok rep, advance k doctor_world)" and p: "\<not> has_fail rep"
    using run_doctor_one[OF doctor_world_quiet, of "doctor_crates looped" "res_root sample_root" sample_uuid]
    by (auto simp: flow_dir_def)
  have v: "val (flow_run_read (doctor_crates looped) sample_root sample_uuid) doctor_world
      = Ok \<lparr>flow_uuid = sample_uuid, run_flow = sample_flow\<lparr>jobs := looped\<rparr>, run_plan = sample_plan, run_common = None\<rparr>"
    by (simp add: flow_run_read_def read_flow_def read_plan_def Let_def val_simps steady_intros doctor_world_quiet
        doctor_world_nodes doctor_world_texts doctor_crates_def sample_crates_def inject_partition_defaults_def synth_empty_common_def)
  from steady_run[OF flow_readers_steady(1) doctor_world_quiet, of "doctor_crates looped" sample_root sample_uuid]
  obtain k' where "flow_run_read (doctor_crates looped) sample_root sample_uuid doctor_world
      = (Ok \<lparr>flow_uuid = sample_uuid, run_flow = sample_flow\<lparr>jobs := looped\<rparr>, run_plan = sample_plan, run_common = None\<rparr>,
         advance k' doctor_world)"
    unfolding v ..
  with r p show ?thesis by (auto simp: run_order_def looped_order)
qed

end
