(* ===== verification/Cli.thy ===== *)
theory Cli
  imports Liveness Format Doctor
begin

section \<open>The command line (bin/jm.rs)\<close>

text \<open>
  The subcommands, composed of the operations of the library as \<open>main\<close> composes them, after clap
  has parsed the arguments. An \<open>anyhow\<close> error is a value that remembers where it came from. What
  the program takes from outside is the record \<open>host\<close>: the operating system's resolution of
  symbolic links, the SLURM crate's submission and batch query, fresh UUIDs, the JSON printer, and the orders in which
  concurrent reads complete.
\<close>

subsection \<open>Arguments and errors\<close>

record FilterArgs =
  fa_program :: "string option"
  fa_tag :: "string list"
  fa_status :: "string option"
  fa_flow :: "string option"
  fa_created_after :: "string option"
  fa_created_before :: "string option"
  fa_slurm_jobid :: "u64 option"
  fa_job :: "string option"
  fa_limit :: "nat option"

record FmtArgs =
  fmt_json :: bool
  fmt_no_header :: bool

datatype LsView =
    LsJobs FilterArgs FmtArgs
  | LsFlows FilterArgs FmtArgs
  | LsTree "string option" FilterArgs

datatype Cmd =
    CmdRender string bool
  | CmdSubmit string bool
  | CmdShow string
  | CmdTick string
  | CmdDoctor "string option"
  | CmdLs LsView
  | CmdNew "string list" bool

record Cli =
  cli_root :: "string option"
  cli_cmd :: Cmd

datatype AnyError =
    Msg string
  | FromJm JobManagerError
  | FromIo IoError
  | Context string AnyError

type_synonym ('x, 'a) cli = "('x world_scheme, AnyError, 'a) act"

record 'x host =
  real_path :: "Path \<Rightarrow> Path"
  sbatch_spawn :: "SbatchCmd \<Rightarrow> 'x \<Rightarrow> (string + u64 option) \<times> 'x"
  slurm_batch :: "u64 list \<Rightarrow> string + (u64 \<rightharpoonup> JobStatus)"
  fresh_uuid :: Uuid
  walking :: schedule
  reading :: schedule
  json_jobs :: "JobRowJson list \<Rightarrow> string + string"
  json_flows :: "FlowRowJson list \<Rightarrow> string + string"

definition println :: "string \<Rightarrow> ('x, unit) cli" where
  "println s = print_str (s @ newline)"

definition canonicalize :: "(Path \<Rightarrow> Path) \<Rightarrow> Path \<Rightarrow> ('x, Path) sys" where
  \<comment> \<open>the operating system resolves the path, which must exist\<close>
  "canonicalize real p = syscall (\<lambda>w. case node_at (real p) w of
      None \<Rightarrow> (Err (no_entry (real p) w), w) | Some _ \<Rightarrow> (Ok (real p), w))"

definition resolve_root :: "'x host \<Rightarrow> Cli \<Rightarrow> ('x, Path) cli" where
  "resolve_root h cli =
     act_bind (case cli_root cli of
         Some p \<Rightarrow> ret (path_of p)
       | None \<Rightarrow> (\<lambda>w. (case w_env w ''JM_ROOT'' of
           Some p \<Rightarrow> Ok (path_of p) | None \<Rightarrow> Err (Msg ''--root or JM_ROOT must be set''), w))) (\<lambda>raw.
     act_map_err (\<lambda>e. Msg (''failed to canonicalize root '' @ path_display raw @ '': '' @ io_text e))
       (canonicalize (real_path h) raw))"

definition parse_target :: "crates \<Rightarrow> Path \<Rightarrow> string \<Rightarrow> AnyError + Uuid" where
  \<comment> \<open>the root is not used\<close>
  "parse_target cr _ target =
     (let p = path_of target; bad = map_err (\<lambda>e. Msg (''invalid uuid: '' @ e))
      in if is_absolute p
         then res_bind (ok_or (file_name p) (Msg ''invalid path'')) (\<lambda>lst. bad (uuid_parse cr lst))
         else bad (uuid_parse cr target))"

subsection \<open>Tags and filters\<close>

definition bare_char :: "char \<Rightarrow> bool" where
  "bare_char c \<longleftrightarrow> is_ascii_alphanumeric c \<or> c = CHR ''_'' \<or> c = CHR ''-''"

definition parse_tag :: "string \<Rightarrow> AnyError + string \<times> string" where
  "parse_tag raw =
     (case split_once CHR ''='' raw of
        Some (k, v) \<Rightarrow>
          if k = [] then Err (Msg (''invalid --tag: empty key in '' @ str_debug raw))
          else if \<not> list_all bare_char k
          then Err (Msg (''invalid --tag: key '' @ str_debug k
                 @ '' has non-bare-key characters (only A-Za-z0-9_- allowed)''))
          else Ok (k, v)
      | None \<Rightarrow> Err (Msg (''invalid --tag: expected key=value, got '' @ str_debug raw)))"

fun tag_map :: "string list \<Rightarrow> (string, string) btree \<Rightarrow> AnyError + (string, string) btree" where
  \<comment> \<open>the loop over the options; the last value wins\<close>
  "tag_map [] m = Ok m"
| "tag_map (raw # raws) m = res_bind (parse_tag raw) (\<lambda>(k, v). tag_map raws (bt_insert k v m))"

definition parse_dt :: "crates \<Rightarrow> string \<Rightarrow> AnyError + DateTime" where
  "parse_dt cr s =
     map_err (\<lambda>e. Msg (''invalid RFC3339 datetime '' @ str_debug s @ '': '' @ e)) (parse_rfc3339 cr s)"

definition opt_parse :: "('a \<Rightarrow> 'e + 'b) \<Rightarrow> 'a option \<Rightarrow> 'e + 'b option" where
  \<comment> \<open>\<open>map\<close> and \<open>transpose\<close>\<close>
  "opt_parse f x = (case x of None \<Rightarrow> Ok None | Some a \<Rightarrow> map_ok Some (f a))"

definition build_filter :: "crates \<Rightarrow> FilterArgs \<Rightarrow> AnyError + SearchFilter" where
  "build_filter cr a =
     res_bind (tag_map (fa_tag a) bt_empty) (\<lambda>tgs.
     res_bind (case fa_status a of Some s \<Rightarrow> map_err Msg (parse_status_set s) | None \<Rightarrow> Ok bt_empty) (\<lambda>st.
     res_bind (opt_parse (parse_dt cr) (fa_created_after a)) (\<lambda>after.
     res_bind (opt_parse (parse_dt cr) (fa_created_before a)) (\<lambda>before.
     Ok \<lparr>sf_program = map_option Program (fa_program a), sf_tags = tgs, sf_status = st,
         sf_uuid_prefix = fa_flow a, sf_created_after = after, sf_created_before = before,
         sf_slurm_jobid = fa_slurm_jobid a, sf_job_id = map_option JobId (fa_job a)\<rparr>))))"

subsection \<open>Render, submit, show, tick, doctor\<close>

definition cmd_render :: "crates \<Rightarrow> Path \<Rightarrow> string \<Rightarrow> bool \<Rightarrow> ('x, unit) cli" where
  "cmd_render cr root target effective_only =
     (let r = \<lparr>res_root = root\<rparr>
      in act_bind (act_lift (parse_target cr root target)) (\<lambda>u.
         act_bind (act_map_err FromJm (flow_run_read cr r u)) (\<lambda>fr.
         if effective_only then
           (let path = flow_effective_toml r u
            in act_bind (case path_parent path of
                   Some parent \<Rightarrow> act_map_err FromIo (create_dir_all parent) | None \<Rightarrow> ret ()) (\<lambda>_.
               act_bind (act_map_err FromJm (write_flow_effective cr path (run_flow fr))) (\<lambda>_.
               println (''updated .flow.effective.toml for '' @ uuid_str u))))
         else
           act_bind (act_map_err FromJm (render_only (dry_run_executor cr) cr r fr)) (\<lambda>_.
           println (''rendered '' @ show_nat (bt_len (jobs (run_flow fr))) @ '' jobs in '' @ uuid_str u)))))"

definition cmd_submit :: "'x host \<Rightarrow> crates \<Rightarrow> Path \<Rightarrow> string \<Rightarrow> bool \<Rightarrow> ('x, unit) cli" where
  "cmd_submit h cr root target dry_run =
     (let r = \<lparr>res_root = root\<rparr>; ex = (if dry_run then dry_run_executor cr else sbatch_executor (sbatch_spawn h))
      in act_bind (act_lift (parse_target cr root target)) (\<lambda>u.
         act_bind (act_map_err FromJm (flow_run_read cr r u)) (\<lambda>fr.
         act_bind (act_map_err FromJm (submit ex cr r fr dry_run)) (\<lambda>jobids.
         act_bind (println (''submitted '' @ show_nat (bt_len jobids) @ '' jobs'')) (\<lambda>_.
         act_foldM (\<lambda>_ (j, i). println (''  '' @ jid j @ '' -> '' @ show_nat (unat i))) ()
           (bt_entries jobids))))))"

definition lifecycle_debug :: "Lifecycle \<Rightarrow> string" where
  "lifecycle_debug l = (case l of Queued \<Rightarrow> ''Queued'' | Running \<Rightarrow> ''Running'' | Success \<Rightarrow> ''Success''
     | Failed \<Rightarrow> ''Failed'' | Skipped \<Rightarrow> ''Skipped'')"

definition show_label :: "JobRun \<Rightarrow> string" where
  "show_label run = (case slurm_jobid run of
       Some i \<Rightarrow> lifecycle_debug (lifecycle run) @ '' (slurm_jobid='' @ show_nat (unat i) @ '')''
     | None \<Rightarrow> lifecycle_debug (lifecycle run))"

definition show_job :: "crates \<Rightarrow> PathResolver \<Rightarrow> Uuid \<Rightarrow> JobId \<Rightarrow> ('x, unit) cli" where
  "show_job cr r u j =
     (let p = status_file r u j
      in act_bind (path_exists p) (\<lambda>ex.
         act_bind (if ex then act_bind (act_map_err FromJm (read_job_run cr p)) (\<lambda>run. ret (show_label run))
                   else ret ''<pending>'') (\<lambda>label.
         println (''  '' @ jid j @ ''  '' @ label))))"

definition cmd_show :: "crates \<Rightarrow> Path \<Rightarrow> string \<Rightarrow> ('x, unit) cli" where
  "cmd_show cr root target =
     (let r = \<lparr>res_root = root\<rparr>
      in act_bind (act_lift (parse_target cr root target)) (\<lambda>u.
         act_bind (act_map_err FromJm (load_effective cr r u)) (\<lambda>fr.
         act_bind (println (''flow '' @ uuid_str u @ '' ('' @ show_nat (bt_len (jobs (run_flow fr))) @ '' jobs)'')) (\<lambda>_.
         act_foldM (\<lambda>_. show_job cr r u) () (bt_keys (jobs (run_flow fr)))))))"

definition cmd_tick :: "'x host \<Rightarrow> crates \<Rightarrow> Path \<Rightarrow> string \<Rightarrow> ('x, unit) cli" where
  "cmd_tick h cr root target =
     (let r = \<lparr>res_root = root\<rparr>
      in act_bind (act_lift (parse_target cr root target)) (\<lambda>u.
         act_bind (act_map_err FromJm (load_effective cr r u)) (\<lambda>fr.
         act_bind (act_map_err FromJm (tick (slurm_querier (slurm_batch h)) cr r fr)) (\<lambda>result.
         println (''tick complete: '' @ show_nat (bt_len (transitions result)) @ '' transitions evaluated'')))))"

definition cmd_doctor :: "crates \<Rightarrow> Path \<Rightarrow> string option \<Rightarrow> ('x, unit) cli" where
  "cmd_doctor cr root target =
     act_bind (act_lift (case target of
         Some t \<Rightarrow> map_ok OneFlow (parse_target cr root t) | None \<Rightarrow> Ok AllFlows)) (\<lambda>scope.
     act_bind (act_map_err FromJm (run_doctor cr root scope)) (\<lambda>rep.
     act_bind (print_str (report_display rep)) (\<lambda>_.
     if has_fail rep then fail (Msg (''doctor found '' @ show_nat (report_count Fail rep) @ '' error(s)''))
     else ret ())))"

subsection \<open>Listing\<close>

definition ls_common :: "crates \<Rightarrow> Path \<Rightarrow> ('x, CommonConfig) cli" where
  "ls_common cr root =
     (let common_path = common_toml \<lparr>res_root = root\<rparr>
      in act_bind (path_exists common_path) (\<lambda>ex.
         if ex then act_map_err FromJm (read_common cr common_path) else ret synth_empty_common))"

definition ls_collect :: "'x host \<Rightarrow> crates \<Rightarrow> Path \<Rightarrow> CommonConfig \<Rightarrow> SearchFilter \<Rightarrow> ('x, CollectedFlow list) cli" where
  "ls_collect h cr root common f =
     act_map_err FromJm (collect (walking h) (reading h) cr root common f)"

definition ls_selected ::
  "crates \<Rightarrow> Path \<Rightarrow> string option \<Rightarrow> SearchFilter \<Rightarrow> nat option \<Rightarrow> CollectedFlow list \<Rightarrow> AnyError + CollectedFlow list" where
  "ls_selected cr root target f limit collected =
     (case target of
        Some t \<Rightarrow> map_ok (\<lambda>u. filter (\<lambda>cf. flow_id (cf_flow cf) = u) collected) (parse_target cr root t)
      | None \<Rightarrow> Ok (matched_flows collected f limit))"

definition cmd_ls :: "'x host \<Rightarrow> crates \<Rightarrow> Path \<Rightarrow> LsView \<Rightarrow> ('x, unit) cli" where
  \<comment> \<open>a panic of the row and tree builders is a message; there is none, by the theorems on them\<close>
  "cmd_ls h cr root view =
     act_bind (ls_common cr root) (\<lambda>common.
     case view of
       LsJobs fa fmt \<Rightarrow>
         act_bind (act_lift (build_filter cr fa)) (\<lambda>f.
         act_bind (ls_collect h cr root common f) (\<lambda>collected.
         act_bind (act_lift (map_err Msg (job_rows collected f (fa_limit fa)))) (\<lambda>rows.
         if fmt_json fmt then
           act_bind (act_lift (map_err Msg (format_jobs_json (json_jobs h) cr rows))) println
         else print_str (format_jobs_table cr rows (fmt_no_header fmt)))))
     | LsFlows fa fmt \<Rightarrow>
         act_bind (act_lift (build_filter cr fa)) (\<lambda>f.
         act_bind (ls_collect h cr root common f) (\<lambda>collected.
         let rows = flow_rows collected f (fa_limit fa)
         in if fmt_json fmt then
              act_bind (act_lift (map_err Msg (format_flows_json (json_flows h) cr rows))) println
            else print_str (format_flows_table cr rows (fmt_no_header fmt))))
     | LsTree target fa \<Rightarrow>
         act_bind (act_lift (build_filter cr fa)) (\<lambda>f.
         act_bind (ls_collect h cr root common f) (\<lambda>collected.
         act_bind (act_lift (ls_selected cr root target f (fa_limit fa) collected)) (\<lambda>selected.
         act_bind (act_lift (map_err Msg (format_tree selected))) print_str))))"

subsection \<open>New flows\<close>

definition dq :: string where "dq = [CHR 0x22]"

definition bs :: string where "bs = [CHR 0x5C]"

definition unlines :: "string list \<Rightarrow> string" where
  "unlines ls = concat (map (\<lambda>l. l @ newline) ls)"

definition build_plan_template :: string where
  "build_plan_template = unlines
     [''# Generated by `jm new`. Per-JobId params surface in batch.bash as'',
      ''# `JM_PARAM_<UPPER_NAME>`.'',
      ''# Schema: job_manager::plan::ExperimentPlan (deny_unknown_fields)'',
      [],
      ''[jobs.step1]'',
      ''note = '' @ dq @ ''TODO: replace with real render params'' @ dq,
      [],
      ''[jobs.step2]'',
      ''note = '' @ dq @ ''TODO: replace with real render params'' @ dq]"

definition tag_lines :: "crates \<Rightarrow> (string, string) btree \<Rightarrow> string" where
  "tag_lines cr tgs =
     (if bt_is_empty tgs
      then ''# free-form key=value tags; populate via `jm new --tag k=v`'' @ newline
      else concat (map (\<lambda>(k, v). k @ '' = '' @ toml_display cr (TString v) @ newline) (bt_entries tgs)))"

definition build_flow_template :: "crates \<Rightarrow> Uuid \<Rightarrow> string \<Rightarrow> (string, string) btree \<Rightarrow> string" where
  "build_flow_template cr u created tgs =
     unlines
     [''# Generated by `jm new` on '' @ created @ ''.'',
      ''# Schema: gaussian_job_shared::entities::workflow::JobFlow (deny_unknown_fields)'',
      ''#   uuid          UUID v7 '' @ em_dash @ '' MUST equal the parent directory name'',
      ''#   created_at    RFC3339 UTC'',
      ''#   jobs.<JobId>  JobSpec (program/body/config) + parents[]'',
      [],
      ''uuid       = '' @ dq @ uuid_str u @ dq,
      ''created_at = '' @ dq @ created @ dq,
      [],
      ''[tags]'']
     @ tag_lines cr tgs @ newline
     @ unlines
     [''# --- step 1: replace `program` / `body` with the real workload ---'',
      ''[jobs.step1]'',
      ''program = '' @ dq @ ''echo'' @ dq,
      ''body    = '' @ dq @ ''echo '' @ bs @ dq @ ''[step1] flow=$JM_FLOW_UUID job=$JM_JOB_ID'' @ bs @ dq @ bs @ ''n'' @ dq,
      [],
      ''[jobs.step1.config]'',
      ''# `jm new` does NOT create common.toml, so `partition` is written here'',
      ''# explicitly. REPLACE_ME makes `jm render` succeed but real `jm submit`'',
      ''# fail fast with '' @ dq @ ''invalid partition: REPLACE_ME'' @ dq @ '' until you set a real'',
      ''# partition (sinfo -s). Alternatively create <root>/common.toml with a'',
      ''# [slurm_default] partition and delete this line to inherit it.'',
      ''partition = '' @ dq @ ''REPLACE_ME'' @ dq,
      [],
      ''# --- step 2: runs only if step1 exits 0 ---'',
      ''[jobs.step2]'',
      ''program = '' @ dq @ ''echo'' @ dq,
      ''body    = '' @ dq @ ''echo '' @ bs @ dq @ ''[step2] flow=$JM_FLOW_UUID job=$JM_JOB_ID'' @ bs @ dq @ bs @ ''n'' @ dq,
      [],
      ''['' @ ''[jobs.step2.parents]]'',
      ''from = '' @ dq @ ''step1'' @ dq,
      ''kind = '' @ dq @ ''afterok'' @ dq,
      [],
      ''[jobs.step2.config]'',
      ''partition = '' @ dq @ ''REPLACE_ME'' @ dq]"

definition tmp_sibling :: "nat \<Rightarrow> Path \<Rightarrow> IoError + Path" where
  "tmp_sibling pid path =
     (case file_name path of
        None \<Rightarrow> Err (io_error InvalidInput)
      | Some n \<Rightarrow> Ok (butlast path @ [Normal (n @ ''.'' @ show_nat pid @ ''.tmp'')]))"

definition atomic_write_str :: "Path \<Rightarrow> string \<Rightarrow> ('x, unit) sys" where
  "atomic_write_str path bytes =
     act_bind (\<lambda>w. (tmp_sibling (w_pid w) path, w)) (\<lambda>tmp.
     act_bind (file_create tmp) (\<lambda>_.
     act_bind (write_all tmp bytes) (\<lambda>_.
     act_bind sync_all (\<lambda>_.
     act_bind (act_try (rename_file tmp path)) (\<lambda>renamed.
     case renamed of
       Err e \<Rightarrow> act_bind (act_try (remove_file tmp)) (\<lambda>_. fail e)
     | Ok _ \<Rightarrow> ret ())))))"

definition write_both :: "PathResolver \<Rightarrow> Uuid \<Rightarrow> string \<Rightarrow> string \<Rightarrow> ('x, unit) sys" where
  "write_both r u flow_str plan_str =
     act_bind (atomic_write_str (flow_toml r u) flow_str) (\<lambda>_. atomic_write_str (plan_toml r u) plan_str)"

definition cmd_new :: "'x host \<Rightarrow> crates \<Rightarrow> Path \<Rightarrow> string list \<Rightarrow> bool \<Rightarrow> ('x, unit) cli" where
  "cmd_new h cr root tgs print_path =
     act_bind (act_lift (tag_map tgs bt_empty)) (\<lambda>tmap.
     let u = fresh_uuid h; r = \<lparr>res_root = root\<rparr>; fdir = flow_dir r u
     in act_bind (path_exists fdir) (\<lambda>ex.
        if ex then fail (Msg (''flow dir already exists: '' @ path_display fdir))
        else
          act_bind (act_map_err FromIo (create_dir_all fdir)) (\<lambda>_.
          act_bind clock_now (\<lambda>now.
          act_bind (act_try (write_both r u (build_flow_template cr u (to_rfc3339_secs cr now) tmap)
              build_plan_template)) (\<lambda>written.
          case written of
            Err e \<Rightarrow>
              act_bind (act_try (remove_dir_all fdir)) (\<lambda>_.
              fail (Context (''failed to write boilerplate under '' @ path_display fdir) (FromIo e)))
          | Ok _ \<Rightarrow>
              if print_path then println (path_display fdir)
              else
                act_bind (println (''created flow '' @ uuid_str u)) (\<lambda>_.
                act_bind (println (''  '' @ path_display (flow_toml r u))) (\<lambda>_.
                act_bind (println (''  '' @ path_display (plan_toml r u))) (\<lambda>_.
                println (''next: edit flow.toml, then `jm --root '' @ path_display root @ '' render ''
                  @ uuid_str u @ ''`'')))))))))"

definition jm_main :: "'x host \<Rightarrow> crates \<Rightarrow> Cli \<Rightarrow> ('x, unit) cli" where
  \<comment> \<open>every arm resolves the root first\<close>
  "jm_main h cr cli =
     act_bind (resolve_root h cli) (\<lambda>root.
     case cli_cmd cli of
       CmdRender target effective_only \<Rightarrow> cmd_render cr root target effective_only
     | CmdSubmit target dry_run \<Rightarrow> cmd_submit h cr root target dry_run
     | CmdShow target \<Rightarrow> cmd_show cr root target
     | CmdTick target \<Rightarrow> cmd_tick h cr root target
     | CmdLs view \<Rightarrow> cmd_ls h cr root view
     | CmdDoctor target \<Rightarrow> cmd_doctor cr root target
     | CmdNew tgs print_path \<Rightarrow> cmd_new h cr root tgs print_path)"

subsection \<open>Tags\<close>

text \<open>
  A tag option is accepted exactly when it is a non-empty bare key, an equals sign, and any
  value: the key is what stands before the first equals sign, the value may hold more of them.
\<close>

theorem parse_tag_spec:
  "parse_tag raw = Ok (k, v) \<longleftrightarrow> raw = k @ ''='' @ v \<and> k \<noteq> [] \<and> list_all bare_char k"
proof
  assume "parse_tag raw = Ok (k, v)"
  then have "split_once CHR ''='' raw = Some (k, v)" "k \<noteq> []" "list_all bare_char k"
    by (auto simp: parse_tag_def split: option.splits if_splits)
  then show "raw = k @ ''='' @ v \<and> k \<noteq> [] \<and> list_all bare_char k"
    using split_once_Some[of "CHR ''=''" raw k v] by simp
next
  assume r: "raw = k @ ''='' @ v \<and> k \<noteq> [] \<and> list_all bare_char k"
  have "\<not> bare_char CHR ''=''"
    by (simp add: bare_char_def is_ascii_alphanumeric_def is_digit_def is_upper_def is_lower_def code_def)
  then have "CHR ''='' \<notin> set k" using r by (auto simp: list_all_iff)
  then have "split_once CHR ''='' raw = Some (k, v)" using r by (simp add: split_once_append)
  then show "parse_tag raw = Ok (k, v)" using r by (simp add: parse_tag_def)
qed

subsection \<open>The reading commands\<close>

lemma println_run: "println s w = (Ok (), w\<lparr>w_out := w_out w @ [s @ newline]\<rparr>)"
  by (simp add: println_def print_str_def)

lemma obeys_show_job [inv_intros]: "obeys (changes_only S) (show_job cr r u j)"
  unfolding show_job_def println_def Let_def
  by (intro frame.obeys_bind frame.obeys_if frame.obeys_ret frame.obeys_map_err inv_intros)

lemma obeys_reading_commands:
  "obeys (changes_only {}) (cmd_show cr root target)"
  "obeys (changes_only {}) (cmd_ls h cr root view)"
  "obeys (changes_only {}) (cmd_doctor cr root scope)"
proof -
  show "obeys (changes_only {}) (cmd_show cr root target)"
    unfolding cmd_show_def println_def Let_def
    by (intro frame.obeys_bind frame.obeys_lift frame.obeys_map_err frame.obeys_foldM inv_intros)
  show "obeys (changes_only {}) (cmd_ls h cr root view)"
    unfolding cmd_ls_def ls_common_def ls_collect_def println_def Let_def
    by (auto split: LsView.split intro!: frame.obeys_bind frame.obeys_lift frame.obeys_map_err
        frame.obeys_if frame.obeys_ret inv_intros)
  show "obeys (changes_only {}) (cmd_doctor cr root scope)"
    unfolding cmd_doctor_def
    by (intro frame.obeys_bind frame.obeys_lift frame.obeys_map_err frame.obeys_if frame.obeys_ret
        frame.obeys_fail inv_intros)
qed

text \<open>
  C38. The commands show, ls and doctor change no file and call nothing outside, whatever their
  arguments, the files, and the faults.
\<close>

theorem reading_commands_inert:
  fixes w :: "'x world_scheme"
  shows "changes_only {} w (snd (cmd_show cr root target w))
    \<and> changes_only {} w (snd (cmd_ls h cr root view w))
    \<and> changes_only {} w (snd (cmd_doctor cr root scope w))"
  using obeys_reading_commands unfolding obeys_def by blast

subsection \<open>The snapshot\<close>

lemma outside_snapshot:
  assumes "plain_uuid u"
  shows "plan_toml r u \<notin> write_set (flow_effective_toml r u)"
proof -
  have "length q = length (flow_effective_toml r u) \<or> q \<in> dirs_above (flow_effective_toml r u)"
    if "q \<in> write_set (flow_effective_toml r u)" for q
    using that assms by (auto simp: write_set_def temporaries_def flow_effective_toml_eq with_extension_def)
  moreover have "plan_toml r u \<notin> dirs_above (flow_effective_toml r u)"
    using assms by (simp add: dirs_above_def path_simps path_starts_with_def)
  ultimately show ?thesis using assms by (fastforce simp: path_simps)
qed

lemma snapshot_written:
  fixes w :: "'x world_scheme"
  assumes u: "plain_uuid u" "parse_target cr root target = Ok u"
    and read: "flow_run_read cr \<lparr>res_root = root\<rparr> u w = (Ok fr, w0)"
    and codec: "toml_ser_flow cr (run_flow fr) = Ok t"
    and run: "cmd_render cr root target True w = (Ok (), w1)"
  shows "node_at (flow_effective_toml \<lparr>res_root = root\<rparr> u) w1 = Some (File t)"
    and "changes_only (write_set (flow_effective_toml \<lparr>res_root = root\<rparr> u)) w w1"
proof -
  let ?p = "flow_effective_toml \<lparr>res_root = root\<rparr> u"
  have fn: "file_name ?p \<noteq> None" using u(1) by (simp add: flow_effective_toml_eq file_name_def)
  have "act_lift (parse_target cr root target) w = (Ok u, w)" using u(2) by (simp add: act_lift_def)
  with run read obtain wd wf where prep: "(case path_parent ?p of
        Some parent \<Rightarrow> act_map_err FromIo (create_dir_all parent) | None \<Rightarrow> ret ()) w0 = (Ok (), wd)"
    and wr: "write_flow_effective cr ?p (run_flow fr) wd = (Ok (), wf)"
    and w1: "println (''updated .flow.effective.toml for '' @ uuid_str u) wf = (Ok (), w1)"
    by (auto simp: cmd_render_def Let_def io_simps u(2))
  have "obeys (changes_only (dirs_above ?p)) (case path_parent ?p of
      Some parent \<Rightarrow> act_map_err FromIo (create_dir_all parent) | None \<Rightarrow> (ret () :: ('x, unit) cli))"
    by (auto split: option.split intro!: frame.obeys_ret frame.obeys_map_err obeys_create_dir_all
        dest: ancestors_dirs_above)
  from obeysD[OF this prep] have 1: "changes_only (write_set ?p) w0 wd"
    by (rule changes_only_mono) (auto simp: write_set_def)
  have 2: "changes_only (write_set ?p) wd wf" by (rule obeysD[OF obeys_writers(5)[OF order.refl] wr])
  have 3: "changes_only (write_set ?p) wf w1"
    using w1 obeysD[OF obeys_print_str] unfolding println_def by blast
  have "changes_only (write_set ?p) w w0" by (rule obeysD[OF obeys_flow_readers(1) read])
  from frame.R_trans[OF frame.R_trans[OF this 1] frame.R_trans[OF 2 3]]
  show "changes_only (write_set ?p) w w1" .
  have "node_at ?p wf = Some (File t)"
    using write_toml_Ok[OF wr[unfolded write_flow_effective_def] fn] codec by auto
  then show "node_at ?p w1 = Some (File t)"
    using w1 by (auto simp: println_def print_str_def)
qed

text \<open>
  C28. What \<open>jm render --effective-only\<close> leaves is what tick and show start from: with a codec that
  restores the flow, \<open>load_effective\<close> gives back the flow as \<open>FlowRun::read\<close> read it, the same
  plan, and no common configuration. So options that only common.toml gives are not part of what
  tick and show see.
\<close>

theorem snapshot_roundtrip:
  fixes w :: "'x world_scheme"
  assumes u: "plain_uuid u" "parse_target cr root target = Ok u"
    and nf: "\<forall>n. w_fault w n = None"
    and read: "flow_run_read cr \<lparr>res_root = root\<rparr> u w = (Ok fr, w0)"
    and codec: "toml_ser_flow cr (run_flow fr) = Ok t" "toml_de_flow cr t = Ok (run_flow fr)"
    and small: "length t \<le> unat (max_toml_size w)" and enc: "utf8 t"
    and run: "cmd_render cr root target True w = (Ok (), w1)"
  shows "\<exists>w2. load_effective cr \<lparr>res_root = root\<rparr> u w1 = (Ok (fr\<lparr>run_common := None\<rparr>), w2)"
proof -
  let ?r = "\<lparr>res_root = root\<rparr>" and ?p = "flow_effective_toml \<lparr>res_root = root\<rparr> u"
  have nf0: "no_faults w" using nf by (simp add: no_faults_def)
  note n = snapshot_written(1)[OF u read codec(1) run] and c = snapshot_written(2)[OF u read codec(1) run]
  have nf1: "no_faults w1" and lim: "max_toml_size w1 = max_toml_size w"
    using c nf by (simp_all add: changes_only_def same_host_def no_faults_def max_toml_size_def)
  have "node_at (plan_toml ?r u) w1 = node_at (plan_toml ?r u) w"
    using c outside_snapshot[OF u(1), of ?r] by (simp add: changes_only_def)
  then have kept: "text_at (plan_toml ?r u) w1 = Ok s" if "text_at (plan_toml ?r u) w = Ok s" for s
    using text_at_kept[OF that] c by (simp add: changes_only_def)
  have "val (flow_run_read cr ?r u) w = Ok fr" using read by (simp add: val_def)
  then have fr: "val (read_plan cr (plan_toml ?r u)) w = Ok (run_plan fr) \<and> flow_uuid fr = u"
    using nf0 by (auto simp: flow_run_read_def val_simps steady_intros res_simps)
  then have plan: "val (read_plan cr (plan_toml ?r u)) w1 = Ok (run_plan fr)"
    using nf0 nf1 kept by (auto simp: read_plan_def val_read_toml res_simps)
  have "val (read_flow_effective cr ?p) w1 = Ok (run_flow fr)"
    using nf1 n lim small enc codec(2)
    by (simp add: read_flow_effective_def val_simps steady_intros text_at_def node_len_def)
  then have "val (load_effective cr ?r u) w1 = Ok (fr\<lparr>run_common := None\<rparr>)"
    using nf1 plan fr by (simp add: load_effective_def val_bind steady_intros val_basic)
  then show ?thesis using steady_run[OF flow_readers_steady(2) nf1, of cr ?r u] by auto
qed

lemma snapshot_levels:
  assumes "plain_uuid u" and "q \<in> insert (flow_effective_toml r u) (temporaries (flow_effective_toml r u))"
  shows "length q = length (flow_dir r u) + 2" and "q \<notin> dirs_above (flow_effective_toml r u)"
  using assms by (auto simp: path_simps temporaries_def with_extension_def dirs_above_def)

lemma cmd_render_effective_run:
  fixes w :: "'x world_scheme"
  assumes u: "plain_uuid u" "parse_target cr root target = Ok u" and nf: "no_faults w"
    and read: "val (flow_run_read cr \<lparr>res_root = root\<rparr> u) w = Ok fr" and ser: "toml_ser_flow cr (run_flow fr) = Ok t"
    and wr: "writable (flow_effective_toml \<lparr>res_root = root\<rparr> u) w"
  shows "is_ok (fst (cmd_render cr root target True w))"
proof -
  let ?r = "\<lparr>res_root = root\<rparr>" and ?p = "flow_effective_toml \<lparr>res_root = root\<rparr> u"
  obtain k where k: "flow_run_read cr ?r u w = (Ok fr, advance k w)"
    using steady_run[OF flow_readers_steady(1) nf, of cr ?r u] unfolding read by blast
  have nf': "no_faults (advance k w)" and wr': "writable ?p (advance k w)"
    using nf wr by (simp_all add: writable_def)
  obtain wd where e: "ensure_parent ?p (advance k w) = (Ok (), wd)" and nfd: "no_faults wd"
    using ensure_parent_run[OF nf' wr'] by blast
  have "shaped (dirs_above ?p) {} (advance k w) wd"
    by (rule obeysD[OF obeys_shaped_ensure[OF order.refl] e])
  from writable_shaped[OF wr' this] have wrd: "writable ?p wd" using snapshot_levels(2)[OF u(1), of _ ?r] by auto
  have "is_ok (fst (write_flow_effective cr ?p (run_flow fr) wd))"
    unfolding write_flow_effective_def by (rule write_toml_run[OF nfd wrd ser])
  then obtain wf where wf: "write_flow_effective cr ?p (run_flow fr) wd = (Ok (), wf)"
    by (cases "write_flow_effective cr ?p (run_flow fr) wd"; cases "fst (write_flow_effective cr ?p (run_flow fr) wd)") auto
  have "(case path_parent ?p of Some parent \<Rightarrow> act_map_err FromIo (create_dir_all parent) | None \<Rightarrow> ret ()) (advance k w)
      = (Ok (), wd)"
    using e by (cases "path_parent ?p") (simp_all add: ensure_parent_def act_map_err_Ok)
  then show ?thesis
    using k wf by (simp add: cmd_render_def Let_def u(2) act_bind_def act_lift_def act_map_err_def println_def print_str_def)
qed

lemma doctor_world_writable: "writable (flow_effective_toml sample_root sample_uuid) doctor_world"
proof -
  have u: "plain_uuid sample_uuid" by (simp add: plain_uuid_def)
  have n: "node_at q doctor_world = Some n \<Longrightarrow> q = [] \<or> q = [RootDir] \<or>
      (q = flow_toml sample_root sample_uuid \<or> q = plan_toml sample_root sample_uuid) \<and> n \<noteq> Dir" for q n
    by (auto simp: node_at_def doctor_world_def quiet_world_def split: if_splits)
  have "flow_toml sample_root sample_uuid \<notin> dirs_above (flow_effective_toml sample_root sample_uuid)"
    "plan_toml sample_root sample_uuid \<notin> dirs_above (flow_effective_toml sample_root sample_uuid)"
    by (simp_all add: path_simps u dirs_above_def path_starts_with_def)
  moreover have "node_at q doctor_world \<noteq> Some Dir"
    if "q \<in> insert (flow_effective_toml sample_root sample_uuid) (temporaries (flow_effective_toml sample_root sample_uuid))" for q
    using snapshot_levels(1)[OF u that] n[of q Dir] by auto
  moreover have "node_at q doctor_world \<noteq> Some (File s)" if "q \<in> dirs_above (flow_effective_toml sample_root sample_uuid)" for q s
    using n[of q "File s"] that calculation(1,2) by (auto simp: node_at_def)
  moreover have "file_name (flow_effective_toml sample_root sample_uuid) \<noteq> None"
    by (simp add: flow_effective_toml_eq u file_name_def)
  ultimately show ?thesis by (simp add: writable_def)
qed

lemma doctor_world_read:
  "val (flow_run_read (doctor_crates (jobs sample_flow)) sample_root sample_uuid) doctor_world
    = Ok \<lparr>flow_uuid = sample_uuid, run_flow = sample_flow, run_plan = sample_plan, run_common = None\<rparr>"
  by (simp add: flow_run_read_def read_flow_def read_plan_def Let_def val_simps steady_intros doctor_world_quiet
      doctor_world_nodes doctor_world_texts doctor_crates_def sample_crates_def inject_partition_defaults_def
      synth_empty_common_def)

lemma snapshot_roundtrip_witness:
  "\<exists>w1 fr w2. cmd_render (doctor_crates (jobs sample_flow)) [RootDir, Normal ''data''] (uuid_str sample_uuid) True
      doctor_world = (Ok (), w1)
    \<and> load_effective (doctor_crates (jobs sample_flow)) sample_root sample_uuid w1 = (Ok (fr\<lparr>run_common := None\<rparr>), w2)"
proof -
  let ?cr = "doctor_crates (jobs sample_flow)" and ?r = "\<lparr>res_root = [RootDir, Normal ''data'']\<rparr>"
  let ?fr = "\<lparr>flow_uuid = sample_uuid, run_flow = sample_flow, run_plan = sample_plan, run_common = None\<rparr>"
  have r: "?r = sample_root" by (simp add: sample_root_def)
  have u: "plain_uuid sample_uuid" by (simp add: plain_uuid_def)
  have "\<not> is_absolute (path_of (uuid_str sample_uuid))" by code_simp
  then have p: "parse_target ?cr [RootDir, Normal ''data''] (uuid_str sample_uuid) = Ok sample_uuid"
    by (simp add: parse_target_def Let_def doctor_crates_def sample_crates_def map_err_def)
  have v: "val (flow_run_read ?cr ?r sample_uuid) doctor_world = Ok ?fr"
    unfolding r by (rule doctor_world_read)
  have c: "toml_ser_flow ?cr (run_flow ?fr) = Ok ''FLOW''" "toml_de_flow ?cr ''FLOW'' = Ok (run_flow ?fr)"
    by (simp_all add: doctor_crates_def sample_crates_def)
  have wr: "writable (flow_effective_toml ?r sample_uuid) doctor_world"
    unfolding r by (rule doctor_world_writable)
  obtain k where read: "flow_run_read ?cr ?r sample_uuid doctor_world = (Ok ?fr, advance k doctor_world)"
    using steady_run[OF flow_readers_steady(1) doctor_world_quiet, of ?cr ?r sample_uuid] unfolding v by blast
  have "is_ok (fst (cmd_render ?cr [RootDir, Normal ''data''] (uuid_str sample_uuid) True doctor_world))"
    by (rule cmd_render_effective_run[OF u p doctor_world_quiet v c(1) wr])
  then obtain w1 where w1: "cmd_render ?cr [RootDir, Normal ''data''] (uuid_str sample_uuid) True doctor_world = (Ok (), w1)"
    by (cases "cmd_render ?cr [RootDir, Normal ''data''] (uuid_str sample_uuid) True doctor_world";
        cases "fst (cmd_render ?cr [RootDir, Normal ''data''] (uuid_str sample_uuid) True doctor_world)") auto
  have small: "length ''FLOW'' \<le> unat (max_toml_size doctor_world)"
    by (simp add: max_toml_size_def doctor_world_def quiet_world_def DEFAULT_MAX_TOML_SIZE_def)
  have "\<forall>n. w_fault doctor_world n = None" by (simp add: doctor_world_def quiet_world_def)
  from snapshot_roundtrip[OF u p this read c small sample_texts_utf8(1) w1] w1 show ?thesis unfolding r by blast
qed

end
