(* ===== verification/NewFlow.thy ===== *)
theory NewFlow
  imports Cli
begin

section \<open>A new flow is all or nothing\<close>

text \<open>
  \<open>jm new\<close> makes the flow's directory, writes two files into it, and removes the directory when a
  write fails. This theory follows the system calls one by one: a write that fails has met a
  fault, so with at most one fault the removal succeeds.
\<close>

definition single_fault :: "'x world_scheme \<Rightarrow> bool" where
  "single_fault w \<longleftrightarrow> (\<exists>n. \<forall>k. k \<noteq> n \<longrightarrow> w_fault w k = None)"

definition later :: "'x world_scheme \<Rightarrow> 'x world_scheme \<Rightarrow> bool" where
  \<comment> \<open>after more system calls on the same host\<close>
  "later w w' \<longleftrightarrow> w_fault w' = w_fault w \<and> w_step w \<le> w_step w'"

interpretation later: world_preorder later
  by unfold_locales (auto simp: later_def)

lemma later_steps [simp]:
  "later w (next_step w)" "later w (put_node p n v) \<longleftrightarrow> later w v" "later w (del_node p v) \<longleftrightarrow> later w v"
  by (simp_all add: later_def next_step_def put_node_def del_node_def)

lemma later_syscall: "(\<And>v. later v (snd (f v))) \<Longrightarrow> obeys later (syscall f)"
  unfolding obeys_def syscall_def
  by (auto split: option.split) (metis later.R_trans later_steps(1))

lemma later_mkdir: "obeys later (mkdir p)"
  unfolding mkdir_def by (rule later_syscall) (simp add: later.R_refl split: option.split node.split)

lemma later_create_dir_all: "obeys later (create_dir_all p)"
  unfolding create_dir_all_def by (intro later.obeys_foldM later_mkdir)

lemma ancestors_snoc: "ancestors (q @ [c]) = ancestors q @ [q @ [c]]"
  by (induction q) simp_all

lemma foldM_append_run:
  "act_foldM f acc (xs @ ys) = act_bind (act_foldM f acc xs) (\<lambda>acc'. act_foldM f acc' ys)"
  by (induction xs arbitrary: acc) (auto simp: act_bind_def fun_eq_iff split: prod.split sum.split)

lemma mkdir_result:
  assumes "p \<noteq> []"
  shows "mkdir p w = (Ok (), w') \<Longrightarrow> node_at p w' = Some Dir"
    and "mkdir p w = (Err e, w') \<Longrightarrow> node_at p w' = node_at p w"
  using assms
  by (auto simp: mkdir_def syscall_def split: option.splits node.splits)
    (metis node_at_put_same node_at_def node_at_next_step option.discI)

lemma act_bind_unit: "act_bind m ret = (m :: ('s, 'e, unit) act)"
  by (rule ext) (simp add: act_bind_def split: prod.split sum.split)

lemma create_dir_all_result:
  assumes "create_dir_all (q @ [c]) w = (x, w')" and "node_at (q @ [c]) w = None"
  shows "case x of Ok _ \<Rightarrow> node_at (q @ [c]) w' = Some Dir | Err _ \<Rightarrow> node_at (q @ [c]) w' = None"
    and "changes_only (set (ancestors (q @ [c]))) w w'"
proof -
  show "changes_only (set (ancestors (q @ [c]))) w w'"
    by (rule obeysD[OF obeys_create_dir_all[OF order.refl] assms(1)])
  have keep: "node_at (q @ [c]) w1 = None" if "act_foldM (\<lambda>_. mkdir) () (ancestors q) w = (y, w1)" for y w1
  proof -
    have "changes_only (set (ancestors q)) w w1"
      by (rule obeysD[OF obeys_create_dir_all[OF order.refl]]) (use that in \<open>simp add: create_dir_all_def\<close>)
    moreover have "q @ [c] \<notin> set (ancestors q)" by (auto simp: set_ancestors)
    ultimately show ?thesis using assms(2) by (simp add: changes_only_def)
  qed
  have last: "node_at (q @ [c]) w2 = Some Dir" if "mkdir (q @ [c]) w1 = (Ok (), w2)" for w1 w2 :: "'a world_scheme"
    using mkdir_result(1)[OF _ that] by simp
  have last': "node_at (q @ [c]) w2 = node_at (q @ [c]) w1" if "mkdir (q @ [c]) w1 = (Err e, w2)" for w1 w2 e
    using mkdir_result(2)[OF _ that] by simp
  show "case x of Ok _ \<Rightarrow> node_at (q @ [c]) w' = Some Dir | Err _ \<Rightarrow> node_at (q @ [c]) w' = None"
  proof -
    have run: "act_bind (act_foldM (\<lambda>_. mkdir) () (ancestors q)) (\<lambda>_. mkdir (q @ [c])) w = (x, w')"
      using assms(1) by (simp add: create_dir_all_def ancestors_snoc foldM_append_run act_bind_unit)
    obtain y w1 where y: "act_foldM (\<lambda>_. mkdir) () (ancestors q) w = (y, w1)" by fastforce
    show ?thesis
    proof (cases y)
      case (Inl e)
      then show ?thesis using run y keep[OF y] by (auto simp: act_bind_def)
    next
      case (Inr a)
      then have m: "mkdir (q @ [c]) w1 = (x, w')" using run y by (simp add: act_bind_def)
      show ?thesis using m last[of w1 w'] last'[of w1 _ w'] keep[OF y] by (cases x) auto
    qed
  qed
qed

lemma later_remove_file: "obeys later (remove_file p)"
  unfolding remove_file_def by (rule later_syscall) (simp add: later.R_refl split: option.split node.split)

definition write_via :: "Path \<Rightarrow> Path \<Rightarrow> string \<Rightarrow> ('x, unit) sys" where
  \<comment> \<open>\<open>atomic_write_str\<close> once the temporary is known\<close>
  "write_via tmp path bytes =
     act_bind (file_create tmp) (\<lambda>_.
     act_bind (write_all tmp bytes) (\<lambda>_.
     act_bind sync_all (\<lambda>_.
     act_bind (act_try (rename_file tmp path)) (\<lambda>renamed.
     case renamed of
       Err e \<Rightarrow> act_bind (act_try (remove_file tmp)) (\<lambda>_. fail e)
     | Ok _ \<Rightarrow> ret ()))))"

lemma write_via_frame: "path \<in> S \<Longrightarrow> tmp \<in> S \<Longrightarrow> obeys (changes_only S) (write_via tmp path b)"
  unfolding write_via_def
  by (auto split: sum.split intro!: frame.obeys_bind frame.obeys_try frame.obeys_fail frame.obeys_ret
      obeys_file_create obeys_write_all obeys_sync_all obeys_rename obeys_remove_file)

definition faulted :: "'x world_scheme \<Rightarrow> 'x world_scheme \<Rightarrow> bool" where
  \<comment> \<open>some system call between the two worlds has failed\<close>
  "faulted w w' \<longleftrightarrow> (\<exists>k. w_step w \<le> k \<and> k < w_step w' \<and> w_fault w k \<noteq> None)"

lemma faulted_then: "faulted w w1 \<Longrightarrow> later w1 w' \<Longrightarrow> faulted w w'"
  unfolding faulted_def later_def by (meson less_le_trans)

lemma then_faulted: "later w w1 \<Longrightarrow> faulted w1 w' \<Longrightarrow> faulted w w'"
  unfolding faulted_def later_def by (metis order.trans)

lemma faulted_here: "w_fault w (w_step w) \<noteq> None \<Longrightarrow> faulted w (next_step w)"
  by (auto simp: faulted_def next_step_def)

lemma faulted_put [simp]: "faulted w (put_node p n v) = faulted w v"
  by (simp add: faulted_def put_node_def)

definition yields ::
  "('x world_scheme \<Rightarrow> bool) \<Rightarrow> ('x world_scheme, 'e, 'a) act \<Rightarrow> ('a \<Rightarrow> 'x world_scheme \<Rightarrow> bool) \<Rightarrow> bool" where
  \<comment> \<open>from a world in \<open>P\<close>, success ends in \<open>Q\<close>, and failure has met a fault\<close>
  "yields P m Q \<longleftrightarrow> (\<forall>w x w'. P w \<longrightarrow> m w = (x, w') \<longrightarrow>
     later w w' \<and> (case x of Ok y \<Rightarrow> Q y w' | Err _ \<Rightarrow> faulted w w'))"

lemma yieldsD:
  "yields P m Q \<Longrightarrow> P w \<Longrightarrow> m w = (x, w') \<Longrightarrow>
    later w w' \<and> (case x of Ok y \<Rightarrow> Q y w' | Err _ \<Rightarrow> faulted w w')"
  by (simp add: yields_def)

lemma yields_bind:
  assumes "yields P m Q" and "\<And>y. yields (Q y) (f y) R"
  shows "yields P (act_bind m f) R"
  unfolding yields_def
proof (intro allI impI)
  fix w x w'
  assume pre: "P w" and run: "act_bind m f w = (x, w')"
  obtain y w1 where m: "m w = (y, w1)" by fastforce
  note first = yieldsD[OF assms(1) pre m]
  show "later w w' \<and> (case x of Ok y \<Rightarrow> R y w' | Err _ \<Rightarrow> faulted w w')"
  proof (cases y)
    case (Inl e)
    then have "x = Err e" "w' = w1" using run m by (simp_all add: act_bind_def)
    then show ?thesis using first Inl by simp
  next
    case (Inr z)
    then have rest: "f z w1 = (x, w')" using run m by (simp add: act_bind_def)
    have 1: "later w w1" "Q z w1" using first Inr by simp_all
    from yieldsD[OF assms(2) 1(2) rest] show ?thesis
      using later.R_trans[OF 1(1)] then_faulted[OF 1(1)] by (cases x) simp_all
  qed
qed

lemma yields_conseq: "yields P m Q \<Longrightarrow> (\<And>y w. Q y w \<Longrightarrow> R y w) \<Longrightarrow> yields P m R"
  unfolding yields_def by (fastforce split: sum.splits)

lemma yields_frame:
  assumes "yields P m Q" and "\<And>w. P' w \<Longrightarrow> P w" and "\<And>w x w'. P' w \<Longrightarrow> m w = (x, w') \<Longrightarrow> S w'"
  shows "yields P' m (\<lambda>y w. Q y w \<and> S w)"
  using assms unfolding yields_def by (fastforce split: sum.splits)

lemma yields_pre: "(\<And>w. P w \<Longrightarrow> yields (\<lambda>v. v = w) m Q) \<Longrightarrow> yields P m Q"
  unfolding yields_def by blast

lemma yields_syscall:
  assumes "\<And>w. P w \<Longrightarrow> \<exists>y v. f (next_step w) = (Ok y, v) \<and> later w v \<and> Q y v"
  shows "yields P (syscall f) Q"
  unfolding yields_def
proof (intro allI impI)
  fix w x w'
  assume "P w" and run: "syscall f w = (x, w')"
  then obtain y v where "f (next_step w) = (Ok y, v)" "later w v" "Q y v" using assms by blast
  then show "later w w' \<and> (case x of Ok y \<Rightarrow> Q y w' | Err _ \<Rightarrow> faulted w w')"
    using run faulted_here[of w] by (auto simp: syscall_def split: option.splits)
qed

lemma yields_cleanup:
  \<comment> \<open>a failure stays a failure whatever the clean-up does\<close>
  assumes "yields P m Q" and c: "obeys later c"
  shows "yields P (act_bind (act_try m) (\<lambda>r. case r of
      Err e \<Rightarrow> act_bind (act_try c) (\<lambda>_. fail e) | Ok _ \<Rightarrow> ret ())) (\<lambda>_ w. \<exists>y. Q y w)"
  unfolding yields_def
proof (intro allI impI)
  fix w x w'
  assume pre: "P w" and run: "act_bind (act_try m) (\<lambda>r. case r of
      Err e \<Rightarrow> act_bind (act_try c) (\<lambda>_. fail e) | Ok _ \<Rightarrow> ret ()) w = (x, w')"
  obtain y w1 where m: "m w = (y, w1)" by fastforce
  obtain z w2 where c2: "c w1 = (z, w2)" by fastforce
  show "later w w' \<and> (case x of Ok _ \<Rightarrow> \<exists>y. Q y w' | Err _ \<Rightarrow> faulted w w')"
    using yieldsD[OF assms(1) pre m] obeysD[OF c c2] run m c2
    by (cases y) (auto simp: act_bind_def act_try_def intro: later.R_trans faulted_then)
qed

definition room :: "Path \<Rightarrow> string \<Rightarrow> string \<Rightarrow> 'x world_scheme \<Rightarrow> bool" where
  \<comment> \<open>the directory is there, and no directory has the name of the file or of its temporary\<close>
  "room q n m w \<longleftrightarrow> node_at q w = Some Dir \<and> node_at (q @ [Normal n]) w \<noteq> Some Dir
     \<and> node_at (q @ [Normal m]) w \<noteq> Some Dir"

lemma room_parent: "room q n m w \<Longrightarrow> parent_is_dir (q @ [Normal k]) w"
  by (simp add: room_def parent_is_dir_def)

lemma room_put: "room q n m w \<Longrightarrow> room q n m (put_node (q @ [Normal m]) (File b) w)"
  by (cases "n = m") (simp_all add: room_def)

lemma room_next_step [simp]: "room q n m (next_step w) = room q n m w"
  by (simp add: room_def)

lemma yields_atomic_write:
  "yields (\<lambda>w. room q n (n @ ''.'' @ show_nat (w_pid w) @ ''.tmp'') w)
    (atomic_write_str (q @ [Normal n]) b) (\<lambda>_ w. node_at (q @ [Normal n]) w = Some (File b))"
proof (rule yields_pre)
  fix w :: "'x world_scheme"
  let ?m = "n @ ''.'' @ show_nat (w_pid w) @ ''.tmp''"
  let ?p = "q @ [Normal n]" and ?t = "q @ [Normal ?m]"
  assume room: "room q n ?m w"
  have create: "yields (room q n ?m) (file_create ?t) (\<lambda>_. room q n ?m)"
    unfolding file_create_def
    by (rule yields_syscall) (auto simp: room_parent room_put, simp add: room_def)
  have fill: "yields (room q n ?m) (write_all ?t b) (\<lambda>_ w. room q n ?m w \<and> node_at ?t w = Some (File b))"
    using faulted_here by (auto simp: yields_def write_all_def room_put split: option.splits)
  have sync: "yields (\<lambda>w. room q n ?m w \<and> node_at ?t w = Some (File b)) sync_all
      (\<lambda>_ w. room q n ?m w \<and> node_at ?t w = Some (File b))"
    unfolding sync_all_def by (rule yields_syscall) simp
  have rename: "yields (\<lambda>w. room q n ?m w \<and> node_at ?t w = Some (File b)) (rename_file ?t ?p)
      (\<lambda>_ w. node_at ?p w = Some (File b))"
    unfolding rename_file_def by (rule yields_syscall) (auto simp: room_parent, simp add: room_def)
  have sib: "tmp_sibling (w_pid w) ?p = Ok ?t" by (simp add: tmp_sibling_def file_name_def)
  have "atomic_write_str ?p b w = write_via ?t ?p b w"
    unfolding atomic_write_str_def write_via_def by (rule act_bind_run) (simp add: sib)
  moreover have "yields (room q n ?m) (write_via ?t ?p b) (\<lambda>_ w. node_at ?p w = Some (File b))"
    unfolding write_via_def by (intro yields_bind[OF create] yields_bind[OF fill] yields_bind[OF sync]
        yields_conseq[OF yields_cleanup[OF rename later_remove_file]]) simp
  ultimately show "yields (\<lambda>v. v = w) (atomic_write_str ?p b) (\<lambda>_ w. node_at ?p w = Some (File b))"
    using room by (auto simp: yields_def)
qed

lemma new_write_frame:
  assumes "atomic_write_str (q @ [Normal n]) b w = (x, w')"
  shows "changes_only {q @ [Normal n], q @ [Normal (n @ ''.'' @ show_nat (w_pid w) @ ''.tmp'')]} w w'"
proof -
  let ?t = "q @ [Normal (n @ ''.'' @ show_nat (w_pid w) @ ''.tmp'')]"
  have "tmp_sibling (w_pid w) (q @ [Normal n]) = Ok ?t" by (simp add: tmp_sibling_def file_name_def)
  then have "atomic_write_str (q @ [Normal n]) b w = write_via ?t (q @ [Normal n]) b w"
    unfolding atomic_write_str_def write_via_def by (intro act_bind_run) simp
  from obeysD[OF write_via_frame assms[unfolded this]] show ?thesis by simp
qed

definition below :: "Path \<Rightarrow> Path set" where
  "below d = {q. path_starts_with q d \<and> q \<noteq> d}"

lemma in_below [simp]: "d @ [c] \<in> below d"
  by (simp add: below_def path_starts_with_def)

lemma yields_write_both:
  assumes u: "plain_uuid u"
  shows "yields (\<lambda>w. node_at (flow_dir r u) w = Some Dir \<and> (\<forall>q\<in>below (flow_dir r u). node_at q w = None))
    (write_both r u a b) (\<lambda>_ w. node_at (flow_toml r u) w = Some (File a) \<and> node_at (plan_toml r u) w = Some (File b))"
proof (rule yields_pre)
  fix w :: "'x world_scheme"
  let ?d = "flow_dir r u" and ?t = "\<lambda>n w. n @ ''.'' @ show_nat (w_pid w) @ ''.tmp''"
  let ?mine = "{flow_toml r u, ?d @ [Normal (?t ''flow.toml'' w)]}"
  assume w: "node_at ?d w = Some Dir \<and> (\<forall>q\<in>below ?d. node_at q w = None)"
  have one: "yields (\<lambda>v. v = w) (atomic_write_str (flow_toml r u) a)
      (\<lambda>_ v. node_at (flow_toml r u) v = Some (File a) \<and> changes_only ?mine w v)"
    unfolding flow_toml_eq[OF u]
    using w new_write_frame[of ?d "''flow.toml''" a w]
    by (intro yields_frame[OF yields_atomic_write]) (simp_all add: room_def)
  have two: "yields (\<lambda>v. node_at (flow_toml r u) v = Some (File a) \<and> changes_only ?mine w v)
      (atomic_write_str (plan_toml r u) b)
      (\<lambda>_ w. node_at (plan_toml r u) w = Some (File b) \<and> node_at (flow_toml r u) w = Some (File a))"
    unfolding flow_toml_eq[OF u] plan_toml_eq[OF u]
  proof (rule yields_frame[OF yields_atomic_write])
    fix v x v'
    assume v: "node_at (?d @ [Normal ''flow.toml'']) v = Some (File a) \<and>
      changes_only {?d @ [Normal ''flow.toml''], ?d @ [Normal (?t ''flow.toml'' w)]} w v"
    then show "room ?d ''plan.toml'' (?t ''plan.toml'' v) v" using w by (simp add: room_def changes_only_def)
    show "node_at (?d @ [Normal ''flow.toml'']) v' = Some (File a)"
      if "atomic_write_str (?d @ [Normal ''plan.toml'']) b v = (x, v')"
      using new_write_frame[OF that] v by (simp add: changes_only_def)
  qed
  show "yields (\<lambda>v. v = w) (write_both r u a b)
      (\<lambda>_ w. node_at (flow_toml r u) w = Some (File a) \<and> node_at (plan_toml r u) w = Some (File b))"
    unfolding write_both_def by (rule yields_conseq[OF yields_bind[OF one two]]) simp
qed

lemma flow_dir_snoc: "plain_uuid u \<Longrightarrow> \<exists>q. flow_dir r u = q @ [Normal (uuid_str u)]"
  by (simp add: flow_dir_def plain_uuid_def join_str_def path_of_plain path_join_def is_absolute_def)

lemma remove_dir_all_run:
  assumes "w_fault w (w_step w) = None" and "remove_dir_all (q @ [Normal n]) w = (x, w')"
    and "path_starts_with p (q @ [Normal n])"
  shows "node_at p w' = None"
proof -
  have "p \<noteq> [] \<and> p \<noteq> [RootDir]"
    using assms(3) by (auto simp: path_starts_with_def take_Cons' split: if_splits)
  then show ?thesis
    using assms by (auto simp: remove_dir_all_def syscall_def node_at_def next_step_def
        map_of_filter_fst[where P = "\<lambda>e. \<not> path_starts_with e (q @ [Normal n])"])
qed

lemma one_fault_over: "single_fault v \<Longrightarrow> later v w \<Longrightarrow> faulted w w' \<Longrightarrow> later w w' \<Longrightarrow> w_fault w' (w_step w') = None"
  unfolding single_fault_def faulted_def later_def by (metis nat_neq_iff)

lemma new_directory:
  fixes w :: "'x world_scheme"
  assumes u: "plain_uuid u" and fresh: "\<forall>q. path_starts_with q (flow_dir r u) \<longrightarrow> node_at q w = None"
    and mk: "create_dir_all (flow_dir r u) (next_step w) = (y, w1)"
  shows "later w w1" and "case y of
      Ok _ \<Rightarrow> node_at (flow_dir r u) w1 = Some Dir \<and> (\<forall>q\<in>below (flow_dir r u). node_at q w1 = None)
    | Err _ \<Rightarrow> (\<forall>q. path_starts_with q (flow_dir r u) \<longrightarrow> node_at q w1 = None)"
proof -
  obtain q where d: "flow_dir r u = q @ [Normal (uuid_str u)]" using flow_dir_snoc[OF u] by blast
  have nd: "node_at (flow_dir r u) w = None" using fresh by (simp add: path_starts_with_def)
  note C = create_dir_all_result[OF mk[unfolded d], folded d]
  have "node_at p w1 = None" if "p \<in> below (flow_dir r u)" for p
  proof -
    have "p \<notin> set (ancestors (flow_dir r u))" using that by (auto simp: set_ancestors below_def path_starts_with_def)
    then show ?thesis using that fresh C(2) nd by (simp add: below_def changes_only_def)
  qed
  then show "case y of
      Ok _ \<Rightarrow> node_at (flow_dir r u) w1 = Some Dir \<and> (\<forall>q\<in>below (flow_dir r u). node_at q w1 = None)
    | Err _ \<Rightarrow> (\<forall>q. path_starts_with q (flow_dir r u) \<longrightarrow> node_at q w1 = None)"
    using C(1) nd by (cases y) (auto simp: below_def)
  show "later w w1" using obeysD[OF later_create_dir_all mk] later_steps(1) by (metis later.R_trans)
qed

lemma cmd_new_run:
  fixes w :: "'x world_scheme"
  assumes d: "d = flow_dir \<lparr>res_root = root\<rparr> (fresh_uuid h)" and tgs: "tag_map raws bt_empty = Ok tgs" and nd: "node_at d w = None"
    and mk: "create_dir_all d (next_step w) = (y, w1)"
    and wb: "write_both \<lparr>res_root = root\<rparr> (fresh_uuid h)
      (build_flow_template cr (fresh_uuid h) (to_rfc3339_secs cr (w_clock w1 (w_step w1))) tgs) build_plan_template
      (next_step w1) = (z, w3)"
  shows "y = Err e \<Longrightarrow> cmd_new h cr root raws print_path w = (Err (FromIo e), w1)"
    and "y = Ok () \<Longrightarrow> z = Err e \<Longrightarrow> cmd_new h cr root raws print_path w =
      (Err (Context (''failed to write boilerplate under '' @ path_display d) (FromIo e)), snd (remove_dir_all d w3))"
    and "y = Ok () \<Longrightarrow> z = Ok () \<Longrightarrow> \<exists>out. cmd_new h cr root raws print_path w = (Ok (), w3\<lparr>w_out := out\<rparr>)"
proof -
  have ex: "path_exists d w = (Ok False :: AnyError + bool, next_step w)"
    using nd by (simp add: path_exists_def metadata_def syscall_def split: option.split)
  note run = cmd_new_def Let_def act_bind_def act_lift_def act_map_err_def map_err_def clock_now_def act_try_def
  show "y = Err e \<Longrightarrow> cmd_new h cr root raws print_path w = (Err (FromIo e), w1)"
    using tgs ex mk by (simp add: run d)
  show "y = Ok () \<Longrightarrow> z = Err e \<Longrightarrow> cmd_new h cr root raws print_path w =
      (Err (Context (''failed to write boilerplate under '' @ path_display d) (FromIo e)), snd (remove_dir_all d w3))"
    using tgs ex mk wb by (simp add: run d split: prod.split)
  show "y = Ok () \<Longrightarrow> z = Ok () \<Longrightarrow> \<exists>out. cmd_new h cr root raws print_path w = (Ok (), w3\<lparr>w_out := out\<rparr>)"
    using tgs ex mk wb by (cases print_path) (simp_all add: run d println_run, metis+)
qed

text \<open>
  C27. Creating a flow is all or nothing. When nothing is there yet under the new UUID and at most
  one system call fails, then \<open>jm new\<close> either succeeds, and flow.toml and plan.toml hold exactly the
  templates, filled in with the tags of the options and the time of some clock reading, or it
  reports an error, and nothing is left of the flow's directory.
\<close>

theorem new_all_or_nothing:
  fixes w :: "'x world_scheme"
  assumes u: "plain_uuid (fresh_uuid h)" and one: "single_fault w"
    and fresh: "\<forall>q. path_starts_with q (flow_dir \<lparr>res_root = root\<rparr> (fresh_uuid h)) \<longrightarrow> node_at q w = None"
    and run: "cmd_new h cr root raws print_path w = (x, w')"
  shows "case x of
      Ok _ \<Rightarrow> (\<exists>t tgs. tag_map raws bt_empty = Ok tgs
        \<and> node_at (flow_toml \<lparr>res_root = root\<rparr> (fresh_uuid h)) w'
            = Some (File (build_flow_template cr (fresh_uuid h) (to_rfc3339_secs cr t) tgs))
        \<and> node_at (plan_toml \<lparr>res_root = root\<rparr> (fresh_uuid h)) w' = Some (File build_plan_template))
    | Err _ \<Rightarrow> (\<forall>q. path_starts_with q (flow_dir \<lparr>res_root = root\<rparr> (fresh_uuid h)) \<longrightarrow> node_at q w' = None)"
proof (cases "tag_map raws bt_empty")
  case (Inl e)
  then have "x = Err e" "w' = w" using run by (auto simp: cmd_new_def act_bind_def act_lift_def)
  then show ?thesis using fresh by simp
next
  case (Inr tgs)
  let ?u = "fresh_uuid h" and ?r = "\<lparr>res_root = root\<rparr>" and ?d = "flow_dir \<lparr>res_root = root\<rparr> (fresh_uuid h)"
  obtain q where d: "?d = q @ [Normal (uuid_str ?u)]" using flow_dir_snoc[OF u] by blast
  have nd: "node_at ?d w = None" using fresh by (simp add: path_starts_with_def)
  obtain y w1 where mk: "create_dir_all ?d (next_step w) = (y, w1)" by fastforce
  let ?f = "build_flow_template cr ?u (to_rfc3339_secs cr (w_clock w1 (w_step w1))) tgs"
  obtain z w3 where wb: "write_both ?r ?u ?f build_plan_template (next_step w1) = (z, w3)" by fastforce
  note D = new_directory[OF u fresh mk] and R = cmd_new_run[OF refl Inr nd mk wb, where print_path = print_path]
  show ?thesis
  proof (cases y)
    case (Inl e)
    then show ?thesis using R(1)[OF Inl] D(2) run by simp
  next
    case made: (Inr o')
    then have "node_at ?d (next_step w1) = Some Dir \<and> (\<forall>q\<in>below ?d. node_at q (next_step w1) = None)"
      using D(2) by simp
    note B = yieldsD[OF yields_write_both[OF u] this wb]
    show ?thesis
    proof (cases z)
      case (Inl e)
      then have "w_fault w3 (w_step w3) = None"
        using B one_fault_over[OF one later.R_trans[OF D(1) later_steps(1)]] by simp
      moreover have "w' = snd (remove_dir_all ?d w3)" "is_err x" using R(2)[of e] made Inl run by simp_all
      ultimately show ?thesis
        using remove_dir_all_run[OF _ prod.collapse[symmetric]] unfolding d by (auto split: sum.split)
    next
      case (Inr o'')
      then obtain out where "x = Ok ()" "w' = w3\<lparr>w_out := out\<rparr>" using R(3) made run by auto
      then show ?thesis using B Inr \<open>tag_map raws bt_empty = Inr tgs\<close> by (auto simp: node_at_def)
    qed
  qed
qed

definition new_host :: "unit host" where
  "new_host = \<lparr>real_path = id, sbatch_spawn = (\<lambda>_ x. (Ok None, x)), slurm_batch = (\<lambda>_. Ok Map.empty),
     fresh_uuid = sample_uuid, walking = (\<lambda>n. [0..<n]), reading = (\<lambda>n. [0..<n]),
     json_jobs = (\<lambda>_. Ok ''[]''), json_flows = (\<lambda>_. Ok ''[]'')\<rparr>"

definition full_disk :: world where
  \<comment> \<open>the sixth system call fails\<close>
  "full_disk = (quiet_world [([RootDir, Normal ''data''], Dir)])
     \<lparr>w_fault := (\<lambda>n. if n = 6 then Some (Fault (io_error OtherKind) 10) else None)\<rparr>"

lemma new_all_or_nothing_witness:
  "case fst (cmd_new new_host sample_crates [RootDir, Normal ''data''] [] True full_disk) of
      Ok _ \<Rightarrow> \<exists>t tgs. tag_map [] bt_empty = Ok tgs
        \<and> node_at (flow_toml sample_root sample_uuid)
              (snd (cmd_new new_host sample_crates [RootDir, Normal ''data''] [] True full_disk))
            = Some (File (build_flow_template sample_crates sample_uuid (to_rfc3339_secs sample_crates t) tgs))
    | Err _ \<Rightarrow> node_at (flow_dir sample_root sample_uuid)
              (snd (cmd_new new_host sample_crates [RootDir, Normal ''data''] [] True full_disk)) = None"
proof -
  have h: "fresh_uuid new_host = sample_uuid" and r: "\<lparr>res_root = [RootDir, Normal ''data'']\<rparr> = sample_root"
    by (simp_all add: new_host_def sample_root_def)
  have u: "plain_uuid (fresh_uuid new_host)" by (simp add: h plain_uuid_def)
  have one: "single_fault full_disk" by (auto simp: single_fault_def full_disk_def quiet_world_def)
  have d: "flow_dir sample_root sample_uuid = [RootDir, Normal ''data'', Normal (uuid_str sample_uuid)]" by code_simp
  have "node_at q full_disk = None" if "path_starts_with q (flow_dir sample_root sample_uuid)" for q
  proof -
    have "length q \<ge> 3" using that by (auto simp: d path_starts_with_def dest: arg_cong[of _ _ length])
    then show ?thesis by (auto simp: node_at_def full_disk_def quiet_world_def)
  qed
  then have "\<forall>q. path_starts_with q (flow_dir \<lparr>res_root = [RootDir, Normal ''data'']\<rparr> (fresh_uuid new_host)) \<longrightarrow>
      node_at q full_disk = None"
    by (simp add: h r)
  from new_all_or_nothing[OF u one this prod.collapse[symmetric], of sample_crates "[]" True]
  show ?thesis unfolding h r by (auto simp: path_starts_with_def split: sum.splits)
qed

end
