(* ===== verification/Frames.thy ===== *)
theory Frames
  imports NewFlow
begin

section \<open>What each command touches\<close>

text \<open>
  The frames of \<open>submit\<close> and of the readers, carried through the commands of \<open>bin/jm.rs\<close>: which
  paths a render, a submission and the creation of a flow may change, whatever fails. Two flows
  with different UUIDs keep apart.
\<close>

definition flow_tree :: "PathResolver \<Rightarrow> Uuid \<Rightarrow> Path set" where
  \<comment> \<open>the directory of a flow with what is below it, and the directories above\<close>
  "flow_tree r u = {q. path_starts_with q (flow_dir r u)} \<union> dirs_above (flow_dir r u)"

lemma flow_dir_eq: "plain_uuid u \<Longrightarrow> flow_dir r u = res_root r @ [Normal (uuid_str u)]"
  by (cases "res_root r = []";
      simp add: flow_dir_def plain_uuid_def join_str_plain join_str_def path_of_plain path_join_def is_absolute_def)

lemma flow_dir_inject:
  "plain_uuid u \<Longrightarrow> plain_uuid v \<Longrightarrow> flow_dir r u = flow_dir r v \<longleftrightarrow> u = v"
  by (auto simp: flow_dir_eq intro: Uuid.expand)

lemma flow_area_in_tree:
  assumes "plain_uuid u"
  shows "flow_area r u \<subseteq> flow_tree r u"
proof
  fix q assume "q \<in> flow_area r u"
  then show "q \<in> flow_tree r u"
    using path_above_cases[of q "flow_dir r u" "Normal ''.jm''"] jm_dir_eq[OF assms, of r]
    by (auto simp: flow_area_def flow_tree_def path_starts_with_iff)
qed

lemma status_other_flow:
  assumes u: "plain_uuid u" and v: "plain_uuid v" and "u \<noteq> v" and j: "plain_id j"
  shows "status_file r u j \<notin> flow_tree r v"
proof
  let ?n = "Suc (length (res_root r))"
  assume "status_file r u j \<in> flow_tree r v"
  then have "take ?n (status_file r u j) = flow_dir r v \<or> length (status_file r u j) < ?n"
    by (auto simp: flow_tree_def dirs_above_def path_starts_with_iff flow_dir_eq[OF v])
  moreover have "take ?n (status_file r u j) = flow_dir r u" "?n < length (status_file r u j)"
    using u j by (simp_all add: status_file_eq flow_dir_eq)
  ultimately show False using flow_dir_inject[OF u v] assms(3) by simp
qed

lemma flow_readers_uuid:
  "flow_run_read cr r u w = (Ok fr, w') \<Longrightarrow> flow_uuid fr = u"
  "load_effective cr r u w = (Ok fr, w') \<Longrightarrow> flow_uuid fr = u"
  by (auto simp: flow_run_read_def load_effective_def io_simps)

lemma obeys_println [inv_intros]: "obeys (changes_only S) (println s)"
  unfolding println_def by (rule inv_intros)

lemma obeys_files_mono: "obeys (files_only S) m \<Longrightarrow> S \<subseteq> T \<Longrightarrow> obeys (files_only T) m"
  unfolding obeys_def using files_only_mono by blast

subsection \<open>Render and submit\<close>

lemma obeys_cmd_render:
  assumes v: "\<And>v. parse_target cr root target = Ok v \<Longrightarrow> plain_uuid v \<and> dry_area \<lparr>res_root = root\<rparr> v \<subseteq> S"
  shows "obeys (changes_only S) (cmd_render cr root target effective_only)"
  unfolding cmd_render_def Let_def
proof (rule frame.obeys_bind_res[OF frame.obeys_lift])
  let ?r = "\<lparr>res_root = root\<rparr>"
  fix w v w1
  assume "act_lift (parse_target cr root target) w = (Ok v, w1)"
  then have u: "plain_uuid v" and S: "dry_area ?r v \<subseteq> S" using v by (auto simp: io_simps)
  let ?p = "flow_effective_toml ?r v"
  have ws: "write_set ?p \<subseteq> S" using S by (auto simp: dry_area_def)
  then have dirs: "dirs_above ?p \<subseteq> S" by (auto simp: write_set_def)
  have prep: "obeys (changes_only S) (case path_parent ?p of
      Some parent \<Rightarrow> act_map_err FromIo (create_dir_all parent) | None \<Rightarrow> ret ())"
    using ancestors_dirs_above[of ?p] dirs
    by (auto split: option.split intro!: frame.obeys_ret frame.obeys_map_err obeys_create_dir_all)
  have dry: "obeys (changes_only S) (render_only (dry_run_executor cr) cr ?r fr)" if "flow_uuid fr = v" for fr
    unfolding render_only_def
    using obeys_mono[OF obeys_submit_dry S[folded that]] u that by (intro frame.obeys_bind frame.obeys_ret) simp
  show "obeys (changes_only S)
      (act_bind (act_map_err FromJm (flow_run_read cr ?r v)) (\<lambda>fr.
       if effective_only then
         act_bind (case path_parent ?p of
             Some parent \<Rightarrow> act_map_err FromIo (create_dir_all parent) | None \<Rightarrow> ret ()) (\<lambda>_.
         act_bind (act_map_err FromJm (write_flow_effective cr ?p (run_flow fr))) (\<lambda>_.
         println (''updated .flow.effective.toml for '' @ uuid_str v)))
       else
         act_bind (act_map_err FromJm (render_only (dry_run_executor cr) cr ?r fr)) (\<lambda>_.
         println (''rendered '' @ show_nat (bt_len (jobs (run_flow fr))) @ '' jobs in '' @ uuid_str v))))"
  proof (rule frame.obeys_bind_res)
    fix w fr w1
    assume "act_map_err FromJm (flow_run_read cr ?r v) w = (Ok fr, w1)"
    then have "flow_uuid fr = v" using flow_readers_uuid(1)[of cr ?r v w fr w1] by (simp add: act_map_err_Ok)
    from dry[OF this] show "obeys (changes_only S) (if effective_only then
         act_bind (case path_parent ?p of
             Some parent \<Rightarrow> act_map_err FromIo (create_dir_all parent) | None \<Rightarrow> ret ()) (\<lambda>_.
         act_bind (act_map_err FromJm (write_flow_effective cr ?p (run_flow fr))) (\<lambda>_.
         println (''updated .flow.effective.toml for '' @ uuid_str v)))
       else
         act_bind (act_map_err FromJm (render_only (dry_run_executor cr) cr ?r fr)) (\<lambda>_.
         println (''rendered '' @ show_nat (bt_len (jobs (run_flow fr))) @ '' jobs in '' @ uuid_str v)))"
      by (intro frame.obeys_if frame.obeys_bind frame.obeys_map_err prep obeys_writers[OF ws] obeys_println)
  qed (intro frame.obeys_map_err inv_intros)
qed

lemma obeys_cmd_submit:
  assumes v: "\<And>v. parse_target cr root target = Ok v \<Longrightarrow> plain_uuid v
    \<and> (if dry_run then dry_area \<lparr>res_root = root\<rparr> v else flow_area \<lparr>res_root = root\<rparr> v) \<subseteq> S"
  shows "obeys (files_only S) (cmd_submit h cr root target dry_run)"
  unfolding cmd_submit_def Let_def
proof (rule files.obeys_bind_res[OF files.obeys_lift])
  let ?r = "\<lparr>res_root = root\<rparr>" and ?ex = "if dry_run then dry_run_executor cr else sbatch_executor (sbatch_spawn h)"
  fix w v w1
  assume "act_lift (parse_target cr root target) w = (Ok v, w1)"
  then have u: "plain_uuid v" and S: "(if dry_run then dry_area ?r v else flow_area ?r v) \<subseteq> S"
    using v by (auto simp: io_simps)
  have run: "obeys (files_only S) (submit ?ex cr ?r fr dry_run)" if fr: "flow_uuid fr = v" for fr
  proof (cases dry_run)
    case True
    then show ?thesis using obeys_files[OF obeys_submit_dry] S u fr by auto
  next
    case False
    then show ?thesis using obeys_files_mono[OF obeys_submit[of fr ?r]] S u fr by simp
  qed
  have out: "obeys (files_only S) (println s)" for s by (rule obeys_files[OF obeys_println subset_refl])
  show "obeys (files_only S)
      (act_bind (act_map_err FromJm (flow_run_read cr ?r v)) (\<lambda>fr.
       act_bind (act_map_err FromJm (submit ?ex cr ?r fr dry_run)) (\<lambda>jobids.
       act_bind (println (''submitted '' @ show_nat (bt_len jobids) @ '' jobs'')) (\<lambda>_.
       act_foldM (\<lambda>_ (j, i). println (''  '' @ jid j @ '' -> '' @ show_nat (unat i))) ()
         (bt_entries jobids)))))"
  proof (rule files.obeys_bind_res)
    fix w fr w1
    assume "act_map_err FromJm (flow_run_read cr ?r v) w = (Ok fr, w1)"
    then have "flow_uuid fr = v" using flow_readers_uuid(1)[of cr ?r v w fr w1] by (simp add: act_map_err_Ok)
    from run[OF this] show "obeys (files_only S)
      (act_bind (act_map_err FromJm (submit ?ex cr ?r fr dry_run)) (\<lambda>jobids.
       act_bind (println (''submitted '' @ show_nat (bt_len jobids) @ '' jobs'')) (\<lambda>_.
       act_foldM (\<lambda>_ (j, i). println (''  '' @ jid j @ '' -> '' @ show_nat (unat i))) ()
         (bt_entries jobids))))"
      by (intro files.obeys_bind files.obeys_map_err files.obeys_foldM out) (auto split: prod.split intro: out)
  qed (intro files.obeys_map_err obeys_files[OF obeys_flow_readers(1) subset_refl])
qed

subsection \<open>The creation of a flow\<close>

lemma obeys_atomic_write_str:
  assumes "path \<in> S" and "\<And>pid tmp. tmp_sibling pid path = Ok tmp \<Longrightarrow> tmp \<in> S"
  shows "obeys (changes_only S) (atomic_write_str path b)"
  unfolding atomic_write_str_def
proof (rule frame.obeys_bind_res)
  fix w tmp w1
  assume "(tmp_sibling (w_pid w) path, w) = (Ok tmp, w1)"
  then have "tmp \<in> S" using assms(2) by blast
  from write_via_frame[OF assms(1) this, of b] show "obeys (changes_only S)
     (act_bind (file_create tmp) (\<lambda>_.
      act_bind (write_all tmp b) (\<lambda>_.
      act_bind sync_all (\<lambda>_.
      act_bind (act_try (rename_file tmp path)) (\<lambda>renamed.
      case renamed of
        Err e \<Rightarrow> act_bind (act_try (remove_file tmp)) (\<lambda>_. fail e)
      | Ok _ \<Rightarrow> ret ())))))"
    unfolding write_via_def .
qed (simp add: obeys_def frame.R_refl)

lemma obeys_cmd_new:
  assumes u: "plain_uuid (fresh_uuid h)"
  shows "obeys (changes_only (flow_tree \<lparr>res_root = root\<rparr> (fresh_uuid h))) (cmd_new h cr root tgs print_path)"
proof -
  let ?r = "\<lparr>res_root = root\<rparr>" and ?u = "fresh_uuid h"
  let ?S = "flow_tree ?r ?u"
  have above: "set (ancestors (flow_dir ?r ?u)) \<subseteq> ?S"
    by (auto simp: set_ancestors flow_tree_def dirs_above_def path_starts_with_iff)
  have below: "flow_dir ?r ?u @ [c] \<in> ?S" for c by (simp add: flow_tree_def path_starts_with_iff)
  have one: "obeys (changes_only ?S) (atomic_write_str (flow_dir ?r ?u @ [Normal n]) b)" for n b
    by (rule obeys_atomic_write_str) (auto simp: below tmp_sibling_def file_name_def)
  have both: "obeys (changes_only ?S) (write_both ?r ?u a b)" for a b
    unfolding write_both_def flow_toml_eq[OF u] plan_toml_eq[OF u] by (intro frame.obeys_bind one)
  have gone: "obeys (changes_only ?S) (remove_dir_all (flow_dir ?r ?u))"
    by (rule obeys_remove_dir_all) (simp add: flow_tree_def)
  show ?thesis
    unfolding cmd_new_def Let_def
    by (intro frame.obeys_bind frame.obeys_lift frame.obeys_if frame.obeys_fail frame.obeys_map_err frame.obeys_try
        obeys_create_dir_all[OF above] both inv_intros)
      (auto split: sum.split intro!: frame.obeys_bind frame.obeys_try frame.obeys_fail obeys_println gone)
qed

end
