(* ===== verification/History.thy ===== *)
theory History
  imports Frames
begin

section \<open>The life of a flow\<close>

text \<open>
  The commands put together. A flow is submitted and then lives through any number of invocations
  of \<open>jm\<close>, under any SLURM answers, results and faults, and through whatever else happens to files
  that are not its status files. \<open>jm_step\<close> is one such event as a relation between worlds; what a
  status can become is an invariant over its reflexive and transitive closure. The first tick
  after a submission is computed from the SLURM answers alone.
\<close>

definition spares :: "crates \<Rightarrow> PathResolver \<Rightarrow> Uuid \<Rightarrow> 'x host \<Rightarrow> Cli \<Rightarrow> 'x world_scheme \<Rightarrow> bool" where
  \<comment> \<open>not a real submission of the flow, nor a creation under its UUID; the names it works on are plain\<close>
  "spares cr r u h cli w \<longleftrightarrow>
     (case cli_cmd cli of
        CmdRender target _ \<Rightarrow> \<forall>v. parse_target cr (res_root r) target = Ok v \<longrightarrow> plain_uuid v
      | CmdSubmit target dry_run \<Rightarrow>
          \<forall>v. parse_target cr (res_root r) target = Ok v \<longrightarrow> plain_uuid v \<and> (dry_run \<or> v \<noteq> u)
      | CmdTick target \<Rightarrow>
          \<forall>v. parse_target cr (res_root r) target = Ok v \<longrightarrow> plain_uuid v
            \<and> (\<forall>s fl. node_at (flow_effective_toml r v) w = Some (File s) \<longrightarrow> toml_de_flow cr s = Ok fl
                \<longrightarrow> list_all plain_id (bt_keys (jobs fl)))
      | CmdNew _ _ \<Rightarrow> plain_uuid (fresh_uuid h) \<and> fresh_uuid h \<noteq> u
      | _ \<Rightarrow> True)"

inductive jm_step :: "crates \<Rightarrow> PathResolver \<Rightarrow> Uuid \<Rightarrow> 'x world_scheme \<Rightarrow> 'x world_scheme \<Rightarrow> bool"
  for cr r u where
  invoked: "\<forall>root. fst (resolve_root h cli w) = Ok root \<longrightarrow> root = res_root r \<Longrightarrow> spares cr r u h cli w \<Longrightarrow>
    jm_step cr r u w (snd (jm_main h cr cli w))"
| elsewhere: "\<forall>j. plain_id j \<longrightarrow> node_at (status_file r u j) w' = node_at (status_file r u j) w \<Longrightarrow>
    jm_step cr r u w w'"

lemma status_area_in_flow:
  "plain_uuid u \<Longrightarrow> (\<And>j. j \<in> js \<Longrightarrow> plain_id j) \<Longrightarrow> status_area r u js \<subseteq> flow_area r u"
  unfolding status_area_def using write_set_status[of u _ r] job_area_sub[of u _ r] by blast

subsection \<open>What a status can become\<close>

definition grows :: "JobRun option \<Rightarrow> JobRun option \<Rightarrow> bool" where
  \<comment> \<open>a status only moves along the machine, and is kept once it is terminal\<close>
  "grows before after \<longleftrightarrow> (case before of
     None \<Rightarrow> after = None
   | Some run \<Rightarrow> (\<exists>run'. after = Some run' \<and> rtranclp life_step (lifecycle run) (lifecycle run')
       \<and> slurm_jobid run' = slurm_jobid run \<and> run_note run' = run_note run
       \<and> (is_terminal (lifecycle run) \<longrightarrow> run' = run)))"

lemma grows_refl [simp]: "grows s s"
  by (simp add: grows_def split: option.split)

lemma no_step_from_terminal: "rtranclp life_step l l' \<Longrightarrow> is_terminal l \<Longrightarrow> l' = l"
  by (induction rule: rtranclp_induct) (auto dest: life_step_not_terminal)

lemma grows_trans: "grows a b \<Longrightarrow> grows b c \<Longrightarrow> grows a c"
  by (auto simp: grows_def split: option.splits dest: no_step_from_terminal)

lemma grows_moved:
  assumes "moved run run'"
  shows "grows (Some run) (Some run')"
proof -
  have s: "life_step (lifecycle run) (lifecycle run')"
    "slurm_jobid run' = slurm_jobid run" "run_note run' = run_note run"
    using assms by (simp_all add: moved_def)
  then show ?thesis
    using life_step_not_terminal[OF s(1)] by (simp add: grows_def r_into_rtranclp)
qed

lemma grows_same_node:
  "node_at (status_file r u j) w' = node_at (status_file r u j) w \<Longrightarrow>
    grows (status_at cr r u w j) (status_at cr r u w' j)"
  by (frule status_at_same[where cr = cr]) (metis grows_refl)

lemma node_kept:
  "obeys (files_only S) m \<Longrightarrow> p \<notin> S \<Longrightarrow> node_at p (snd (m w)) = node_at p w"
  "obeys (changes_only S) m' \<Longrightarrow> p \<notin> S \<Longrightarrow> node_at p (snd (m' w)) = node_at p w"
  by (auto simp: obeys_def files_only_def changes_only_def)

lemma tick_leaves:
  \<comment> \<open>a tick touches the statuses of its own jobs only\<close>
  assumes h: "plain_uuid u" "plain_id j" and fr: "plain_uuid (flow_uuid fr)"
    and ids: "list_all plain_id (bt_keys (jobs (run_flow fr)))"
    and other: "\<not> (flow_uuid fr = u \<and> j \<in> set (bt_keys (jobs (run_flow fr))))"
  shows "status_at cr r u (snd (tick q cr r fr w)) j = status_at cr r u w j"
proof -
  let ?S = "status_area r (flow_uuid fr) (set (bt_keys (jobs (run_flow fr))))"
  have pl: "\<And>k. k \<in> set (bt_keys (jobs (run_flow fr))) \<Longrightarrow> plain_id k" using ids by (simp add: list_all_iff)
  have "status_file r u j \<notin> ?S"
  proof (cases "flow_uuid fr = u")
    case True
    then show ?thesis using status_area_disjoint[OF fr h(2) pl] other by simp
  next
    case False
    have "?S \<subseteq> flow_tree r (flow_uuid fr)"
      using status_area_in_flow[OF fr pl] flow_area_in_tree[OF fr, of r] by blast
    then show ?thesis using status_other_flow[OF h(1) fr False[symmetric] h(2), of r] by blast
  qed
  then show ?thesis by (intro status_at_same node_kept(2)[OF obeys_tick])
qed

lemma grows_tick:
  assumes h: "restores cr" "plain_uuid u" "plain_id j" and fr: "plain_uuid (flow_uuid fr)"
    and ids: "list_all plain_id (bt_keys (jobs (run_flow fr)))"
  shows "grows (status_at cr r u w j) (status_at cr r u (snd (tick q cr r fr w)) j)"
proof (cases "flow_uuid fr = u \<and> j \<in> set (bt_keys (jobs (run_flow fr)))")
  case True
  then show ?thesis
    using tick_moved[where q = q and r = r and w = w and j = j, OF h(1) fr _ prod.collapse[symmetric]] ids
    by (auto simp: list_all_iff intro: grows_moved)
qed (simp add: tick_leaves[OF h(2,3) fr ids])

lemma println_nodes: "node_at p (snd (println s w)) = node_at p w"
  by (simp add: println_def print_str_def node_at_def)

lemma read_flow_effective_text:
  assumes "load_effective cr r v w = (Ok fr, w')"
  obtains s where "node_at (flow_effective_toml r v) w = Some (File s)" "toml_de_flow cr s = Ok (run_flow fr)"
proof -
  let ?p = "flow_effective_toml r v"
  from assms obtain pl w1 w2 w3 ex where p: "read_plan cr (plan_toml r v) w = (Ok pl, w1)"
    and e: "path_exists ?p w1 = (Ok ex :: JobManagerError + bool, w2)"
    and f: "read_toml (toml_de_flow cr) ?p w2 = (Ok (run_flow fr), w3)"
    by (auto simp: load_effective_def read_flow_effective_def io_simps split: if_splits)
  have "node_at ?p w2 = node_at ?p w"
    using same_nodes[OF obeys_readers(2) p] same_nodes[OF obeys_path_exists e] by simp
  then show thesis using read_toml_Ok[OF f] that by auto
qed

definition snapshot_is :: "crates \<Rightarrow> PathResolver \<Rightarrow> Uuid \<Rightarrow> 'x world_scheme \<Rightarrow> JobFlow \<Rightarrow> bool" where
  "snapshot_is cr r u w fl \<longleftrightarrow>
     (\<exists>s. node_at (flow_effective_toml r u) w = Some (File s) \<and> toml_de_flow cr s = Ok fl)"

lemma cmd_tick_nodes:
  \<comment> \<open>the command leaves the files alone, or changes them as a tick of the flow of the snapshot does\<close>
  fixes w :: "'x world_scheme"
  assumes "parse_target cr (res_root r) target = Ok v"
  shows "(\<forall>p. node_at p (snd (cmd_tick host cr (res_root r) target w)) = node_at p w)
    \<or> (\<exists>fr (w1 :: 'x world_scheme). flow_uuid fr = v \<and> snapshot_is cr r v w (run_flow fr)
        \<and> (\<forall>p. node_at p w1 = node_at p w)
        \<and> (\<forall>p. node_at p (snd (cmd_tick host cr (res_root r) target w))
            = node_at p (snd (tick (slurm_querier (slurm_batch host)) cr r fr w1))))"
proof -
  have r: "\<lparr>res_root = res_root r\<rparr> = r" by (cases r) simp
  note run = cmd_tick_def r Let_def act_bind_def act_lift_def act_map_err_def assms
  obtain x w1 where l: "load_effective cr r v w = (x, w1)" by fastforce
  have same: "node_at p w1 = node_at p w" for p by (rule same_nodes[OF obeys_flow_readers(2) l])
  show ?thesis
  proof (cases x)
    case (Inl e)
    then have "snd (cmd_tick host cr (res_root r) target w) = w1" using l by (simp add: run)
    then show ?thesis using same by simp
  next
    case (Inr fr)
    obtain y w2 where t: "tick (slurm_querier (slurm_batch host)) cr r fr w1 = (y, w2)" by fastforce
    have "node_at p (snd (cmd_tick host cr (res_root r) target w)) = node_at p w2" for p
      using l Inr t by (cases y) (simp_all add: run println_nodes)
    moreover have "snapshot_is cr r v w (run_flow fr)"
      using read_flow_effective_text l Inr unfolding snapshot_is_def by metis
    moreover have "flow_uuid fr = v" using flow_readers_uuid(2) l Inr by blast
    ultimately show ?thesis using same t by (intro disjI2 exI[of _ fr] exI[of _ w1]) simp
  qed
qed

lemma obeys_resolve_root: "obeys (changes_only {}) (resolve_root h cli)"
proof -
  have "obeys (changes_only {}) (\<lambda>w :: 'x world_scheme. (case w_env w ''JM_ROOT'' of
      Some p \<Rightarrow> Ok (path_of p) | None \<Rightarrow> Err (Msg ''--root or JM_ROOT must be set''), w))"
    by (simp add: obeys_def frame.R_refl)
  moreover have "obeys (changes_only {}) (canonicalize real p)" for real p
    unfolding canonicalize_def
    by (rule obeys_syscall) (simp add: frame.R_refl split: option.split)
  ultimately show ?thesis
    unfolding resolve_root_def
    by (auto split: option.split intro!: frame.obeys_bind frame.obeys_map_err frame.obeys_ret)
qed

text \<open>Where the other commands write, no status file of the flow is.\<close>

lemma status_untouched:
  assumes "plain_uuid u" and "plain_id j" and v: "plain_uuid v"
  shows "v \<noteq> u \<Longrightarrow> status_file r u j \<notin> flow_tree r v"
    and "v \<noteq> u \<Longrightarrow> status_file r u j \<notin> flow_area r v"
    and "status_file r u j \<notin> dry_area r v"
proof -
  show tree: "status_file r u j \<notin> flow_tree r v" if "v \<noteq> u"
    using status_other_flow[OF assms(1) v _ assms(2)] that by blast
  show area: "status_file r u j \<notin> flow_area r v" if "v \<noteq> u"
    using tree[OF that] flow_area_in_tree[OF v, of r] by blast
  have "dry_area r v \<subseteq> flow_area r v"
    using snapshot_area[OF v] job_area_sub[OF v] unfolding dry_area_def by blast
  then show "status_file r u j \<notin> dry_area r v"
    using area status_not_in_dry_area[OF assms(1,2)] by (cases "v = u") auto
qed

definition dispatch :: "'x host \<Rightarrow> crates \<Rightarrow> Path \<Rightarrow> Cmd \<Rightarrow> ('x, unit) cli" where
  \<comment> \<open>the match of \<open>jm_main\<close>\<close>
  "dispatch h cr root c = (case c of
       CmdRender target effective_only \<Rightarrow> cmd_render cr root target effective_only
     | CmdSubmit target dry_run \<Rightarrow> cmd_submit h cr root target dry_run
     | CmdShow target \<Rightarrow> cmd_show cr root target
     | CmdTick target \<Rightarrow> cmd_tick h cr root target
     | CmdLs view \<Rightarrow> cmd_ls h cr root view
     | CmdDoctor target \<Rightarrow> cmd_doctor cr root target
     | CmdNew tgs print_path \<Rightarrow> cmd_new h cr root tgs print_path)"

lemma jm_main_dispatch: "jm_main h cr cli = act_bind (resolve_root h cli) (\<lambda>root. dispatch h cr root (cli_cmd cli))"
  by (simp add: jm_main_def dispatch_def)

lemma dispatch_keeps:
  assumes h: "plain_uuid u" "plain_id j" and sp: "spares cr r u host cli w"
    and no_tick: "\<And>target. cli_cmd cli \<noteq> CmdTick target"
  shows "obeys (files_only (- {status_file r u j})) (dispatch host cr (res_root r) (cli_cmd cli))"
proof -
  let ?S = "- {status_file r u j}"
  have r: "\<lparr>res_root = res_root r\<rparr> = r" by (cases r) simp
  note files = obeys_files[OF _ subset_refl] and away = status_untouched[OF h]
  show ?thesis
  proof (cases "cli_cmd cli")
    case (CmdRender target eff)
    then have "obeys (changes_only ?S) (cmd_render cr (res_root r) target eff)"
      using sp away(3) by (intro obeys_cmd_render) (auto simp: spares_def r)
    then show ?thesis using CmdRender files by (simp add: dispatch_def)
  next
    case (CmdSubmit target dry_run)
    then have "obeys (files_only ?S) (cmd_submit host cr (res_root r) target dry_run)"
      using sp away(2,3) by (intro obeys_cmd_submit) (auto simp: spares_def r)
    then show ?thesis using CmdSubmit by (simp add: dispatch_def)
  next
    case (CmdNew tgs pp)
    then have "plain_uuid (fresh_uuid host)" "flow_tree r (fresh_uuid host) \<subseteq> ?S"
      using sp away(1) by (auto simp: spares_def)
    then show ?thesis
      using obeys_files[OF obeys_cmd_new, of host "res_root r" ?S cr tgs pp] CmdNew by (simp add: r dispatch_def)
  qed (use no_tick obeys_files[OF obeys_reading_commands(1), of ?S] obeys_files[OF obeys_reading_commands(2), of ?S]
      obeys_files[OF obeys_reading_commands(3), of ?S] in \<open>simp_all add: dispatch_def\<close>)
qed

lemma cmd_tick_statuses:
  fixes w :: "'x world_scheme"
  assumes sp: "spares cr r u host cli w" and c: "cli_cmd cli = CmdTick target"
    and same: "\<And>p. node_at p w0 = node_at p w" and w': "w' = snd (cmd_tick host cr (res_root r) target w0)"
  shows "(\<forall>j. status_at cr r u w' j = status_at cr r u w j)
    \<or> (\<exists>q fr (w1 :: 'x world_scheme). plain_uuid (flow_uuid fr) \<and> list_all plain_id (bt_keys (jobs (run_flow fr)))
        \<and> snapshot_is cr r (flow_uuid fr) w (run_flow fr)
        \<and> (\<forall>j. status_at cr r u w1 j = status_at cr r u w j)
        \<and> (\<forall>j. status_at cr r u w' j = status_at cr r u (snd (tick q cr r fr w1)) j))"
proof (cases "parse_target cr (res_root r) target")
  case (Inl e)
  then have "w' = w0" by (simp add: w' cmd_tick_def Let_def act_bind_def act_lift_def)
  then show ?thesis using same by (intro disjI1 allI impI status_at_same) simp
next
  case v: (Inr v)
  then have pl: "plain_uuid v" "\<And>fl. snapshot_is cr r v w fl \<Longrightarrow> list_all plain_id (bt_keys (jobs fl))"
    using sp c by (auto simp: spares_def snapshot_is_def)
  have snap: "snapshot_is cr r v w0 = snapshot_is cr r v w"
    by (simp add: snapshot_is_def same fun_eq_iff)
  show ?thesis
    using cmd_tick_nodes[OF v, of host w0, folded w']
  proof (elim disjE exE conjE)
    assume "\<forall>p. node_at p w' = node_at p w0"
    then show ?thesis using same by (intro disjI1 allI impI status_at_same) simp
  next
    fix fr and w1 :: "'x world_scheme"
    let ?q = "slurm_querier (slurm_batch host)"
    assume fr: "flow_uuid fr = v" "snapshot_is cr r v w0 (run_flow fr)"
      and n: "\<forall>p. node_at p w1 = node_at p w0" "\<forall>p. node_at p w' = node_at p (snd (tick ?q cr r fr w1))"
    have s: "status_at cr r u w1 j = status_at cr r u w j"
      "status_at cr r u w' j = status_at cr r u (snd (tick ?q cr r fr w1)) j" for j
      by (rule status_at_same, simp only: n same)+
    show ?thesis
      using fr pl by (intro disjI2 exI[of _ ?q] exI[of _ fr] exI[of _ w1]) (simp add: snap s)
  qed
qed

lemma jm_step_statuses:
  \<comment> \<open>an event leaves the statuses alone, or changes them as a tick of some flow does\<close>
  fixes w :: "'x world_scheme"
  assumes "jm_step cr r u w w'" and h: "plain_uuid u"
  shows "(\<forall>j. plain_id j \<longrightarrow> status_at cr r u w' j = status_at cr r u w j)
    \<or> (\<exists>q fr (w1 :: 'x world_scheme). plain_uuid (flow_uuid fr) \<and> list_all plain_id (bt_keys (jobs (run_flow fr)))
        \<and> snapshot_is cr r (flow_uuid fr) w (run_flow fr)
        \<and> (\<forall>j. status_at cr r u w1 j = status_at cr r u w j)
        \<and> (\<forall>j. status_at cr r u w' j = status_at cr r u (snd (tick q cr r fr w1)) j))"
  using assms(1)
proof cases
  case elsewhere
  then show ?thesis by (intro disjI1 allI impI status_at_same) simp
next
  case (invoked host cli)
  obtain x w0 where root: "resolve_root host cli w = (x, w0)" by fastforce
  have same: "node_at p w0 = node_at p w" for p by (rule same_nodes[OF obeys_resolve_root root])
  show ?thesis
  proof (cases x)
    case (Inl e)
    then have "w' = w0" using invoked(1) root by (simp add: jm_main_def act_bind_def)
    then show ?thesis using same by (intro disjI1 allI impI status_at_same) simp
  next
    case (Inr rt)
    then have "rt = res_root r" using invoked(2) root by simp
    then have run: "w' = snd (dispatch host cr (res_root r) (cli_cmd cli) w0)"
      using invoked(1) root Inr unfolding jm_main_dispatch by (simp add: act_bind_def)
    show ?thesis
    proof (cases "\<exists>target. cli_cmd cli = CmdTick target")
      case True
      then obtain target where t: "cli_cmd cli = CmdTick target" by blast
      then have "w' = snd (cmd_tick host cr (res_root r) target w0)" by (simp add: run dispatch_def)
      from cmd_tick_statuses[OF invoked(3) t same this] show ?thesis by blast
    next
      case False
      have "node_at (status_file r u j) w' = node_at (status_file r u j) w" if "plain_id j" for j
      proof -
        have "obeys (files_only (- {status_file r u j})) (dispatch host cr (res_root r) (cli_cmd cli))"
          by (rule dispatch_keeps[OF h that invoked(3)]) (use False in blast)
        from node_kept(1)[OF this, of "status_file r u j" w0] show ?thesis by (simp add: run same)
      qed
      then show ?thesis by (intro disjI1 allI impI status_at_same) simp
    qed
  qed
qed

lemma jm_step_grows:
  fixes w :: "'x world_scheme"
  assumes "jm_step cr r u w w'" and h: "restores cr" "plain_uuid u" "plain_id j"
  shows "grows (status_at cr r u w j) (status_at cr r u w' j)"
  using jm_step_statuses[OF assms(1) h(2)]
proof (elim disjE exE conjE)
  assume "\<forall>j. plain_id j \<longrightarrow> status_at cr r u w' j = status_at cr r u w j"
  then show ?thesis using h(3) by simp
next
  fix q fr and w1 :: "'x world_scheme"
  assume fr: "plain_uuid (flow_uuid fr)" "list_all plain_id (bt_keys (jobs (run_flow fr)))"
    and s: "\<forall>j. status_at cr r u w1 j = status_at cr r u w j"
      "\<forall>j. status_at cr r u w' j = status_at cr r u (snd (tick q cr r fr w1)) j"
  show ?thesis using grows_tick[OF h fr, of r w1 q] unfolding s[rule_format] .
qed

text \<open>
  C2. The whole program, over time. From any state, through any sequence of invocations of \<open>jm\<close> on
  the data root, with any commands, arguments, SLURM answers and faults, other than a real
  submission of this flow or a creation under its UUID, and with anything else happening to files
  that are not its status files: a job without a status never gets one, a status moves only along
  the lifecycle machine and keeps its jobid and its note, and a terminal status never changes again.
\<close>

theorem status_history:
  assumes "plain_name (uuid_str u)" and "plain_name (jid j)"
    and "\<forall>run t. toml_ser_run cr run = Ok t \<longrightarrow> toml_de_run cr t = Ok run"
    and "rtranclp (jm_step cr r u) w w'"
  shows "case status_at cr r u w j of
      None \<Rightarrow> status_at cr r u w' j = None
    | Some run \<Rightarrow> \<exists>run'. status_at cr r u w' j = Some run'
        \<and> rtranclp life_step (lifecycle run) (lifecycle run')
        \<and> slurm_jobid run' = slurm_jobid run \<and> run_note run' = run_note run
        \<and> (is_terminal (lifecycle run) \<longrightarrow> run' = run)"
proof -
  have h: "restores cr" "plain_uuid u" "plain_id j"
    using assms(1-3) by (simp_all add: restores_def plain_uuid_def plain_id_def)
  from assms(4) have "grows (status_at cr r u w j) (status_at cr r u w' j)"
    by (induction rule: rtranclp_induct) (use jm_step_grows[OF _ h] grows_trans in \<open>simp, blast\<close>)
  then show ?thesis by (simp add: grows_def)
qed

subsection \<open>The first tick after a submission\<close>

text \<open>
  After a submission every job is queued, so the lifecycles after the next tick are a function of
  the answers of SLURM and of the dependency graph: \<open>settled\<close> gives one equation per job, and
  induction along the topological order solves them.
\<close>

definition depends :: "FlowRun \<Rightarrow> JobId \<Rightarrow> JobId \<Rightarrow> bool" where
  "depends fr p j \<longleftrightarrow> p \<in> edge_from ` set (parents_of fr j)"

definition slurm_says :: "(u64 \<rightharpoonup> JobStatus) \<Rightarrow> u64 option \<Rightarrow> Lifecycle" where
  \<comment> \<open>where SLURM's answer puts a queued job that no parent stops\<close>
  "slurm_says statuses i =
     (case Option.bind i statuses of None \<Rightarrow> Queued | Some st \<Rightarrow> next_lifecycle Queued (js_state st))"

lemma slurm_says_not_skipped [simp]: "slurm_says statuses i \<noteq> Skipped"
  by (simp add: slurm_says_def next_lifecycle_not_skipped split: option.split)

lemma submitted_queued:
  assumes "restores cr" "plain_uuid (flow_uuid fr)" and "submit ex cr r fr False w = (Ok submitted, w1)"
    and "j \<in> set (bt_keys (jobs (run_flow fr)))"
  obtains i n where "bt_get submitted j = Some i" "status_at cr r (flow_uuid fr) w1 j = Some (queued_at n i)"
proof -
  obtain i n s where "bt_get submitted j = Some i" and t: "toml_ser_run cr (queued_at (w_clock w1 n) i) = Ok s"
    "node_at (status_file r (flow_uuid fr) j) w1 = Some (File s)"
    using submit_recorded[OF assms(2-4)] by (auto simp: recorded_def)
  then show thesis using that status_at_written[OF assms(1) t] by blast
qed

lemma lives_of_dead:
  "(\<exists>x\<in>set (lives_of cr r fr w j). dead (snd x)) \<longleftrightarrow>
    (\<exists>p l. depends fr p j \<and> life_at cr r (flow_uuid fr) w p = Some l \<and> dead l)"
proof -
  have "(\<exists>x\<in>set (lives_of cr r fr w j). dead (snd x)) \<longleftrightarrow>
      (\<exists>e\<in>set (parents_of fr j). \<exists>l. life_at cr r (flow_uuid fr) w (edge_from e) = Some l \<and> dead l)"
    by (force simp: lives_of_def in_set_map_filter)
  then show ?thesis unfolding depends_def by blast
qed

lemma decide_queued:
  "apply_decision Queued (decide_transition Queued q ps) =
    (if \<exists>x\<in>set ps. dead (snd x) then Skipped
     else case q of None \<Rightarrow> Queued | Some st \<Rightarrow> next_lifecycle Queued (js_state st))"
  by (simp add: decide_apply)

lemma first_tick_step:
  assumes h: "restores cr" "plain_uuid (flow_uuid fr)" and "submit ex cr r fr False w = (Ok submitted, w1)"
    and j: "j \<in> set (bt_keys (jobs (run_flow fr)))" and s: "settled cr r fr statuses w1 w2 res j"
  shows "life_at cr r (flow_uuid fr) w2 j = Some
    (if \<exists>p l. depends fr p j \<and> life_at cr r (flow_uuid fr) w2 p = Some l \<and> dead l then Skipped
     else slurm_says statuses (bt_get submitted j))"
proof -
  obtain i n where i: "bt_get submitted j = Some i" "status_at cr r (flow_uuid fr) w1 j = Some (queued_at n i)"
    using submitted_queued[OF assms(1-4)] by blast
  then have life: "life_at cr r (flow_uuid fr) w2 j
      = Some (apply_decision Queued (decide_transition Queued (statuses i) (lives_of cr r fr w2 j)))"
    using s by (simp add: settled_def queued_at_def Let_def)
  show ?thesis unfolding life decide_queued lives_of_dead slurm_says_def i(1) Option.bind.bind_lunit ..
qed

lemma ancestor_iff:
  "(\<exists>a. tranclp (depends fr) a j \<and> P a) \<longleftrightarrow> (\<exists>p. depends fr p j \<and> (P p \<or> (\<exists>a. tranclp (depends fr) a p \<and> P a)))"
  by (metis tranclp.simps)

definition settles_to :: "FlowRun \<Rightarrow> (u64 \<rightharpoonup> JobStatus) \<Rightarrow> (JobId, u64) btree \<Rightarrow> JobId \<Rightarrow> Lifecycle" where
  "settles_to fr statuses submitted j =
     (if \<exists>a. tranclp (depends fr) a j \<and> slurm_says statuses (bt_get submitted a) = Failed then Skipped
      else slurm_says statuses (bt_get submitted j))"

lemma dead_settles_to:
  "dead (settles_to fr statuses submitted p) \<longleftrightarrow> slurm_says statuses (bt_get submitted p) = Failed
    \<or> (\<exists>a. tranclp (depends fr) a p \<and> slurm_says statuses (bt_get submitted a) = Failed)"
  by (auto simp: settles_to_def dead_def)

lemma settles_to_step:
  "settles_to fr statuses submitted j =
    (if \<exists>p. depends fr p j \<and> dead (settles_to fr statuses submitted p) then Skipped
     else slurm_says statuses (bt_get submitted j))"
  unfolding dead_settles_to ancestor_iff[symmetric] by (simp only: settles_to_def)

lemma first_tick_lives:
  assumes h: "restores cr" "plain_uuid (flow_uuid fr)" and sub: "submit ex cr r fr False w = (Ok submitted, w1)"
    and o: "run_order fr = Ok order"
    and s: "\<forall>j\<in>set (bt_keys (jobs (run_flow fr))). settled cr r fr statuses w1 w2 res j"
    and j: "j \<in> set (bt_keys (jobs (run_flow fr)))"
  shows "life_at cr r (flow_uuid fr) w2 j = Some (settles_to fr statuses submitted j)"
proof -
  let ?life = "settles_to fr statuses submitted"
  from o j show ?thesis
  proof (induction rule: run_order_induct)
    case (job b)
    then have "(\<exists>p l. depends fr p b \<and> life_at cr r (flow_uuid fr) w2 p = Some l \<and> dead l)
        \<longleftrightarrow> (\<exists>p. depends fr p b \<and> dead (?life p))"
      by (auto simp: depends_def)
    then show ?case
      using first_tick_step[OF h sub job(1) s[rule_format, OF job(1)]] settles_to_step[of fr statuses submitted b]
      by (simp only:)
  qed
qed

text \<open>
  C4. Submission and tick together. After a successful submission and a successful tick, with no
  failing system call, SLURM was asked exactly for the jobids that the submission returned, and the
  lifecycles are a function of the answers alone: a job is skipped exactly when some job it
  depends on, directly or not, is reported as failed, and stands where its own report puts it
  otherwise.
\<close>

theorem first_tick:
  assumes "plain_name (uuid_str (flow_uuid fr))"
    and "\<forall>run t. toml_ser_run cr run = Ok t \<longrightarrow> toml_de_run cr t = Ok run"
    and "\<forall>n. w_fault w n = None"
    and "submit ex cr r fr False w = (Ok submitted, w1)" and "tick q cr r fr w1 = (Ok res, w2)"
  shows "\<exists>ids statuses.
    (\<forall>i. i \<in> set ids \<longleftrightarrow> (\<exists>j\<in>set (bt_keys (jobs (run_flow fr))). bt_get submitted j = Some i))
    \<and> (if ids = [] then statuses = Map.empty else q ids = Ok statuses)
    \<and> (\<forall>j\<in>set (bt_keys (jobs (run_flow fr))). life_at cr r (flow_uuid fr) w2 j = Some
        (if \<exists>a. tranclp (depends fr) a j \<and> slurm_says statuses (bt_get submitted a) = Failed then Skipped
         else slurm_says statuses (bt_get submitted j)))"
proof -
  let ?K = "set (bt_keys (jobs (run_flow fr)))"
  have h: "restores cr" "plain_uuid (flow_uuid fr)" using assms(1,2) by (simp_all add: restores_def plain_uuid_def)
  have pl: "\<And>k. k \<in> ?K \<Longrightarrow> plain_id k" using submit_recorded[OF h(2) assms(4)] by blast
  have nf: "no_faults w1"
    using obeysD[OF obeys_submit[OF h(2)] assms(4)] assms(3)
    by (simp add: files_only_def same_host_def no_faults_def)
  obtain order where o: "run_order fr = Ok order" using tick_parts[OF assms(5)] by auto
  obtain ids statuses where i: "\<forall>i. i \<in> set ids \<longleftrightarrow> asked cr r fr w1 i"
    and q: "if ids = [] then statuses = Map.empty else q ids = Ok statuses"
    and s: "\<forall>j\<in>?K. settled cr r fr statuses w1 w2 res j"
    using tick_settled[OF h pl nf assms(5)] by blast
  have "asked cr r fr w1 i \<longleftrightarrow> (\<exists>j\<in>?K. bt_get submitted j = Some i)" for i
  proof -
    have "(\<exists>run. status_at cr r (flow_uuid fr) w1 j = Some run \<and> \<not> is_terminal (lifecycle run) \<and> slurm_jobid run = Some i)
        \<longleftrightarrow> bt_get submitted j = Some i" if "j \<in> ?K" for j
      by (rule submitted_queued[OF h assms(4) that]) (simp add: queued_at_def)
    then show ?thesis unfolding asked_def by blast
  qed
  then show ?thesis
    using i q first_tick_lives[OF h assms(4) o s, unfolded settles_to_def] by (intro exI[of _ ids] exI[of _ statuses]) simp
qed

subsection \<open>A submission and a tick succeed together\<close>

lemma shaped_submit:
  assumes u: "plain_uuid (flow_uuid fr)" and d: "\<And>j. j \<in> set (bt_keys (jobs (run_flow fr))) \<Longrightarrow> dotless j"
  shows "obeys (submit_shape r (flow_uuid fr)) (submit ex cr r fr dry_run)"
  unfolding submit_def
proof (rule shape.obeys_bind_res[OF shape.obeys_lift])
  fix w order w1
  assume "act_lift (run_order fr) w = (Ok order, w1)"
  then have "run_order fr = Ok order" by (simp add: io_simps)
  then have order: "set order = set (bt_keys (jobs (run_flow fr)))" by (rule run_order_sound(2))
  have loop: "obeys (submit_shape r (flow_uuid fr)) (act_foldM (submit_one ex cr r fr dry_run) st order)" for st
    by (intro shape.obeys_foldM shaped_submit_one[OF u d]) (simp add: order)
  have "insert (flow_effective_toml r (flow_uuid fr)) (temporaries (flow_effective_toml r (flow_uuid fr)))
      \<subseteq> submit_files r (flow_uuid fr)"
    by (auto simp: submit_files_def)
  then have snap: "obeys (submit_shape r (flow_uuid fr)) (write_snapshot cr r fr)"
    unfolding write_snapshot_def write_flow_effective_def Let_def
    by (intro shape.obeys_bind obeys_shaped_ensure shaped_write_toml submit_dirs_above(1)[OF u])
  show "obeys (submit_shape r (flow_uuid fr)) (act_bind (write_snapshot cr r fr) (\<lambda>_.
      act_bind (preseed cr r fr) (\<lambda>submitted.
      act_bind (if dry_run then ret bt_empty else preflight r fr order) (\<lambda>effective.
      act_bind (act_foldM (submit_one ex cr r fr dry_run) (submitted, effective) order) (\<lambda>st.
      ret (fst st))))))"
    by (intro shape.obeys_bind shape.obeys_if shape.obeys_ret snap loop
        shaped_of_reader[OF obeys_preseed] shaped_of_reader[OF obeys_preflight])
qed

lemma submit_then_tick:
  assumes "restores cr" and u: "plain_uuid (flow_uuid fr)" and o: "run_order fr = Ok order"
    and nf: "no_faults w" and t: "tidy r (flow_uuid fr) w"
    and js: "\<And>j. j \<in> set order \<Longrightarrow> is_ok (parse_job_id cr (jid j)) \<and> is_ok (params_of fr j)
      \<and> (\<exists>cfg. effective_config fr j = Ok cfg \<and> log_dirs_exist r cfg w)"
    and flow: "toml_ser_flow cr (run_flow fr) = Ok s"
    and ser: "\<And>run. \<exists>s. toml_ser_run cr run = Ok s"
    and dep: "\<And>j ids. j \<in> set order \<Longrightarrow> is_ok (dependency_build cr (parents_of fr j) ids j)"
    and ex: "\<And>cmd x. \<exists>i x'. ex cmd x = (Ok i, x')"
    and size: "\<And>n i s. toml_ser_run cr (queued_at (w_clock w n) i) = Ok s \<Longrightarrow>
      length s \<le> unat (max_toml_size w) \<and> utf8 s"
    and q: "\<And>ids. \<exists>m. q ids = Ok m"
  shows "\<exists>submitted w1 res w2. submit ex cr r fr False w = (Ok submitted, w1) \<and> tick q cr r fr w1 = (Ok res, w2)"
proof -
  obtain submitted w1 where sub: "submit ex cr r fr False w = (Ok submitted, w1)"
    using submit_live[where ex = ex, OF u o nf t js flow ser dep ex] by blast
  have K: "set order = set (bt_keys (jobs (run_flow fr)))" by (rule run_order_sound(2)[OF o])
  have d: "dotless j" if "j \<in> set order" for j
    using js[OF that] parsed_dotless by (cases "parse_job_id cr (jid j)") auto
  have "dotless j" if "j \<in> set (bt_keys (jobs (run_flow fr)))" for j using d that K by simp
  from obeysD[OF shaped_submit[OF u this] sub] have sh: "submit_shape r (flow_uuid fr) w w1" .
  then have host: "same_host w w1" by (simp add: shaped_def)
  have t1: "tidy r (flow_uuid fr) w1" by (rule tidy_shaped[OF u t sh])
  have ready: "plain_id j \<and> readable_status cr (status_file r (flow_uuid fr) j) w1
      \<and> writable (status_file r (flow_uuid fr) j) w1" if j: "j \<in> set order" for j
  proof -
    have clock: "w_clock w1 = w_clock w" using host by (simp add: same_host_def)
    obtain i n text' where rec: "toml_ser_run cr (queued_at (w_clock w n) i) = Ok text'"
      "node_at (status_file r (flow_uuid fr) j) w1 = Some (File text')"
      using submit_recorded[OF u sub, of j] j K by (auto simp: recorded_def clock)
    have "toml_de_run cr text' = Ok (queued_at (w_clock w n) i)" using assms(1) rec(1) by (simp add: restores_def)
    then have "readable_status cr (status_file r (flow_uuid fr) j) w1"
      using size[OF rec(1)] rec(2) by (simp add: readable_status_def max_toml_size_host[OF host])
    then show ?thesis using tidy_writables(2)[OF u t1 d[OF j]] d[OF j] by (simp add: dotless_def)
  qed
  have "\<exists>res w2. tick q cr r fr w1 = (Ok res, w2)"
    by (rule tick_live[OF u o no_faults_same_host[OF host nf] ready ser q])
  then show ?thesis using sub by blast
qed

subsection \<open>The life of the concrete flow\<close>

definition still_world :: "(unit \<times> SbatchCmd list) world_scheme" where
  \<comment> \<open>the empty world with a clock that stands still\<close>
  "still_world = log_world\<lparr>w_clock := \<lambda>_. 0\<rparr>"

lemma still_world_same [simp]:
  "node_at p still_world = node_at p log_world" "w_fault still_world = w_fault log_world"
  "max_toml_size still_world = max_toml_size log_world" "tidy r u still_world = tidy r u log_world"
  "log_dirs_exist r cfg still_world = log_dirs_exist r cfg log_world"
  by (simp_all add: still_world_def node_at_def max_toml_size_def tidy_def log_dirs_exist_def)

lemma still_clock: "w_clock still_world n = 0"
  by (simp add: still_world_def)

lemma show_nat_length: "n < 10 ^ Suc k \<Longrightarrow> length (show_nat n) \<le> Suc k"
proof (induction k arbitrary: n)
  case 0
  then show ?case by (subst show_nat.simps) simp
next
  case (Suc k)
  have "n div 10 < 10 ^ Suc k" using Suc.prems by (simp add: less_mult_imp_div_less)
  then show ?case using Suc.IH[of "n div 10"] by (subst show_nat.simps) simp
qed

lemma mark_length: "length (mark f) = 2 * length f + 1"
  by (induction f) (simp_all add: mark_def)

lemma queued_text_bound:
  assumes "encode_run (queued_at 0 i) = Ok s"
  shows "length s \<le> 100"
proof -
  have "unat i < 2 ^ 64" using unsigned_less[of i] by simp
  also have "\<dots> < (10::nat) ^ Suc 19" by simp
  finally have "length (show_nat (unat i)) \<le> 20" using show_nat_length[of "unat i" 19] by simp
  moreover have "length (show_nat 0) = 1" by (subst show_nat.simps) simp
  ultimately show ?thesis
    using assms by (auto simp: encode_run_def queued_at_def mark_length show_time_def show_lifecycle_def)
qed

lemma sample_life_starts:
  assumes "\<And>ids. \<exists>m. q ids = Ok m"
  obtains submitted w1 res w2 where
    "submit (logged (dry_run_executor sample_crates)) sample_crates sample_root sample_run False still_world = (Ok submitted, w1)"
    "tick q sample_crates sample_root sample_run w1 = (Ok res, w2)"
proof -
  have flow: "toml_ser_flow sample_crates (run_flow sample_run) = Ok ''FLOW''" by (simp add: sample_crates_def)
  have dep: "is_ok (dependency_build sample_crates ps ids j)" for ps ids j
    by (rule dependency_build_parsed) (simp add: sample_crates_def)
  have ex: "\<exists>i x'. logged (dry_run_executor sample_crates) cmd x = (Ok i, x')" for cmd and x :: "unit \<times> SbatchCmd list"
    by (cases x) (simp add: logged_def dry_run_executor_def)
  have nf: "no_faults still_world" using log_world_quiet(1) by (simp add: no_faults_def)
  have tidy: "tidy sample_root (flow_uuid sample_run) still_world" using log_world_tidy[OF sample_plain(1)] by simp
  have js: "is_ok (parse_job_id sample_crates (jid j)) \<and> is_ok (params_of sample_run j)
      \<and> (\<exists>cfg. effective_config sample_run j = Ok cfg \<and> log_dirs_exist sample_root cfg still_world)"
    if "j \<in> set [JobId ''a'', JobId ''b'']" for j using sample_jobs_ready[OF that] by simp
  have "max_toml_size log_world = DEFAULT_MAX_TOML_SIZE"
    by (simp add: log_world_def quiet_world_def world.defs max_toml_size_def)
  then have "unat (max_toml_size still_world) = 10485760" by (simp add: DEFAULT_MAX_TOML_SIZE_def)
  then have size: "length s \<le> unat (max_toml_size still_world) \<and> utf8 s"
    if "toml_ser_run sample_crates (queued_at (w_clock still_world n) i) = Ok s" for n i s
    using that queued_text_bound[of i s] encode_run_utf8[of "queued_at 0 i" s]
    by (simp add: sample_crates_def still_clock queued_at_def)
  have "\<exists>submitted w1 res w2.
      submit (logged (dry_run_executor sample_crates)) sample_crates sample_root sample_run False still_world = (Ok submitted, w1)
      \<and> tick q sample_crates sample_root sample_run w1 = (Ok res, w2)"
    by (rule submit_then_tick[OF sample_restores sample_plain(1) sample_order nf tidy js flow
          sample_serialises dep ex size assms])
  then show thesis using that by blast
qed

lemma first_tick_witness:
  "\<exists>submitted w1 res w2.
    submit (logged (dry_run_executor sample_crates)) sample_crates sample_root sample_run False still_world = (Ok submitted, w1)
    \<and> tick (\<lambda>_. Ok (\<lambda>_. Some \<lparr>js_state = JsTimeout, js_reason = []\<rparr>)) sample_crates sample_root sample_run w1 = (Ok res, w2)
    \<and> life_at sample_crates sample_root sample_uuid w2 (JobId ''a'') = Some Failed
    \<and> life_at sample_crates sample_root sample_uuid w2 (JobId ''b'') = Some Skipped"
proof -
  let ?q = "\<lambda>_. Ok (\<lambda>_. Some \<lparr>js_state = JsTimeout, js_reason = []\<rparr>) :: JobManagerError + (u64 \<rightharpoonup> JobStatus)"
  obtain submitted w1 res w2 where
    s: "submit (logged (dry_run_executor sample_crates)) sample_crates sample_root sample_run False still_world = (Ok submitted, w1)"
    and t: "tick ?q sample_crates sample_root sample_run w1 = (Ok res, w2)"
    using sample_life_starts[of ?q] by blast
  have nf: "\<forall>n. w_fault still_world n = None" using log_world_quiet(1) by simp
  obtain ids statuses where ids: "\<forall>i. i \<in> set ids \<longleftrightarrow> (\<exists>j\<in>{JobId ''a'', JobId ''b''}. bt_get submitted j = Some i)"
    and st: "if ids = [] then statuses = Map.empty else ?q ids = Ok statuses"
    and life: "\<forall>j\<in>{JobId ''a'', JobId ''b''}. life_at sample_crates sample_root sample_uuid w2 j = Some
        (if \<exists>a. tranclp (depends sample_run) a j \<and> slurm_says statuses (bt_get submitted a) = Failed then Skipped
         else slurm_says statuses (bt_get submitted j))"
    using first_tick[OF sample_hyps(1,3) nf s t] by (auto simp: sample_keys)
  obtain i where i: "bt_get submitted (JobId ''a'') = Some i"
    using submit_recorded[OF sample_plain(1) s, of "JobId ''a''"] by (auto simp: sample_keys)
  then have "ids \<noteq> []" using ids by (metis empty_iff insert_iff list.set(1))
  then have a: "slurm_says statuses (bt_get submitted (JobId ''a'')) = Failed"
    using st i by (auto simp: slurm_says_def next_lifecycle_def)
  have none: "\<not> depends sample_run p (JobId ''a'')" for p by (simp add: depends_def) code_simp
  have "\<not> tranclp (depends sample_run) p (JobId ''a'')" for p using none by (metis tranclp.cases)
  moreover have "depends sample_run (JobId ''a'') (JobId ''b'')" unfolding depends_def by code_simp
  ultimately have "life_at sample_crates sample_root sample_uuid w2 (JobId ''a'') = Some Failed"
    "life_at sample_crates sample_root sample_uuid w2 (JobId ''b'') = Some Skipped"
    using life a by auto
  then show ?thesis using s t by blast
qed

definition live_world :: "Lifecycle \<Rightarrow> Lifecycle \<Rightarrow> world" where
  \<comment> \<open>the data root with the plan, the snapshot and two statuses of the flow\<close>
  "live_world la lb = quiet_world
    [([RootDir, Normal ''data''], Dir),
     (plan_toml sample_root sample_uuid, File ''PLAN''),
     (flow_effective_toml sample_root sample_uuid, File ''FLOW''),
     (status_file sample_root sample_uuid (JobId ''a''), File (run_text (run_with la 1))),
     (status_file sample_root sample_uuid (JobId ''b''), File (run_text (run_with lb 2)))]"

definition tick_call :: Cli where
  "tick_call = \<lparr>cli_root = Some ''/data'', cli_cmd = CmdTick (uuid_str sample_uuid)\<rparr>"

lemma live_nodes:
  "node_at (status_file sample_root sample_uuid (JobId ''a'')) (live_world la lb) = Some (File (run_text (run_with la 1)))"
  "node_at (status_file sample_root sample_uuid (JobId ''b'')) (live_world la lb) = Some (File (run_text (run_with lb 2)))"
  "node_at (plan_toml sample_root sample_uuid) (live_world la lb) = Some (File ''PLAN'')"
  "node_at (flow_effective_toml sample_root sample_uuid) (live_world la lb) = Some (File ''FLOW'')"
  using sample_plain
  by (simp_all add: live_world_def node_at_def quiet_world_def path_simps sample_root_def)

lemma live_tick_spared: "spares sample_crates sample_root sample_uuid h tick_call (live_world la lb)"
proof -
  have "parse_target sample_crates (res_root sample_root) (uuid_str sample_uuid) = Ok sample_uuid" by code_simp
  moreover have "list_all plain_id (bt_keys (jobs sample_flow))" by code_simp
  ultimately show ?thesis
    using sample_plain(1) by (auto simp: spares_def tick_call_def live_nodes sample_crates_def)
qed

lemma live_root:
  "\<forall>root. fst (resolve_root new_host tick_call (live_world la lb)) = Ok root \<longrightarrow> root = res_root sample_root"
proof -
  have "path_of ''/data'' = res_root sample_root" by code_simp
  then show ?thesis
    by (simp add: resolve_root_def tick_call_def new_host_def canonicalize_def syscall_def act_bind_def
        act_map_err_def map_err_def split: option.split)
qed

lemma status_history_witness:
  "\<exists>w'. rtranclp (jm_step sample_crates sample_root sample_uuid) (live_world Success Queued) w'
    \<and> w' = snd (jm_main new_host sample_crates tick_call (live_world Success Queued))
    \<and> life_at sample_crates sample_root sample_uuid w' (JobId ''a'') = Some Success"
proof -
  let ?w' = "snd (jm_main new_host sample_crates tick_call (live_world Success Queued))"
  have r: "rtranclp (jm_step sample_crates sample_root sample_uuid) (live_world Success Queued) ?w'"
    using jm_step.invoked[OF live_root live_tick_spared] by (rule r_into_rtranclp)
  have "status_at sample_crates sample_root sample_uuid (live_world Success Queued) (JobId ''a'') = Some (run_with Success 1)"
    using decode_encode_run[OF run_text_eq] by (simp add: status_at_def live_nodes sample_crates_def)
  then have "status_at sample_crates sample_root sample_uuid ?w' (JobId ''a'') = Some (run_with Success 1)"
    using status_history[OF _ _ sample_hyps(3) r, of "JobId ''a''"] sample_plain
    by (auto simp: plain_uuid_def plain_id_def run_with_def)
  then show ?thesis using r by (intro exI[of _ ?w']) (simp add: life_at_def run_with_def)
qed

end
