(* ===== verification/Outcomes.thy ===== *)
theory Outcomes
  imports History
begin

section \<open>How a flow ends\<close>

text \<open>
  A job is skipped for a reason: something it depends on has failed. \<open>tick\<close> decides a job from its
  parents' lifecycles in memory, which it keeps equal to the status files, and aborts at the first
  file that it fails to write, so the reason is on disk before the skip is. \<open>caused\<close> is that
  invariant of the status files. It holds after every round, every tick and every event of a
  history, whatever fails on the way. The other half is progress: once SLURM reports final states,
  one tick gives every job its final lifecycle.
\<close>

definition caused :: "crates \<Rightarrow> PathResolver \<Rightarrow> FlowRun \<Rightarrow> 'x world_scheme \<Rightarrow> bool" where
  "caused cr r fr w \<longleftrightarrow> (\<forall>j\<in>set (bt_keys (jobs (run_flow fr))).
     life_at cr r (flow_uuid fr) w j = Some Skipped \<longrightarrow>
     (\<exists>a\<in>set (bt_keys (jobs (run_flow fr))). tranclp (depends fr) a j
       \<and> life_at cr r (flow_uuid fr) w a = Some Failed))"

definition in_step :: "crates \<Rightarrow> PathResolver \<Rightarrow> FlowRun \<Rightarrow> (JobId, JobRun) btree \<Rightarrow> 'x world_scheme \<Rightarrow> bool" where
  \<comment> \<open>the runs in memory are those of jobs of the flow, as their files have them\<close>
  "in_step cr r fr cur w \<longleftrightarrow>
     (\<forall>k. if k \<in> set (bt_keys (jobs (run_flow fr))) then tracked cr r (flow_uuid fr) cur k w else bt_get cur k = None)"

lemma in_stepD:
  assumes "in_step cr r fr cur w" and "bt_get cur k = Some run"
  shows "k \<in> set (bt_keys (jobs (run_flow fr)))" and "status_at cr r (flow_uuid fr) w k = Some run"
  using assms unfolding in_step_def tracked_def by (metis option.distinct(1))+

lemma skip_reason:
  assumes "\<not> is_terminal (lifecycle run)"
    and "apply_decision (lifecycle run) (tick_decide fr statuses cur j run) = Skipped"
  obtains p prun where "depends fr p j" "bt_get cur p = Some prun" "dead (lifecycle prun)"
proof -
  have "tick_decide fr statuses cur j run \<noteq> Transition src Skipped st" for src st
    unfolding tick_decide_def decide_move_iff by (metis next_lifecycle_not_skipped)
  then obtain p where "tick_decide fr statuses cur j run = SkipDueToParent p"
    using assms by (cases "tick_decide fr statuses cur j run") (auto simp: apply_decision_def)
  then obtain l where "(p, l) \<in> set (parent_lifecycles cur (parents_of fr j))" "dead l"
    unfolding tick_decide_def decide_skip_iff by (metis in_set_conv_decomp)
  then show thesis using that by (force simp: parent_lifecycles_def in_set_map_filter depends_def)
qed

lemma tick_one_caused:
  assumes t: "tick_one cr r fr statuses (cur, decided) j w = (res, w')"
    and h: "restores cr" "plain_uuid (flow_uuid fr)"
    and pl: "\<And>k. k \<in> set (bt_keys (jobs (run_flow fr))) \<Longrightarrow> plain_id k"
    and j: "j \<in> set (bt_keys (jobs (run_flow fr)))" and m: "in_step cr r fr cur w" and c: "caused cr r fr w"
  shows "caused cr r fr w'"
  unfolding caused_def
proof (intro ballI impI)
  let ?K = "set (bt_keys (jobs (run_flow fr)))" and ?life = "life_at cr r (flow_uuid fr)"
  have tr: "tracked cr r (flow_uuid fr) cur j w" using m j by (auto simp: in_step_def dest: spec[of _ j])
  have other: "status_at cr r (flow_uuid fr) w' k = status_at cr r (flow_uuid fr) w k" if "k \<in> ?K" "k \<noteq> j" for k
    using tick_one_other[OF t h(2)] pl j that by blast
  have failed: "?life w' a = Some Failed" if "a \<in> ?K" "?life w a = Some Failed" for a
    using that other[of a] tick_one_any[OF t h pl[OF j] tr]
    by (cases "a = j") (auto simp: life_at_def moved_def dest: life_step_not_terminal)
  have reason: "\<exists>a\<in>?K. tranclp (depends fr) a i \<and> ?life w' a = Some Failed"
    if "i \<in> ?K" "?life w i = Some Skipped" for i
    using c that failed unfolding caused_def by blast
  fix i
  assume i: "i \<in> ?K" and s: "?life w' i = Some Skipped"
  show "\<exists>a\<in>?K. tranclp (depends fr) a i \<and> ?life w' a = Some Failed"
  proof (cases "?life w' i = ?life w i")
    case True
    then show ?thesis using reason[OF i] s by simp
  next
    case False
    then have ij: "i = j" using other[OF i] unfolding life_at_def by metis
    then obtain run where "\<not> is_terminal (lifecycle run)"
      "apply_decision (lifecycle run) (tick_decide fr statuses cur j run) = Skipped"
      using tick_one_writes[OF t h pl[OF j]] False s by (auto simp: life_at_def updated_run_def)
    then obtain p prun where p: "depends fr p j" "bt_get cur p = Some prun" and d: "dead (lifecycle prun)"
      by (rule skip_reason)
    note known = in_stepD[OF m p(2)]
    from d consider "?life w p = Some Failed" | "?life w p = Some Skipped"
      using known(2) by (auto simp: dead_def life_at_def)
    then show ?thesis
    proof cases
      case 1
      then show ?thesis using failed known(1) p(1) ij by blast
    next
      case 2
      then obtain a where "a \<in> ?K" "tranclp (depends fr) a p" "?life w' a = Some Failed"
        using reason known(1) by blast
      then show ?thesis using p(1) ij tranclp.trancl_into_trancl by fastforce
    qed
  qed
qed

lemma tick_one_in_step:
  assumes t: "tick_one cr r fr statuses (cur, decided) j w = (Ok (cur1, decided1), w')"
    and h: "restores cr" "plain_uuid (flow_uuid fr)"
    and pl: "\<And>k. k \<in> set (bt_keys (jobs (run_flow fr))) \<Longrightarrow> plain_id k"
    and j: "j \<in> set (bt_keys (jobs (run_flow fr)))" and m: "in_step cr r fr cur w"
    and fresh: "bt_get decided j = None"
  shows "in_step cr r fr cur1 w'"
  unfolding in_step_def
proof (intro allI)
  fix k
  let ?K = "set (bt_keys (jobs (run_flow fr)))"
  have tr: "tracked cr r (flow_uuid fr) cur i w" if "i \<in> ?K" for i
    using m that by (auto simp: in_step_def dest: spec[of _ i])
  note one = tick_one_Ok[OF t h pl[OF j] tr[OF j] fresh]
  show "if k \<in> ?K then tracked cr r (flow_uuid fr) cur1 k w' else bt_get cur1 k = None"
  proof (cases "k \<in> ?K")
    case True
    then show ?thesis
      using one(2) tracked_other[OF t h(2) pl[OF True] pl[OF j] _ tr[OF True]] by (cases "k = j") simp_all
  next
    case False
    then have "k \<noteq> j" using j by blast
    then show ?thesis using one(3) m False by (auto simp: in_step_def dest: spec[of _ k])
  qed
qed

lemma tick_loop_caused:
  assumes "act_foldM (tick_one cr r fr statuses) (cur, decided) xs w = (res, w')"
    and h: "restores cr" "plain_uuid (flow_uuid fr)"
    and pl: "\<And>k. k \<in> set (bt_keys (jobs (run_flow fr))) \<Longrightarrow> plain_id k"
    and "set xs \<subseteq> set (bt_keys (jobs (run_flow fr)))" and "distinct xs"
    and "\<And>k. k \<in> set xs \<Longrightarrow> bt_get decided k = None"
    and "in_step cr r fr cur w" and "caused cr r fr w"
  shows "caused cr r fr w'"
  using assms(1,5-9)
proof (induction xs arbitrary: cur decided w)
  case (Cons j xs)
  obtain y w1 where s: "tick_one cr r fr statuses (cur, decided) j w = (y, w1)" by fastforce
  have j: "j \<in> set (bt_keys (jobs (run_flow fr)))" using Cons.prems(2) by simp
  have c: "caused cr r fr w1" by (rule tick_one_caused[OF s h pl j Cons.prems(5,6)])
  show ?case
  proof (cases y)
    case (Inl e)
    then have "w' = w1" using Cons.prems(1) s by (auto simp: act_bind_def)
    then show ?thesis using c by simp
  next
    case (Inr st)
    obtain cur1 decided1 where st: "st = (cur1, decided1)" by fastforce
    have s1: "tick_one cr r fr statuses (cur, decided) j w = (Ok (cur1, decided1), w1)" using s Inr st by simp
    have l: "act_foldM (tick_one cr r fr statuses) (cur1, decided1) xs w1 = (res, w')"
      using Cons.prems(1) s1 by (simp add: act_bind_def)
    have fresh: "bt_get decided j = None" using Cons.prems(4) by simp
    have tr: "tracked cr r (flow_uuid fr) cur j w"
      using Cons.prems(5) j by (auto simp: in_step_def dest: spec[of _ j])
    have "bt_get decided1 k = None" if "k \<in> set xs" for k
    proof -
      have "k \<noteq> j" "bt_get decided k = None" using Cons.prems(3,4) that by auto
      then show ?thesis using tick_one_Ok(3)[OF s1 h pl[OF j] tr fresh] by metis
    qed
    then show ?thesis
      using Cons.IH[OF l] Cons.prems(2,3) tick_one_in_step[OF s1 h pl j Cons.prems(5) fresh] c by simp
  qed
qed simp

lemma caused_same:
  "(\<And>j. j \<in> set (bt_keys (jobs (run_flow fr))) \<Longrightarrow>
      status_at cr r (flow_uuid fr) w' j = status_at cr r (flow_uuid fr) w j) \<Longrightarrow>
    caused cr r fr w' = caused cr r fr w"
  by (simp add: caused_def life_at_def)

lemma tick_caused:
  assumes t: "tick q cr r fr w = (res, w')" and h: "restores cr" "plain_uuid (flow_uuid fr)"
    and pl: "\<And>k. k \<in> set (bt_keys (jobs (run_flow fr))) \<Longrightarrow> plain_id k" and c: "caused cr r fr w"
  shows "caused cr r fr w'"
  using tick_parts[OF t]
proof (elim disjE exE conjE)
  assume "\<forall>p. node_at p w' = node_at p w"
  then show ?thesis using c caused_same[OF status_at_same] by blast
next
  fix order cur w1 statuses st
  assume o: "run_order fr = Ok order" and g: "tick_collect cr r fr order w = (Ok cur, w1)"
    and l: "act_foldM (tick_one cr r fr statuses) (cur, bt_empty) order w1 = (st, w')"
  have K: "set order = set (bt_keys (jobs (run_flow fr)))" by (rule run_order_sound(2)[OF o])
  have same: "status_at cr r (flow_uuid fr) w1 j = status_at cr r (flow_uuid fr) w j" for j
    by (intro status_at_same same_nodes[OF obeys_collect g])
  have "bt_get cur k = None" if "k \<notin> set order" for k
    using collect_sound[OF g] that by (cases "bt_get cur k") auto
  then have "in_step cr r fr cur w1"
    using collect_tracks[OF g refl] K by (simp add: in_step_def)
  moreover have "caused cr r fr w1" using c caused_same[OF same] by simp
  ultimately show ?thesis
    using tick_loop_caused[OF l h pl _ run_order_sound(1)[OF o]] K by simp
qed

lemma parents_of_cong: "run_flow fr' = run_flow fr \<Longrightarrow> parents_of fr' = parents_of fr"
  by (rule ext) (simp add: parents_of_def)

lemma caused_cong:
  "run_flow fr' = run_flow fr \<Longrightarrow> flow_uuid fr' = flow_uuid fr \<Longrightarrow> caused cr r fr' w = caused cr r fr w"
  by (simp add: caused_def depends_def[abs_def] parents_of_cong[of fr' fr])

lemma jm_step_caused:
  fixes w :: "'x world_scheme"
  assumes s: "jm_step cr r (flow_uuid fr) w w'" and h: "restores cr" "plain_uuid (flow_uuid fr)"
    and pl: "\<And>k. k \<in> set (bt_keys (jobs (run_flow fr))) \<Longrightarrow> plain_id k"
    and snap: "\<And>fl. snapshot_is cr r (flow_uuid fr) w fl \<Longrightarrow> fl = run_flow fr" and c: "caused cr r fr w"
  shows "caused cr r fr w'"
  using jm_step_statuses[OF s h(2)]
proof (elim disjE exE conjE)
  assume "\<forall>j. plain_id j \<longrightarrow> status_at cr r (flow_uuid fr) w' j = status_at cr r (flow_uuid fr) w j"
  then show ?thesis using caused_same[of fr cr r w' w] pl c by blast
next
  fix q fr' and w1 :: "'x world_scheme"
  assume fr': "plain_uuid (flow_uuid fr')" "list_all plain_id (bt_keys (jobs (run_flow fr')))"
    "snapshot_is cr r (flow_uuid fr') w (run_flow fr')"
    and s: "\<forall>j. status_at cr r (flow_uuid fr) w1 j = status_at cr r (flow_uuid fr) w j"
      "\<forall>j. status_at cr r (flow_uuid fr) w' j = status_at cr r (flow_uuid fr) (snd (tick q cr r fr' w1)) j"
  have c1: "caused cr r fr w1" using c caused_same[of fr cr r w1 w] s(1) by blast
  have "caused cr r fr (snd (tick q cr r fr' w1))"
  proof (cases "flow_uuid fr' = flow_uuid fr")
    case True
    then have cong: "caused cr r fr' = (caused cr r fr :: 'x world_scheme \<Rightarrow> bool)"
      using caused_cong[of fr' fr] snap fr'(3) by (auto simp: fun_eq_iff)
    have "plain_id k" if "k \<in> set (bt_keys (jobs (run_flow fr')))" for k
      using fr'(2) that by (simp add: list_all_iff)
    from tick_caused[where q = q and r = r and w = w1, OF prod.collapse[symmetric] h(1) fr'(1) this] c1
    show ?thesis unfolding cong by blast
  next
    case False
    then show ?thesis
      using caused_same[OF tick_leaves[OF h(2) pl fr'(1,2)]] c1 by blast
  qed
  then show ?thesis using caused_same[of fr cr r w' "snd (tick q cr r fr' w1)"] s(2) by blast
qed

lemma submission_caused:
  \<comment> \<open>a complete submission leaves every job queued\<close>
  assumes h: "restores cr" "plain_uuid (flow_uuid fr)" and s: "submit ex cr r fr False w = (Ok submitted, w')"
  shows "caused cr r fr w'"
  unfolding caused_def
proof (intro ballI impI)
  fix j
  assume j: "j \<in> set (bt_keys (jobs (run_flow fr)))" and skipped: "life_at cr r (flow_uuid fr) w' j = Some Skipped"
  from submit_recorded[OF h(2) s j] obtain i n t where "toml_ser_run cr (queued_at (w_clock w' n) i) = Ok t"
    "node_at (status_file r (flow_uuid fr) j) w' = Some (File t)"
    by (auto simp: recorded_def)
  then have "life_at cr r (flow_uuid fr) w' j = Some Queued"
    using h(1) by (simp add: life_at_def status_at_def restores_def queued_at_def)
  then show "\<exists>a\<in>set (bt_keys (jobs (run_flow fr))). tranclp (depends fr) a j
      \<and> life_at cr r (flow_uuid fr) w' a = Some Failed"
    using skipped by simp
qed

text \<open>
  C5. Every skip has a cause. Take a flow none of whose jobs is skipped, and let it live through any
  events, as long as the snapshot, whenever it can be read, is the one of this flow: invocations
  of \<open>jm\<close> other than a real submission of this flow, with any SLURM answers, results and faults, and
  real submissions of the flow that succeed, with any executor. Then at every moment each
  skipped job depends, directly or not, on a job of the flow that has failed. A submission that
  stops half way is left out because it breaks this: it has reset the jobs of a prefix of the order
  to queued, the failed one perhaps among them, and kept the skipped ones after it.
\<close>

theorem skipped_has_cause:
  assumes "plain_name (uuid_str (flow_uuid fr))"
    and "\<forall>k\<in>set (bt_keys (jobs (run_flow fr))). plain_name (jid k)"
    and "\<forall>run t. toml_ser_run cr run = Ok t \<longrightarrow> toml_de_run cr t = Ok run"
    and "\<forall>j\<in>set (bt_keys (jobs (run_flow fr))). life_at cr r (flow_uuid fr) w j \<noteq> Some Skipped"
    and "rtranclp (\<lambda>v v'. (jm_step cr r (flow_uuid fr) v v'
          \<or> (\<exists>ex fr' submitted. run_flow fr' = run_flow fr \<and> flow_uuid fr' = flow_uuid fr
              \<and> submit ex cr r fr' False v = (Ok submitted, v')))
      \<and> (\<forall>fl. snapshot_is cr r (flow_uuid fr) v fl \<longrightarrow> fl = run_flow fr)) w w'"
    and "j \<in> set (bt_keys (jobs (run_flow fr)))" and "life_at cr r (flow_uuid fr) w' j = Some Skipped"
  shows "\<exists>a\<in>set (bt_keys (jobs (run_flow fr))). tranclp (depends fr) a j
    \<and> life_at cr r (flow_uuid fr) w' a = Some Failed"
proof -
  have h: "restores cr" "plain_uuid (flow_uuid fr)"
    and pl: "\<And>k. k \<in> set (bt_keys (jobs (run_flow fr))) \<Longrightarrow> plain_id k"
    using assms(1-3) by (simp_all add: restores_def plain_uuid_def plain_id_def)
  have sub: "caused cr r fr v'" if "run_flow fr' = run_flow fr" "flow_uuid fr' = flow_uuid fr"
      "submit ex cr r fr' False v = (Ok submitted, v')" for ex fr' submitted and v v' :: "'a world_scheme"
    using submission_caused[OF h(1) _ that(3)] h(2) that(2) unfolding caused_cong[OF that(1,2)] by simp
  have "caused cr r fr w" using assms(4) by (simp add: caused_def)
  with assms(5) have "caused cr r fr w'"
    by (induction rule: rtranclp_induct) (use jm_step_caused[OF _ h pl] sub in blast)+
  then show ?thesis using assms(6,7) by (simp add: caused_def)
qed

subsection \<open>A concrete tick\<close>

lemma jm_tick_run:
  \<comment> \<open>what an invocation of \<open>jm tick\<close> leaves when it gets as far as the tick\<close>
  fixes w :: "'x world_scheme"
  assumes root: "resolve_root host cli w = (Ok (res_root r), w0)" and nf: "no_faults w0"
    and c: "cli_cmd cli = CmdTick target" "parse_target cr (res_root r) target = Ok v"
    and l: "val (load_effective cr r v) w0 = Ok fr"
    and t: "\<And>k. \<exists>res w'. tick (slurm_querier (slurm_batch host)) cr r fr (advance k w0) = (Ok res, w')"
  obtains k res w' where "tick (slurm_querier (slurm_batch host)) cr r fr (advance k w0) = (Ok res, w')"
    "\<And>p. node_at p (snd (jm_main host cr cli w)) = node_at p w'"
proof -
  have r: "\<lparr>res_root = res_root r\<rparr> = r" by (cases r) simp
  obtain k where k: "load_effective cr r v w0 = (Ok fr, advance k w0)"
    using steady_run[OF flow_readers_steady(2) nf, of cr r v] unfolding l by blast
  obtain res w' where t': "tick (slurm_querier (slurm_batch host)) cr r fr (advance k w0) = (Ok res, w')"
    using t by blast
  have "node_at p (snd (jm_main host cr cli w)) = node_at p w'" for p
    unfolding jm_main_dispatch using root c k t'
    by (simp add: act_bind_def dispatch_def cmd_tick_def r Let_def act_lift_def act_map_err_def println_nodes)
  then show thesis using that t' by blast
qed

lemma live_world_other:
  "node_at q (live_world la lb) = Some n \<Longrightarrow> q = [] \<or> q = [RootDir] \<or> q = [RootDir, Normal ''data''] \<or>
    n \<noteq> Dir \<and> q \<in> {plan_toml sample_root sample_uuid, flow_effective_toml sample_root sample_uuid,
      status_file sample_root sample_uuid (JobId ''a''), status_file sample_root sample_uuid (JobId ''b'')}"
  by (auto simp: node_at_def live_world_def quiet_world_def split: if_splits)

lemma live_world_size: "unat (max_toml_size (live_world la lb)) = 10485760"
  by (simp add: live_world_def quiet_world_def max_toml_size_def DEFAULT_MAX_TOML_SIZE_def)

lemma live_world_ready:
  assumes "j = JobId ''a'' \<or> j = JobId ''b''"
  shows "plain_id j \<and> readable_status sample_crates (status_file sample_root sample_uuid j) (live_world la lb)
    \<and> writable (status_file sample_root sample_uuid j) (live_world la lb)"
proof -
  let ?p = "status_file sample_root sample_uuid j"
  have u: "plain_uuid sample_uuid" using sample_plain(1) by simp
  have j: "plain_id j" using assms sample_plain by auto
  have "readable_status sample_crates ?p (live_world la lb)"
    using assms run_text_length[of la] run_text_length[of lb] decode_encode_run[OF run_text_eq]
    by (auto simp: readable_status_def live_nodes live_world_size sample_crates_def)
  moreover have "writable ?p (live_world la lb)"
    unfolding writable_def
  proof (intro conjI ballI allI)
    show "file_name ?p \<noteq> None" using job_paths[OF u j, of sample_root] by simp
    have "{plan_toml sample_root sample_uuid, flow_effective_toml sample_root sample_uuid,
        status_file sample_root sample_uuid (JobId ''a''), status_file sample_root sample_uuid (JobId ''b'')}
        \<inter> dirs_above ?p = {}"
      using assms by (auto simp: path_simps u sample_plain dirs_above_def path_starts_with_def)
    then show "node_at q (live_world la lb) \<noteq> Some (File s)" if "q \<in> dirs_above ?p" for q s
      using that live_world_other[of q la lb "File s"] by (auto simp: node_at_def live_world_def quiet_world_def)
    show "node_at q (live_world la lb) \<noteq> Some Dir" if "q \<in> insert ?p (temporaries ?p)" for q
    proof -
      have "q \<in> status_level sample_root sample_uuid" using that status_levels(2)[OF u j, of sample_root] by blast
      then have "length q > 2" by (simp add: status_level_def)
      then show ?thesis using live_world_other[of q la lb Dir] by auto
    qed
  qed
  ultimately show ?thesis using j by blast
qed

lemma live_tick:
  obtains k res w' where
    "tick (slurm_querier (slurm_batch new_host)) sample_crates sample_root sample_run (advance k (live_world la lb)) = (Ok res, w')"
    "\<And>p. node_at p (snd (jm_main new_host sample_crates tick_call (live_world la lb))) = node_at p w'"
proof -
  let ?w = "live_world la lb"
  have nf: "no_faults ?w" by (simp add: live_world_def quiet_world_def no_faults_def)
  have "path_of ''/data'' = [RootDir, Normal ''data'']" by code_simp
  moreover have "node_at [RootDir, Normal ''data''] ?w = Some Dir"
    by (simp add: live_world_def quiet_world_def node_at_def)
  ultimately have root: "resolve_root new_host tick_call ?w = (Ok (res_root sample_root), advance 1 ?w)"
    using nf by (simp add: resolve_root_def tick_call_def new_host_def canonicalize_def syscall_run act_bind_def
        act_map_err_def map_err_def sample_root_def)
  have target: "parse_target sample_crates (res_root sample_root) (uuid_str sample_uuid) = Ok sample_uuid" by code_simp
  have texts: "text_at (plan_toml sample_root sample_uuid) ?w = Ok ''PLAN''"
    "text_at (flow_effective_toml sample_root sample_uuid) ?w = Ok ''FLOW''"
    by (simp_all add: text_at_def live_nodes node_len_def live_world_size)
  have load: "val (load_effective sample_crates sample_root sample_uuid) (advance 1 ?w) = Ok sample_run"
    unfolding steady_val[OF flow_readers_steady(2) nf]
    using nf by (simp add: load_effective_def read_plan_def read_flow_effective_def val_simps steady_intros texts live_nodes
        sample_crates_def sample_run_def)
  have "\<exists>res w'. tick (slurm_querier (slurm_batch new_host)) sample_crates sample_root sample_run
      (advance k (advance 1 ?w)) = (Ok res, w')" for k
    by (rule tick_live[OF sample_plain(1) sample_order _ _ sample_serialises])
      (use nf live_world_ready[of _ la lb] in \<open>auto simp: slurm_querier_def new_host_def readable_status_def writable_def map_err_def\<close>)
  note run = this
  have "cli_cmd tick_call = CmdTick (uuid_str sample_uuid)" "no_faults (advance 1 ?w)"
    using nf by (simp_all add: tick_call_def)
  note go = jm_tick_run[where host = new_host, OF root this(2,1) target load run]
  show thesis
  proof (rule go)
    fix k res w'
    assume "tick (slurm_querier (slurm_batch new_host)) sample_crates sample_root sample_run
        (advance k (advance 1 ?w)) = (Ok res, w')"
      and "\<And>p. node_at p (snd (jm_main new_host sample_crates tick_call ?w)) = node_at p w'"
    then show thesis unfolding advance_simps(1) by (rule that)
  qed
qed

lemma skipped_has_cause_witness:
  "\<exists>w'. rtranclp (jm_step sample_crates sample_root sample_uuid) (live_world Failed Queued) w'
    \<and> life_at sample_crates sample_root sample_uuid w' (JobId ''b'') = Some Skipped
    \<and> (\<exists>a\<in>{JobId ''a'', JobId ''b''}. tranclp (depends sample_run) a (JobId ''b'')
        \<and> life_at sample_crates sample_root sample_uuid w' a = Some Failed)"
proof -
  let ?w = "live_world Failed Queued" and ?u = "flow_uuid sample_run"
  let ?w' = "snd (jm_main new_host sample_crates tick_call ?w)"
  have life: "life_at sample_crates sample_root sample_uuid ?w (JobId ''a'') = Some Failed"
    "life_at sample_crates sample_root sample_uuid ?w (JobId ''b'') = Some Queued"
    using decode_encode_run[OF run_text_eq]
    by (simp_all add: life_at_def status_at_def live_nodes sample_crates_def run_with_def)
  have step: "jm_step sample_crates sample_root ?u ?w ?w'"
    using jm_step.invoked[OF live_root live_tick_spared] by simp
  obtain k res v where t: "tick (slurm_querier (slurm_batch new_host)) sample_crates sample_root sample_run (advance k ?w) = (Ok res, v)"
    and same: "\<And>p. node_at p ?w' = node_at p v"
    by (rule live_tick[of Failed Queued]) blast
  have v: "life_at sample_crates sample_root sample_uuid ?w' j = life_at sample_crates sample_root sample_uuid v j" for j
    unfolding life_at_def by (simp only: status_at_same[OF same])
  have nf: "\<forall>n. w_fault (advance k ?w) n = None" by (simp add: advance_def live_world_def quiet_world_def)
  have w: "life_at sample_crates sample_root sample_uuid (advance k ?w) j = life_at sample_crates sample_root sample_uuid ?w j" for j
    by (simp add: life_at_def status_at_def)
  have "JobId ''a'' \<in> set (bt_keys (jobs (run_flow sample_run)))" by (simp add: sample_keys)
  then have "life_at sample_crates sample_root sample_uuid v (JobId ''a'') = Some Failed"
    using tick_moved[OF sample_restores sample_plain(1) _ t, of "JobId ''a''"] sample_hyps(2) life(1) w[of "JobId ''a''"]
    by (auto simp: life_at_def moved_def plain_id_def elim: life_step_from)
  moreover have "\<lparr>edge_from = JobId ''a'', edge_kind = DependencyType ''afterok''\<rparr> \<in> set (parents_of sample_run (JobId ''b''))"
    by code_simp
  ultimately have b: "life_at sample_crates sample_root ?u ?w' (JobId ''b'') = Some Skipped"
    using tick_skips_downstream[OF sample_hyps(1-3) nf t, of "JobId ''b''"] life(2) v w by fastforce
  have r: "rtranclp (\<lambda>v v'. (jm_step sample_crates sample_root ?u v v'
        \<or> (\<exists>ex fr' submitted. run_flow fr' = run_flow sample_run \<and> flow_uuid fr' = ?u
            \<and> submit ex sample_crates sample_root fr' False v = (Ok submitted, v')))
      \<and> (\<forall>fl. snapshot_is sample_crates sample_root ?u v fl \<longrightarrow> fl = run_flow sample_run)) ?w ?w'"
    using step by (intro r_into_rtranclp) (auto simp: snapshot_is_def live_nodes sample_crates_def sample_run_def)
  have start: "\<forall>j\<in>set (bt_keys (jobs (run_flow sample_run))). life_at sample_crates sample_root ?u ?w j \<noteq> Some Skipped"
    using life by (simp add: sample_keys)
  have bK: "JobId ''b'' \<in> set (bt_keys (jobs (run_flow sample_run)))" by (simp add: sample_keys)
  from skipped_has_cause[OF sample_hyps(1-3) start r bK b] step b show ?thesis
    by (intro exI[of _ ?w'] conjI) (auto simp: sample_keys)
qed

subsection \<open>When SLURM is done\<close>

definition final_state :: "JobState \<Rightarrow> bool" where
  "final_state st \<longleftrightarrow> is_terminal (next_lifecycle Queued st)"

lemma final_moves: "final_state st \<Longrightarrow> is_terminal (next_lifecycle l st)"
  by (cases st) (simp_all add: final_state_def next_lifecycle_def)

lemma settled_final:
  assumes s: "settled cr r fr statuses w w' res j" and run: "status_at cr r (flow_uuid fr) w j = Some run"
    and f: "\<not> is_terminal (lifecycle run) \<Longrightarrow>
      \<exists>st. Option.bind (slurm_jobid run) statuses = Some st \<and> final_state (js_state st)"
  obtains l where "life_at cr r (flow_uuid fr) w' j = Some l" "is_terminal l"
proof (cases "is_terminal (lifecycle run)")
  case True
  then show ?thesis using s run that by (simp add: settled_def)
next
  case False
  then obtain st where "Option.bind (slurm_jobid run) statuses = Some st" "final_state (js_state st)" using f by blast
  then show ?thesis
    using s run False that final_moves[of "js_state st" "lifecycle run"]
    by (auto simp: settled_def Let_def decide_apply split: if_splits)
qed

text \<open>
  C14. When SLURM is done one tick finishes the flow. With no failing system call, when every job has
  a readable status, and an unfinished one a jobid, and SLURM reports a final state for each jobid it
  is asked about, the tick succeeds and leaves every job in success, failed or skipped.
\<close>

theorem tick_finishes:
  assumes "plain_name (uuid_str (flow_uuid fr))" and "run_order fr = Ok order"
    and "\<forall>run. \<exists>t. toml_ser_run cr run = Ok t \<and> toml_de_run cr t = Ok run"
    and "\<forall>n. w_fault w n = None"
    and "\<forall>j\<in>set order. plain_name (jid j) \<and> writable (status_file r (flow_uuid fr) j) w
      \<and> (\<exists>run. status_at cr r (flow_uuid fr) w j = Some run \<and> readable_status cr (status_file r (flow_uuid fr) j) w
          \<and> (is_terminal (lifecycle run) \<or> slurm_jobid run \<noteq> None))"
    and "\<forall>ids. \<exists>m. q ids = Ok m \<and> (\<forall>i\<in>set ids. \<exists>st. m i = Some st \<and> final_state (js_state st))"
  shows "\<exists>res w'. tick q cr r fr w = (Ok res, w')
    \<and> (\<forall>j\<in>set order. life_at cr r (flow_uuid fr) w' j \<in> {Some Success, Some Failed, Some Skipped})"
proof -
  have h: "restores cr" "plain_uuid (flow_uuid fr)"
    using assms(1,3) by (auto simp: restores_def plain_uuid_def) (metis sum.inject(2))
  have nf: "no_faults w" using assms(4) by (simp add: no_faults_def)
  have K: "set order = set (bt_keys (jobs (run_flow fr)))" by (rule run_order_sound(2)[OF assms(2)])
  have pl: "\<And>k. k \<in> set (bt_keys (jobs (run_flow fr))) \<Longrightarrow> plain_id k" using assms(5) K by (simp add: plain_id_def)
  have "plain_id j \<and> readable_status cr (status_file r (flow_uuid fr) j) w \<and> writable (status_file r (flow_uuid fr) j) w"
    if "j \<in> set order" for j
    using assms(5) that by (auto simp: plain_id_def)
  moreover have "\<exists>t. toml_ser_run cr run = Ok t" "\<exists>m. q ids = Ok m" for run ids using assms(3,6) by blast+
  ultimately obtain res w' where t: "tick q cr r fr w = (Ok res, w')"
    using tick_live[OF h(2) assms(2) nf, of cr r q] by blast
  obtain ids statuses where i: "\<forall>i. i \<in> set ids \<longleftrightarrow> asked cr r fr w i"
    and q: "if ids = [] then statuses = Map.empty else q ids = Ok statuses"
    and s: "\<forall>j\<in>set order. settled cr r fr statuses w w' res j"
    using tick_settled[OF h pl nf t] K by metis
  have final: "\<exists>st. statuses i = Some st \<and> final_state (js_state st)" if "asked cr r fr w i" for i
    using i q that assms(6) by (cases "ids = []") (auto, metis sum.inject(2))
  have "life_at cr r (flow_uuid fr) w' j \<in> {Some Success, Some Failed, Some Skipped}" if j: "j \<in> set order" for j
  proof -
    obtain run where run: "status_at cr r (flow_uuid fr) w j = Some run"
      "is_terminal (lifecycle run) \<or> slurm_jobid run \<noteq> None" using assms(5) j by blast
    have f: "\<exists>st. Option.bind (slurm_jobid run) statuses = Some st \<and> final_state (js_state st)"
      if nt: "\<not> is_terminal (lifecycle run)"
    proof -
      obtain i where i: "slurm_jobid run = Some i" using run(2) nt by (cases "slurm_jobid run") auto
      then have "asked cr r fr w i" using run(1) nt j K by (auto simp: asked_def)
      then show ?thesis using final i by simp
    qed
    obtain l where "life_at cr r (flow_uuid fr) w' j = Some l" "is_terminal l"
      by (rule settled_final[OF s[rule_format, OF j] run(1) f])
    then show ?thesis by (cases l) simp_all
  qed
  then show ?thesis using t by blast
qed

lemma tick_finishes_witness:
  "\<exists>res w'. tick (\<lambda>_. Ok (\<lambda>_. Some \<lparr>js_state = JsCompleted, js_reason = []\<rparr>)) sample_crates sample_root sample_run
      (live_world Running Queued) = (Ok res, w')
    \<and> life_at sample_crates sample_root sample_uuid w' (JobId ''b'') \<in> {Some Success, Some Failed, Some Skipped}"
proof -
  let ?w = "live_world Running Queued"
  let ?q = "\<lambda>_. Ok (\<lambda>_. Some \<lparr>js_state = JsCompleted, js_reason = []\<rparr>) :: JobManagerError + (u64 \<rightharpoonup> JobStatus)"
  have st: "status_at sample_crates sample_root sample_uuid ?w (JobId ''a'') = Some (run_with Running 1)"
    "status_at sample_crates sample_root sample_uuid ?w (JobId ''b'') = Some (run_with Queued 2)"
    using decode_encode_run[OF run_text_eq] by (simp_all add: status_at_def live_nodes sample_crates_def)
  have 1: "\<forall>run. \<exists>t. toml_ser_run sample_crates run = Ok t \<and> toml_de_run sample_crates t = Ok run"
    using sample_serialises sample_restores unfolding restores_def by blast
  have 2: "\<forall>n. w_fault ?w n = None" by (simp add: live_world_def quiet_world_def)
  have 3: "\<forall>j\<in>set [JobId ''a'', JobId ''b'']. plain_name (jid j)
      \<and> writable (status_file sample_root (flow_uuid sample_run) j) ?w
      \<and> (\<exists>run. status_at sample_crates sample_root (flow_uuid sample_run) ?w j = Some run
          \<and> readable_status sample_crates (status_file sample_root (flow_uuid sample_run) j) ?w
          \<and> (is_terminal (lifecycle run) \<or> slurm_jobid run \<noteq> None))"
    using live_world_ready[of _ Running Queued] st by (auto simp: plain_id_def run_with_def)
  have 4: "\<forall>ids. \<exists>m. ?q ids = Ok m \<and> (\<forall>i\<in>set ids. \<exists>st. m i = Some st \<and> final_state (js_state st))"
    by (simp add: final_state_def next_lifecycle_def)
  have u: "plain_name (uuid_str (flow_uuid sample_run))" using sample_plain(1) by (simp add: plain_uuid_def)
  from tick_finishes[OF u sample_order 1 2 3 4] show ?thesis by auto
qed

end
