(* ===== verification/Concurrent.thy ===== *)
theory Concurrent
  imports Samples
begin

section \<open>Concurrent writers (persistence/mod.rs)\<close>

text \<open>
  \<open>atomic_write\<close> picks a temporary of its own so that writers may run at the same time. Here one
  write is a machine that makes one system call per step, in the order of the code; run alone it
  is \<open>atomic_write\<close>. Any number of writers then take turns in any order, with other programs in
  between, and with any faults. The names of the temporaries keep writers with different process
  or thread numbers apart, and the content of a target is at every moment the old one or the body
  of a writer that has succeeded.
\<close>

subsection \<open>Components that take turns\<close>

text \<open>
  What a list of components needs so that their invariants survive any turn: each keeps its own,
  and leaves those of the components it is apart from alone.
\<close>

locale component =
  fixes step :: "'c \<Rightarrow> 's \<Rightarrow> 'c \<times> 's" and ok :: "'c \<Rightarrow> 's \<Rightarrow> bool"
    and static :: "'c \<Rightarrow> 'k" and apart :: "'k \<Rightarrow> 'k \<Rightarrow> bool"
  assumes own: "ok c s \<Longrightarrow> step c s = (c', s') \<Longrightarrow> ok c' s' \<and> static c' = static c"
    and others: "ok c s \<Longrightarrow> ok d s \<Longrightarrow> step c s = (c', s') \<Longrightarrow> apart (static c) (static d) \<Longrightarrow> ok d s'"
begin

definition all_ok :: "'c list \<Rightarrow> 's \<Rightarrow> bool" where
  "all_ok cs s \<longleftrightarrow> (\<forall>c\<in>set cs. ok c s)
     \<and> (\<forall>i<length cs. \<forall>k<length cs. i \<noteq> k \<longrightarrow> apart (static (cs ! i)) (static (cs ! k)))"

lemma turn_statics:
  "ok (cs ! i) s \<Longrightarrow> i < length cs \<Longrightarrow> step (cs ! i) s = (c', s') \<Longrightarrow> map static (cs[i := c']) = map static cs"
  using own[of "cs ! i" s c' s'] by (simp add: map_update list_update_same_conv)

lemma turn_ok:
  assumes a: "all_ok cs s" and i: "i < length cs" and st: "step (cs ! i) s = (c', s')"
  shows "all_ok (cs[i := c']) s'"
proof -
  have ok: "\<And>k. k < length cs \<Longrightarrow> ok (cs ! k) s" using a by (simp add: all_ok_def)
  have "map static (cs[i := c']) = map static cs" using turn_statics[OF ok[OF i] i st] .
  then have same: "static (cs[i := c'] ! k) = static (cs ! k)" if "k < length cs" for k
    using that by (metis length_list_update nth_map)
  have "ok (cs[i := c'] ! k) s'" if k: "k < length cs" for k
  proof (cases "k = i")
    case True
    then show ?thesis using own[OF ok[OF i] st] k by simp
  next
    case False
    then have "apart (static (cs ! i)) (static (cs ! k))" using a i k by (simp add: all_ok_def)
    then show ?thesis using others[OF ok[OF i] ok[OF k] st] False by simp
  qed
  then have "\<forall>c\<in>set (cs[i := c']). ok c s'" by (auto simp: in_set_conv_nth)
  moreover have "apart (static (cs[i := c'] ! k)) (static (cs[i := c'] ! l))"
    if "k < length cs" "l < length cs" "k \<noteq> l" for k l
    using a that same by (simp add: all_ok_def)
  ultimately show ?thesis by (simp add: all_ok_def)
qed

end

subsection \<open>One writer\<close>

datatype stage =
    Preparing "Path list"
  | Creating Path
  | Filling Path
  | Syncing Path
  | Renaming Path
  | Cleaning Path JobManagerError
  | Finished "JobManagerError + unit"

record writer =
  wr_target :: Path
  wr_body :: string
  wr_pid :: nat
  wr_tid :: string
  wr_stage :: stage

definition dirs_of :: "Path \<Rightarrow> Path list" where
  \<comment> \<open>the directories that \<open>create_dir_all\<close> goes through for the parent\<close>
  "dirs_of path = (case path_parent path of None \<Rightarrow> [] | Some q \<Rightarrow> ancestors q)"

definition start_write :: "Path \<Rightarrow> string \<Rightarrow> nat \<Rightarrow> string \<Rightarrow> writer" where
  "start_write path b pid tid = \<lparr>wr_target = path, wr_body = b, wr_pid = pid, wr_tid = tid,
     wr_stage = Preparing (dirs_of path)\<rparr>"

definition branch :: "('x, 'a) sys \<Rightarrow> ('a \<Rightarrow> stage) \<Rightarrow> (IoError \<Rightarrow> stage) \<Rightarrow> 'x world_scheme \<Rightarrow> stage \<times> 'x world_scheme" where
  "branch m good bad w = (case m w of (Ok x, w1) \<Rightarrow> (good x, w1) | (Err e, w1) \<Rightarrow> (bad e, w1))"

fun stage_step :: "writer \<Rightarrow> stage \<Rightarrow> 'x world_scheme \<Rightarrow> stage \<times> 'x world_scheme" where
  "stage_step t (Preparing (d # ds)) w =
     branch (mkdir d) (\<lambda>_. Preparing ds) (\<lambda>e. Finished (Err (Io (the (path_parent (wr_target t))) e))) w"
| "stage_step t (Preparing []) w =
     branch tmp_extension (\<lambda>ext. Creating (with_extension (wr_target t) ext)) (\<lambda>e. Finished (Err (Io [] e))) w"
| "stage_step t (Creating tmp) w = branch (file_create tmp) (\<lambda>_. Filling tmp) (\<lambda>e. Cleaning tmp (Io tmp e)) w"
| "stage_step t (Filling tmp) w = branch (write_all tmp (wr_body t)) (\<lambda>_. Syncing tmp) (\<lambda>e. Cleaning tmp (Io tmp e)) w"
| "stage_step t (Syncing tmp) w = branch sync_all (\<lambda>_. Renaming tmp) (\<lambda>e. Cleaning tmp (Io tmp e)) w"
| "stage_step t (Renaming tmp) w =
     branch (rename_file tmp (wr_target t)) (\<lambda>_. Finished (Ok ())) (\<lambda>e. Cleaning tmp (Io (wr_target t) e)) w"
| "stage_step t (Cleaning tmp e) w = branch (remove_file tmp) (\<lambda>_. Finished (Err e)) (\<lambda>_. Finished (Err e)) w"
| "stage_step t (Finished r) w = (Finished r, w)"

definition as_process :: "writer \<Rightarrow> 'x world_scheme \<Rightarrow> 'x world_scheme" where
  "as_process t w = w\<lparr>w_pid := wr_pid t, w_tid := wr_tid t\<rparr>"

definition writer_step :: "writer \<Rightarrow> 'x world_scheme \<Rightarrow> writer \<times> 'x world_scheme" where
  "writer_step t w = (case stage_step t (wr_stage t) (as_process t w) of (s, w') \<Rightarrow> (t\<lparr>wr_stage := s\<rparr>, w'))"

fun writer_runs :: "nat \<Rightarrow> writer \<Rightarrow> 'x world_scheme \<Rightarrow> writer \<times> 'x world_scheme" where
  "writer_runs 0 t w = (t, w)"
| "writer_runs (Suc n) t w = (case writer_step t w of (t', w') \<Rightarrow> writer_runs n t' w')"

subsection \<open>Alone, a writer is atomic_write\<close>

fun stage_runs :: "nat \<Rightarrow> writer \<Rightarrow> stage \<Rightarrow> 'x world_scheme \<Rightarrow> stage \<times> 'x world_scheme" where
  "stage_runs 0 t s w = (s, w)"
| "stage_runs (Suc n) t s w = (case stage_step t s w of (s', w') \<Rightarrow> stage_runs n t s' w')"

lemma stage_runs_finished [simp]: "stage_runs n t (Finished r) w = (Finished r, w)"
  by (induction n) simp_all

lemma stage_runs_replace:
  "stage_runs 5 t (Creating tmp) w =
    (case replace_via tmp (wr_target t) (wr_body t) w of (r, w') \<Rightarrow> (Finished r, w'))"
  by (auto simp: eval_nat_numeral branch_def replace_via_def write_and_sync_def act_bind_def act_map_err_def
      act_try_def act_lift_def map_err_def split: prod.splits sum.splits)

lemma stage_runs_named:
  "stage_runs 6 t (Preparing []) w =
    (case act_bind tmp_extension (\<lambda>ext. replace_via (with_extension (wr_target t) ext) (wr_target t) (wr_body t)) w
     of (r, w') \<Rightarrow> (Finished r, w'))"
proof -
  have six: "(6::nat) = Suc 5" by simp
  show ?thesis
    unfolding six stage_runs.simps(2) stage_step.simps branch_def tmp_extension_run
    by (simp add: act_bind_def tmp_extension_run stage_runs_replace)
qed

lemma stage_runs_prepared:
  "stage_runs (length ds + 6) t (Preparing ds) w =
    (case act_bind (act_map_err (Io (the (path_parent (wr_target t)))) (act_foldM (\<lambda>_. mkdir) () ds))
       (\<lambda>_. act_bind tmp_extension (\<lambda>ext. replace_via (with_extension (wr_target t) ext) (wr_target t) (wr_body t))) w
     of (r, w') \<Rightarrow> (Finished r, w'))"
proof (induction ds arbitrary: w)
  case Nil
  then show ?case by (simp add: stage_runs_named act_bind_def act_map_err_def)
next
  case (Cons d ds)
  obtain x w1 where m: "mkdir d w = (x, w1)" by fastforce
  have len: "length (d # ds) + 6 = Suc (length ds + 6)" by simp
  show ?case
  proof (cases x)
    case (Inl e)
    then show ?thesis
      unfolding len stage_runs.simps(2) stage_step.simps branch_def m by (simp add: m act_bind_def act_map_err_def)
  next
    case (Inr y)
    then have eq: "stage_runs (length (d # ds) + 6) t (Preparing (d # ds)) w = stage_runs (length ds + 6) t (Preparing ds) w1"
      unfolding len stage_runs.simps(2) stage_step.simps branch_def m by simp
    obtain z w2 where f: "act_foldM (\<lambda>_. mkdir) () ds w1 = (z, w2)" by fastforce
    have "act_foldM (\<lambda>_. mkdir) () (d # ds) w = (z, w2)" using m f Inr by (simp add: act_bind_def)
    then have F: "act_map_err g (act_foldM (\<lambda>_. mkdir) () (d # ds)) w = act_map_err g (act_foldM (\<lambda>_. mkdir) () ds) w1" for g
      using f by (simp only: act_map_err_def)
    show ?thesis unfolding eq Cons.IH by (simp only: act_bind_def[of "act_map_err _ _"] F)
  qed
qed

lemma atomic_write_dirs:
  "atomic_write path b =
    act_bind (act_map_err (Io (the (path_parent path))) (act_foldM (\<lambda>_. mkdir) () (dirs_of path)))
      (\<lambda>_. act_bind tmp_extension (\<lambda>ext. replace_via (with_extension path ext) path b))"
  by (cases "path_parent path")
    (simp_all add: atomic_write_def ensure_parent_def dirs_of_def create_dir_all_def act_bind_def act_map_err_def fun_eq_iff)

lemma stage_step_host: "stage_step t s w = (s', w') \<Longrightarrow> same_host w w'"
proof -
  have sys: "same_host w (snd (m w))" if "obeys (changes_only UNIV) m" for m :: "('x, 'a) sys" and w :: "'x world_scheme"
    using that by (simp add: obeys_def changes_only_def)
  assume "stage_step t s w = (s', w')"
  then show ?thesis
    by (cases "(t, s, w)" rule: stage_step.cases)
      (auto simp: branch_def split: prod.splits sum.splits
        dest!: obeysD[OF obeys_mkdir[OF UNIV_I]] obeysD[OF obeys_tmp_extension[of UNIV]]
          obeysD[OF obeys_file_create[OF UNIV_I]] obeysD[OF obeys_write_all[OF UNIV_I]]
          obeysD[OF obeys_sync_all[of UNIV]] obeysD[OF obeys_rename[OF UNIV_I UNIV_I]]
          obeysD[OF obeys_remove_file[OF UNIV_I]] simp: changes_only_def same_host_def)
qed

lemma stage_step_update [simp]: "stage_step (t\<lparr>wr_stage := s'\<rparr>) s w = stage_step t s w"
  by (cases "(t, s, w)" rule: stage_step.cases) simp_all

lemma stage_runs_update [simp]: "stage_runs n (t\<lparr>wr_stage := s'\<rparr>) s w = stage_runs n t s w"
  by (induction n arbitrary: s w) (simp_all split: prod.split)

lemma writer_runs_stages:
  assumes "w_pid w = wr_pid t" and "w_tid w = wr_tid t"
  shows "writer_runs n t w = (case stage_runs n t (wr_stage t) w of (s, w') \<Rightarrow> (t\<lparr>wr_stage := s\<rparr>, w'))"
  using assms
proof (induction n arbitrary: t w)
  case (Suc n)
  obtain s w1 where s: "stage_step t (wr_stage t) w = (s, w1)" by fastforce
  have "as_process t w = w" using Suc.prems by (simp add: as_process_def)
  then have "writer_step t w = (t\<lparr>wr_stage := s\<rparr>, w1)" using s by (simp add: writer_step_def)
  moreover have "w_pid w1 = wr_pid t" "w_tid w1 = wr_tid t"
    using stage_step_host[OF s] Suc.prems by (simp_all add: same_host_def)
  ultimately show ?case
    using Suc.IH[of w1 "t\<lparr>wr_stage := s\<rparr>"] s by (simp split: prod.split)
qed simp

text \<open>
  The step machine is the code: run alone from its start, a writer ends, after one step per
  directory above and at most six more, in exactly the result and the world of \<open>atomic_write\<close>.
\<close>

lemma writer_refines_atomic_write:
  assumes "w_pid w = pid" and "w_tid w = tid"
  shows "writer_runs (length (dirs_of path) + 6) (start_write path b pid tid) w =
    (case atomic_write path b w of (r, w') \<Rightarrow>
      (\<lparr>wr_target = path, wr_body = b, wr_pid = pid, wr_tid = tid, wr_stage = Finished r\<rparr>, w'))"
proof -
  let ?t = "start_write path b pid tid"
  have "writer_runs (length (dirs_of path) + 6) ?t w
      = (case stage_runs (length (dirs_of path) + 6) ?t (Preparing (dirs_of path)) w of (s, w') \<Rightarrow> (?t\<lparr>wr_stage := s\<rparr>, w'))"
    using writer_runs_stages[of w ?t] assms by (simp add: start_write_def)
  also have "\<dots> = (case atomic_write path b w of (r, w') \<Rightarrow> (?t\<lparr>wr_stage := Finished r\<rparr>, w'))"
    unfolding stage_runs_prepared atomic_write_dirs by (simp add: start_write_def split: prod.split)
  finally show ?thesis by (simp add: start_write_def)
qed

subsection \<open>The temporaries of different writers\<close>

lemma split_first: "a @ c # x = b @ c # y \<Longrightarrow> c \<notin> set a \<Longrightarrow> c \<notin> set b \<Longrightarrow> a = b \<and> x = y"
proof (induction a arbitrary: b)
  case Nil
  then show ?case by (cases b) auto
next
  case (Cons z a)
  then show ?case by (cases b) auto
qed

lemma split_last:
  assumes "xs @ c # a = ys @ c # b" and "c \<notin> set a" and "c \<notin> set b"
  shows "xs = ys \<and> a = b"
proof -
  have "rev a @ c # rev xs = rev b @ c # rev ys" using arg_cong[OF assms(1), of rev] by simp
  then have "rev a = rev b \<and> rev xs = rev ys" by (rule split_first) (use assms(2,3) in simp_all)
  then show ?thesis by simp
qed

definition short_tid :: "string \<Rightarrow> string" where
  "short_tid tid = take 8 (filter is_digit tid)"

lemma dot_free: "CHR ''.'' \<notin> set (show_nat n)" "CHR ''.'' \<notin> set (short_tid tid)"
  using show_nat_digits[of n]
  by (auto simp: short_tid_def list_all_iff is_digit_def code_def dest: in_set_takeD)

lemma tmp_text_inject:
  assumes "a @ ''.'' @ tmp_text pid n tid = b @ ''.'' @ tmp_text pid' n' tid'"
  shows "pid = pid' \<and> short_tid tid = short_tid tid'"
proof -
  let ?head = "\<lambda>a pid. (a @ ''.toml'') @ CHR ''.'' # show_nat pid"
  let ?mid = "\<lambda>a pid n. ?head a pid @ CHR ''.'' # show_nat (nat n)"
  have "(?mid a pid n @ CHR ''.'' # short_tid tid) @ ''.tmp'' = (?mid b pid' n' @ CHR ''.'' # short_tid tid') @ ''.tmp''"
    using assms by (simp add: tmp_text_def short_tid_def)
  then have "?mid a pid n @ CHR ''.'' # short_tid tid = ?mid b pid' n' @ CHR ''.'' # short_tid tid'"
    by (simp only: append_same_eq)
  then have 1: "?mid a pid n = ?mid b pid' n'" "short_tid tid = short_tid tid'"
    using split_last[OF _ dot_free(2,2)] by blast+
  then have "?head a pid = ?head b pid'" using split_last[OF _ dot_free(1,1)] by blast
  then have "show_nat pid = show_nat pid'" using split_last[OF _ dot_free(1,1)] by blast
  then show ?thesis using 1(2) by simp
qed

definition tmp_names :: "writer \<Rightarrow> Path set" where
  \<comment> \<open>the temporaries a writer may pick\<close>
  "tmp_names t = {with_extension (wr_target t) (tmp_text (wr_pid t) n (wr_tid t)) | n. True}"

lemma tmp_names_temporaries: "tmp_names t \<subseteq> temporaries (wr_target t)"
  by (auto simp: tmp_names_def temporaries_def)

definition named :: "writer \<Rightarrow> bool" where
  "named t \<longleftrightarrow> file_name (wr_target t) \<noteq> None"

lemma target_snoc: "named t \<Longrightarrow> \<exists>q n. wr_target t = q @ [Normal n]"
  by (cases "wr_target t" rule: rev_cases) (auto simp: named_def file_name_def split: Component.splits)

lemma tmp_names_snoc:
  assumes "wr_target t = q @ [Normal n]"
  shows "tmp_names t = {q @ [Normal (file_stem_of n @ ''.'' @ tmp_text (wr_pid t) k (wr_tid t))] | k. True}"
proof -
  have "tmp_text (wr_pid t) k (wr_tid t) \<noteq> []" for k by (simp add: tmp_text_def)
  then show ?thesis by (simp add: tmp_names_def assms with_extension_snoc)
qed

lemma tmp_names_disjoint:
  assumes "named t" "named u" and "(wr_pid t, short_tid (wr_tid t)) \<noteq> (wr_pid u, short_tid (wr_tid u))"
  shows "tmp_names t \<inter> tmp_names u = {}"
proof -
  obtain q n q' n' where eq: "wr_target t = q @ [Normal n]" "wr_target u = q' @ [Normal n']"
    using target_snoc assms(1,2) by blast
  have "p \<notin> tmp_names u" if m: "p \<in> tmp_names t" for p
  proof
    assume "p \<in> tmp_names u"
    then obtain k' where u: "p = q' @ [Normal (file_stem_of n' @ ''.'' @ tmp_text (wr_pid u) k' (wr_tid u))]"
      unfolding tmp_names_snoc[OF eq(2)] by (elim CollectE exE conjE)
    obtain k where "p = q @ [Normal (file_stem_of n @ ''.'' @ tmp_text (wr_pid t) k (wr_tid t))]"
      using m unfolding tmp_names_snoc[OF eq(1)] by (elim CollectE exE conjE)
    with u have "file_stem_of n @ ''.'' @ tmp_text (wr_pid t) k (wr_tid t)
        = file_stem_of n' @ ''.'' @ tmp_text (wr_pid u) k' (wr_tid u)" by simp
    from tmp_text_inject[OF this] show False using assms(3) by simp
  qed
  then show ?thesis by blast
qed

subsection \<open>Taking turns\<close>

definition stage_ok :: "writer \<Rightarrow> stage \<Rightarrow> 'x world_scheme \<Rightarrow> bool" where
  \<comment> \<open>the writer works on a temporary of its own, which is complete before it is renamed\<close>
  "stage_ok t s w = (case s of
     Preparing ds \<Rightarrow> set ds \<subseteq> dirs_above (wr_target t)
   | Creating tmp \<Rightarrow> tmp \<in> tmp_names t
   | Filling tmp \<Rightarrow> tmp \<in> tmp_names t
   | Syncing tmp \<Rightarrow> tmp \<in> tmp_names t \<and> node_at tmp w = Some (File (wr_body t))
   | Renaming tmp \<Rightarrow> tmp \<in> tmp_names t \<and> node_at tmp w = Some (File (wr_body t))
   | Cleaning tmp e \<Rightarrow> tmp \<in> tmp_names t
   | Finished r \<Rightarrow> True)"

lemma start_ok: "stage_ok (start_write p b pid tid) (wr_stage (start_write p b pid tid)) w"
  by (auto simp: stage_ok_def start_write_def dirs_of_def split: option.splits dest: ancestors_dirs_above[OF sym, THEN subsetD])

lemma tmp_not_root:
  assumes "named t" and "tmp \<in> tmp_names t"
  shows "tmp \<noteq> [] \<and> tmp \<noteq> [RootDir] \<and> tmp \<noteq> wr_target t"
proof -
  obtain q n where t: "wr_target t = q @ [Normal n]" using target_snoc[OF assms(1)] by blast
  obtain k where tmp: "tmp = with_extension (q @ [Normal n]) (tmp_text (wr_pid t) k (wr_tid t))"
    using assms(2) by (auto simp: tmp_names_def t)
  have dot: "CHR ''.'' \<in> set (tmp_text (wr_pid t) k (wr_tid t))" by (simp add: tmp_text_def)
  then have "tmp \<noteq> wr_target t" unfolding tmp t by (rule with_extension_neq)
  moreover have "tmp_text (wr_pid t) k (wr_tid t) \<noteq> []" using dot by auto
  then have "tmp \<noteq> [] \<and> tmp \<noteq> [RootDir]" by (simp add: tmp with_extension_snoc)
  ultimately show ?thesis by blast
qed

text \<open>What one step of a writer may do to the files, which is what the other writers rely on.\<close>

definition guarantee :: "writer \<Rightarrow> stage \<Rightarrow> stage \<Rightarrow> 'x world_scheme \<Rightarrow> 'x world_scheme \<Rightarrow> Path \<Rightarrow> bool" where
  "guarantee t s s' w w' q \<longleftrightarrow> node_at q w' = node_at q w
     \<or> (node_at q w = None \<and> q \<in> dirs_above (wr_target t))
     \<or> q \<in> tmp_names t
     \<or> (q = wr_target t \<and> s \<noteq> Finished (Ok ()) \<and> s' = Finished (Ok ()))"

lemma branch_run: "branch m good bad w = (s', w') \<Longrightarrow> \<exists>x. m w = (x, w') \<and>
    s' = (case x of Ok y \<Rightarrow> good y | Err e \<Rightarrow> bad e)"
  by (auto simp: branch_def split: prod.splits sum.splits)

lemma branch_only:
  "branch m good bad w = (s', w') \<Longrightarrow> obeys (changes_only S) m \<Longrightarrow> node_at q w' = node_at q w \<or> q \<in> S"
  by (drule branch_run) (auto dest: obeysD simp: changes_only_def)

lemma mkdir_new: "mkdir d w = (x, w') \<Longrightarrow> node_at q w' = node_at q w \<or> q = d \<and> node_at d w = None"
  by (auto simp: mkdir_def syscall_def split: option.splits node.splits)

lemma rename_Err: "rename_file a b w = (Err e, w') \<Longrightarrow> node_at q w' = node_at q w"
  by (auto simp: rename_file_def syscall_def split: option.splits node.splits if_splits)

lemma same_nodes_sync: "sync_all w = (x, w') \<Longrightarrow> node_at q w' = node_at q w"
  by (drule obeysD[OF obeys_sync_all[of "{}"]]) (simp add: changes_only_def)

lemma stage_step_guarantee:
  assumes s: "stage_step t s w = (s', w')" and ok: "stage_ok t s w" and n: "named t"
  shows "guarantee t s s' w w' q"
proof (cases "(t, s, w)" rule: stage_step.cases)
  case (1 t' d ds v)
  then obtain x where m: "mkdir d w = (x, w')" using s branch_run by fastforce
  have "d \<in> dirs_above (wr_target t)" using 1 ok by (simp add: stage_ok_def)
  then show ?thesis using mkdir_new[OF m, of q] by (auto simp: guarantee_def)
next
  case (2 t' v)
  then show ?thesis using s by (auto simp: branch_def tmp_extension_run guarantee_def)
next
  case (3 t' tmp v)
  then show ?thesis using s ok branch_only[of "file_create tmp" _ _ w s' w' "{tmp}" q] obeys_file_create[of tmp "{tmp}"]
    by (auto simp: guarantee_def stage_ok_def)
next
  case (4 t' tmp v)
  then show ?thesis using s ok branch_only[of "write_all tmp (wr_body t)" _ _ w s' w' "{tmp}" q] obeys_write_all[of tmp "{tmp}"]
    by (auto simp: guarantee_def stage_ok_def)
next
  case (5 t' tmp v)
  then show ?thesis using s branch_only[of sync_all _ _ w s' w' "{}" q] obeys_sync_all by (auto simp: guarantee_def)
next
  case (6 t' tmp v)
  then obtain x where r: "rename_file tmp (wr_target t) w = (x, w')"
    and s': "x = Ok () \<longrightarrow> s' = Finished (Ok ())" using s branch_run by fastforce
  have "tmp \<in> tmp_names t" using 6 ok by (simp add: stage_ok_def)
  then show ?thesis
    using obeysD[OF obeys_rename[of tmp "{tmp, wr_target t}"] r] rename_Err[of tmp "wr_target t" w _ w' q] r s' 6
    by (cases x) (auto simp: guarantee_def changes_only_def)
next
  case (7 t' tmp e v)
  then show ?thesis using s ok branch_only[of "remove_file tmp" _ _ w s' w' "{tmp}" q] obeys_remove_file[of tmp "{tmp}"]
    by (auto simp: guarantee_def stage_ok_def)
next
  case (8 t' r v)
  then show ?thesis using s by (simp add: guarantee_def)
qed

lemma rename_installs:
  assumes "rename_file tmp path w = (Ok (), w')" and "node_at tmp w = Some (File b)"
  shows "node_at path w' = Some (File b)"
proof -
  have "parent_is_dir path w \<and> w' = put_node path (File b) (del_node tmp (next_step w))"
    using syscall_Ok[OF assms(1)[unfolded rename_file_def]] assms(2) by (auto split: if_splits)
  then show ?thesis using parent_is_dir_nonroot[of path w] by simp
qed

lemma write_fills: "write_all tmp b w = (Ok (), w') \<Longrightarrow> tmp \<noteq> [] \<Longrightarrow> tmp \<noteq> [RootDir] \<Longrightarrow> node_at tmp w' = Some (File b)"
  by (auto simp: write_all_def split: option.splits)

lemma stage_step_ok:
  assumes s: "stage_step t s w = (s', w')" and ok: "stage_ok t s w" and n: "named t"
    and h: "w_pid w = wr_pid t" "w_tid w = wr_tid t"
  shows "stage_ok t s' w'
    \<and> (s' = Finished (Ok ()) \<longrightarrow> s = Finished (Ok ()) \<or> node_at (wr_target t) w' = Some (File (wr_body t)))"
proof (cases "(t, s, w)" rule: stage_step.cases)
  case (1 t' d ds v)
  then show ?thesis using s ok by (auto simp: stage_ok_def dest!: branch_run split: sum.splits)
next
  case (2 t' v)
  then show ?thesis using s h by (auto simp: branch_def tmp_extension_run stage_ok_def tmp_names_def)
next
  case (3 t' tmp v)
  then show ?thesis using s ok by (auto simp: stage_ok_def dest!: branch_run split: sum.splits)
next
  case (4 t' tmp v)
  then have "tmp \<noteq> [] \<and> tmp \<noteq> [RootDir]" using tmp_not_root[OF n, of tmp] ok by (simp add: stage_ok_def)
  then show ?thesis
    using 4 s ok by (auto simp: stage_ok_def write_fills dest!: branch_run split: sum.splits)
next
  case (5 t' tmp v)
  then show ?thesis
    using s ok by (auto simp: stage_ok_def same_nodes_sync dest!: branch_run split: sum.splits)
next
  case (6 t' tmp v)
  then show ?thesis
    using s ok by (auto simp: stage_ok_def dest!: branch_run dest: rename_installs split: sum.splits)
next
  case (7 t' tmp e v)
  then show ?thesis using s by (auto simp: stage_ok_def dest!: branch_run split: sum.splits)
next
  case (8 t' r v)
  then show ?thesis using s by (auto simp: stage_ok_def)
qed

lemma stage_ok_stable:
  \<comment> \<open>a writer relies on nobody else touching its temporary\<close>
  "stage_ok t s w \<Longrightarrow> (\<And>tmp. tmp \<in> tmp_names t \<Longrightarrow> node_at tmp w \<noteq> None \<Longrightarrow> node_at tmp w' = node_at tmp w) \<Longrightarrow>
    stage_ok t s w'"
  by (auto simp: stage_ok_def split: stage.splits)

inductive take_turns :: "writer list \<times> 'x world_scheme \<Rightarrow> writer list \<times> 'x world_scheme \<Rightarrow> bool" where
  turn: "i < length ts \<Longrightarrow> writer_step (ts ! i) w = (t', w') \<Longrightarrow> take_turns (ts, w) (ts[i := t'], w')"
| others: "\<forall>t\<in>set ts. \<forall>p\<in>insert (wr_target t) (temporaries (wr_target t)). node_at p w' = node_at p w \<Longrightarrow>
    take_turns (ts, w) (ts, w')"

definition writer_id :: "writer \<Rightarrow> nat \<times> string" where
  "writer_id t = (wr_pid t, short_tid (wr_tid t))"

lemma target_not_temporary:
  assumes "file_name p \<noteq> None"
  shows "p \<notin> temporaries p"
proof
  assume "p \<in> temporaries p"
  then obtain pid k tid where e: "p = with_extension p (tmp_text pid k tid)" unfolding temporaries_def by blast
  obtain q n where p: "p = q @ [Normal n]"
    using assms by (cases p rule: rev_cases) (auto simp: file_name_def split: Component.splits)
  have "CHR ''.'' \<in> set (tmp_text pid k tid)" by (simp add: tmp_text_def)
  from with_extension_neq[OF this, of q n] e show False unfolding p by (rule notE[OF _ sym])
qed

definition placed :: "Path list \<Rightarrow> bool" where
  \<comment> \<open>no target is a temporary of another, or a directory above one\<close>
  "placed ps \<longleftrightarrow> (\<forall>p\<in>set ps. file_name p \<noteq> None \<and> (\<forall>q\<in>set ps. p \<notin> temporaries q \<and> p \<notin> dirs_above q))"

definition well_placed :: "writer list \<Rightarrow> bool" where
  "well_placed ts \<longleftrightarrow> distinct (map writer_id ts) \<and> placed (map wr_target ts)"

lemma well_placedD:
  assumes "well_placed ts" and "t \<in> set ts"
  shows "named t" and "u \<in> set ts \<Longrightarrow> wr_target t \<notin> temporaries (wr_target u) \<and> wr_target t \<notin> dirs_above (wr_target u)"
  using assms by (auto simp: well_placed_def placed_def named_def)

definition content_ok :: "writer list \<Rightarrow> node option \<Rightarrow> Path \<Rightarrow> 'x world_scheme \<Rightarrow> bool" where
  \<comment> \<open>the old content and nobody has succeeded, or the body of somebody who has\<close>
  "content_ok ts old p w \<longleftrightarrow>
     (node_at p w = old \<and> (\<forall>t\<in>set ts. wr_target t = p \<longrightarrow> wr_stage t \<noteq> Finished (Ok ())))
   \<or> (\<exists>t\<in>set ts. wr_target t = p \<and> wr_stage t = Finished (Ok ()) \<and> node_at p w = Some (File (wr_body t)))"

lemma stage_update_irrelevant [simp]:
  "tmp_names (t\<lparr>wr_stage := s\<rparr>) = tmp_names t" "writer_id (t\<lparr>wr_stage := s\<rparr>) = writer_id t"
  "stage_ok (t\<lparr>wr_stage := s\<rparr>) s' w = stage_ok t s' w"
  by (simp_all add: tmp_names_def writer_id_def stage_ok_def split: stage.split)

lemma as_process_nodes [simp]: "node_at p (as_process t w) = node_at p w"
  by (simp add: as_process_def node_at_def)

lemma as_process_ok [simp]: "stage_ok u s (as_process t w) = stage_ok u s w"
  by (simp add: stage_ok_def split: stage.split)

lemma writer_step_sound:
  assumes st: "writer_step t w = (t', w')" and ok: "stage_ok t (wr_stage t) w" and n: "named t"
  obtains s where "t' = t\<lparr>wr_stage := s\<rparr>" "stage_ok t s w'" "\<And>q. guarantee t (wr_stage t) s w w' q"
    "s = Finished (Ok ()) \<Longrightarrow> wr_stage t \<noteq> Finished (Ok ()) \<Longrightarrow> node_at (wr_target t) w' = Some (File (wr_body t))"
    "wr_stage t = Finished (Ok ()) \<Longrightarrow> s = Finished (Ok ())"
proof -
  obtain s where s: "stage_step t (wr_stage t) (as_process t w) = (s, w')" and t': "t' = t\<lparr>wr_stage := s\<rparr>"
    using st by (auto simp: writer_step_def split: prod.splits)
  have ok': "stage_ok t (wr_stage t) (as_process t w)" using ok by simp
  have "w_pid (as_process t w) = wr_pid t" "w_tid (as_process t w) = wr_tid t" by (simp_all add: as_process_def)
  note own = stage_step_ok[OF s ok' n this]
  have "guarantee t (wr_stage t) s w w' q" for q
    using stage_step_guarantee[OF s ok' n, of q] by (simp add: guarantee_def)
  moreover have "s = Finished (Ok ())" if "wr_stage t = Finished (Ok ())" using s that by simp
  ultimately show thesis using that[OF t'] own by blast
qed

definition frozen :: "writer \<Rightarrow> writer" where
  \<comment> \<open>the writer without its stage\<close>
  "frozen t = t\<lparr>wr_stage := Finished (Ok ())\<rparr>"

definition apart :: "writer \<Rightarrow> writer \<Rightarrow> bool" where
  "apart t u \<longleftrightarrow> writer_id t \<noteq> writer_id u \<and> wr_target t \<notin> temporaries (wr_target u)"

lemma frozen_simps [simp]:
  "frozen (t\<lparr>wr_stage := s\<rparr>) = frozen t" "apart (frozen t) (frozen u) = apart t u"
  "writer_id (frozen t) = writer_id t" "wr_target (frozen t) = wr_target t" "wr_body (frozen t) = wr_body t"
  by (simp_all add: frozen_def apart_def)

lemma guarantee_keeps:
  assumes n: "named t" "named u" and ap: "apart t u" and g: "\<And>q. guarantee t s s' w w' q"
    and ok: "stage_ok u (wr_stage u) w"
  shows "stage_ok u (wr_stage u) w'"
proof (rule stage_ok_stable[OF ok])
  fix tmp
  assume tmp: "tmp \<in> tmp_names u" and ex: "node_at tmp w \<noteq> None"
  have "tmp_names u \<inter> tmp_names t = {}"
    using tmp_names_disjoint[OF n(2,1)] ap by (auto simp: apart_def writer_id_def)
  moreover have "tmp \<noteq> wr_target t" using ap tmp tmp_names_temporaries by (auto simp: apart_def)
  ultimately show "node_at tmp w' = node_at tmp w"
    using g[of tmp] tmp ex by (auto simp: guarantee_def)
qed

interpretation writers: component writer_step "\<lambda>t w. named t \<and> stage_ok t (wr_stage t) w" frozen apart
proof
  fix t t' and w w' :: "'x world_scheme"
  assume ok: "named t \<and> stage_ok t (wr_stage t) w" and st: "writer_step t w = (t', w')"
  then show "(named t' \<and> stage_ok t' (wr_stage t') w') \<and> frozen t' = frozen t"
    by (elim conjE writer_step_sound[OF st]) (simp_all add: named_def)
next
  fix t u t' and w w' :: "'x world_scheme"
  assume ok: "named t \<and> stage_ok t (wr_stage t) w" "named u \<and> stage_ok u (wr_stage u) w"
    and st: "writer_step t w = (t', w')" and ap: "apart (frozen t) (frozen u)"
  obtain s where g: "\<And>q. guarantee t (wr_stage t) s w w' q"
    using writer_step_sound[OF st] ok(1) by blast
  have "stage_ok u (wr_stage u) w'" by (rule guarantee_keeps[of t u, OF _ _ _ g]) (use ok ap in simp_all)
  then show "named u \<and> stage_ok u (wr_stage u) w'" using ok(2) by simp
qed

definition turns_inv :: "node option \<Rightarrow> Path \<Rightarrow> writer list \<Rightarrow> 'x world_scheme \<Rightarrow> bool" where
  "turns_inv old p ts w \<longleftrightarrow> well_placed ts \<and> p \<in> wr_target ` set ts \<and> writers.all_ok ts w \<and> content_ok ts old p w"

lemma well_placed_apart:
  "well_placed ts \<Longrightarrow> i < length ts \<Longrightarrow> k < length ts \<Longrightarrow> i \<noteq> k \<Longrightarrow> apart (ts ! i) (ts ! k)"
  using well_placedD(2)[of ts "ts ! i" "ts ! k"]
  by (auto simp: well_placed_def apart_def distinct_conv_nth)

lemma turn_keeps_content:
  assumes wp: "well_placed ts" and i: "i < length ts" and p: "p \<in> wr_target ` set ts"
    and g: "\<And>q. guarantee (ts ! i) (wr_stage (ts ! i)) s w w' q"
    and own: "s = Finished (Ok ()) \<Longrightarrow> wr_stage (ts ! i) \<noteq> Finished (Ok ()) \<Longrightarrow>
      node_at (wr_target (ts ! i)) w' = Some (File (wr_body (ts ! i)))"
    and fin: "wr_stage (ts ! i) = Finished (Ok ()) \<Longrightarrow> s = Finished (Ok ())"
    and c: "content_ok ts old p w"
  shows "content_ok (ts[i := (ts ! i)\<lparr>wr_stage := s\<rparr>]) old p w'"
proof -
  let ?t = "ts ! i" and ?t' = "(ts ! i)\<lparr>wr_stage := s\<rparr>" and ?ts = "ts[i := (ts ! i)\<lparr>wr_stage := s\<rparr>]"
  have m: "?t \<in> set ts" "?t' \<in> set ?ts" using i by (simp_all add: set_update_memI)
  have up: "set ?ts \<subseteq> insert ?t' (set ts)" by (rule set_update_subset_insert)
  have stay: "u \<in> set ?ts" if "u \<in> set ts" "u \<noteq> ?t" for u
    using that i by (metis in_set_conv_nth length_list_update nth_list_update_neq)
  obtain u0 where "u0 \<in> set ts" "p = wr_target u0" using p by blast
  then have "p \<notin> temporaries (wr_target ?t)" "p \<notin> dirs_above (wr_target ?t)"
    using well_placedD(2)[OF wp _ m(1)] by blast+
  then have same: "node_at p w' = node_at p w" if "\<not> (p = wr_target ?t \<and> wr_stage ?t \<noteq> Finished (Ok ()) \<and> s = Finished (Ok ()))"
    using g[of p] that tmp_names_temporaries[of ?t] by (auto simp: guarantee_def)
  show ?thesis
  proof (cases "p = wr_target ?t \<and> wr_stage ?t \<noteq> Finished (Ok ()) \<and> s = Finished (Ok ())")
    case True
    then have "node_at p w' = Some (File (wr_body ?t'))" "wr_target ?t' = p" "wr_stage ?t' = Finished (Ok ())"
      using own by simp_all
    then show ?thesis unfolding content_ok_def using m(2) by blast
  next
    case False
    note eq = same[OF False]
    from c show ?thesis unfolding content_ok_def[of ts]
    proof
      assume old: "node_at p w = old \<and> (\<forall>t\<in>set ts. wr_target t = p \<longrightarrow> wr_stage t \<noteq> Finished (Ok ()))"
      then have "wr_stage u \<noteq> Finished (Ok ())" if "u \<in> set ?ts" "wr_target u = p" for u
        using that up False m(1) by auto
      then show ?thesis unfolding content_ok_def using eq old by blast
    next
      assume "\<exists>t\<in>set ts. wr_target t = p \<and> wr_stage t = Finished (Ok ()) \<and> node_at p w = Some (File (wr_body t))"
      then obtain u where u: "u \<in> set ts" "wr_target u = p" "wr_stage u = Finished (Ok ())"
        "node_at p w = Some (File (wr_body u))" by blast
      show ?thesis
      proof (cases "u = ?t")
        case True
        then have "wr_target ?t' = p" "wr_stage ?t' = Finished (Ok ())" "node_at p w' = Some (File (wr_body ?t'))"
          using u fin eq by simp_all
        then show ?thesis unfolding content_ok_def using m(2) by blast
      next
        case other: False
        show ?thesis unfolding content_ok_def using stay[OF u(1) other] u eq by metis
      qed
    qed
  qed
qed

lemma take_turns_inv:
  assumes "take_turns (ts, w) (ts', w')" and inv: "turns_inv old p ts w"
  shows "turns_inv old p ts' w' \<and> map frozen ts' = map frozen ts"
  using assms(1)
proof cases
  case (turn i t')
  have wp: "well_placed ts" and p: "p \<in> wr_target ` set ts" and all: "writers.all_ok ts w"
    using inv by (simp_all add: turns_inv_def)
  have ok: "named (ts ! i) \<and> stage_ok (ts ! i) (wr_stage (ts ! i)) w"
    using all turn(2) by (simp add: writers.all_ok_def)
  have frozen: "map frozen (ts[i := t']) = map frozen ts" by (rule writers.turn_statics[OF ok turn(2,3)])
  have same: "map (f \<circ> frozen) (ts[i := t']) = map (f \<circ> frozen) ts" for f :: "writer \<Rightarrow> 'b"
    using arg_cong[OF frozen, of "map f"] by simp
  have ids: "map writer_id (ts[i := t']) = map writer_id ts" using same[of writer_id] by (simp add: comp_def)
  have targets: "map wr_target (ts[i := t']) = map wr_target ts" using same[of wr_target] by (simp add: comp_def)
  obtain s where t': "t' = (ts ! i)\<lparr>wr_stage := s\<rparr>" and g: "\<And>q. guarantee (ts ! i) (wr_stage (ts ! i)) s w w' q"
    and own: "s = Finished (Ok ()) \<Longrightarrow> wr_stage (ts ! i) \<noteq> Finished (Ok ()) \<Longrightarrow>
      node_at (wr_target (ts ! i)) w' = Some (File (wr_body (ts ! i)))"
    and fin: "wr_stage (ts ! i) = Finished (Ok ()) \<Longrightarrow> s = Finished (Ok ())"
    using ok writer_step_sound[OF turn(3)] by blast
  have "content_ok (ts[i := t']) old p w'"
    unfolding t' using inv by (intro turn_keeps_content[OF wp turn(2) p g own fin]) (simp_all add: turns_inv_def)
  moreover have "well_placed (ts[i := t'])" using wp unfolding well_placed_def ids targets .
  moreover have "p \<in> wr_target ` set (ts[i := t'])" using p targets by (metis set_map)
  ultimately show ?thesis
    using writers.turn_ok[OF all turn(2,3)] frozen turn(1) by (simp add: turns_inv_def)
next
  case others
  have kept: "node_at q w' = node_at q w" if "t \<in> set ts" "q = wr_target t \<or> q \<in> tmp_names t" for q t
    using others(2) that tmp_names_temporaries[of t] by blast
  have "stage_ok t (wr_stage t) w'" if t: "t \<in> set ts" for t
  proof (rule stage_ok_stable)
    show "stage_ok t (wr_stage t) w" using inv t by (simp add: turns_inv_def writers.all_ok_def)
  qed (rule kept[OF t], blast)
  then have "writers.all_ok ts w'" using inv by (simp add: turns_inv_def writers.all_ok_def)
  moreover have "p \<in> wr_target ` set ts" using inv by (simp add: turns_inv_def)
  then have "node_at p w' = node_at p w" using kept by blast
  then have "content_ok ts old p w' = content_ok ts old p w" by (simp only: content_ok_def)
  ultimately show ?thesis using inv others(1) by (simp add: turns_inv_def)
qed

text \<open>
  C9. Concurrent writers never tear a file. Any number of writers with different process or thread
  numbers, each started at a target of its choice, take turns in any order, one system call at a
  time, with any faults, and with other programs in between that leave the targets and temporaries
  alone. Then at every moment each target holds its old content, and no write to it has succeeded
  yet, or it holds the whole body of a write to it that has succeeded.
\<close>

theorem concurrent_writes:
  assumes "distinct (map (\<lambda>t. (wr_pid t, short_tid (wr_tid t))) ts)"
    and "\<forall>p\<in>wr_target ` set ts. file_name p \<noteq> None
      \<and> (\<forall>q\<in>wr_target ` set ts. p \<notin> temporaries q \<and> p \<notin> dirs_above q)"
    and "\<forall>t\<in>set ts. wr_stage t = Preparing (dirs_of (wr_target t))"
    and "rtranclp take_turns (ts, w) (ts', w')" and "p \<in> wr_target ` set ts"
  shows "map (\<lambda>t. (wr_target t, wr_body t)) ts' = map (\<lambda>t. (wr_target t, wr_body t)) ts
    \<and> ((node_at p w' = node_at p w \<and> (\<forall>t\<in>set ts'. wr_target t = p \<longrightarrow> wr_stage t \<noteq> Finished (Ok ())))
      \<or> (\<exists>t\<in>set ts'. wr_target t = p \<and> wr_stage t = Finished (Ok ()) \<and> node_at p w' = Some (File (wr_body t))))"
proof -
  have wp: "well_placed ts"
    using assms(1,2) by (simp add: well_placed_def placed_def writer_id_def[abs_def])
  have "stage_ok t (wr_stage t) w" if "t \<in> set ts" for t
    using assms(3) that start_ok[of "wr_target t" "wr_body t" "wr_pid t" "wr_tid t" w]
    by (simp add: start_write_def stage_ok_def)
  then have "writers.all_ok ts w"
    using well_placedD(1)[OF wp] well_placed_apart[OF wp] by (simp add: writers.all_ok_def)
  moreover have "content_ok ts (node_at p w) p w" using assms(3) by (auto simp: content_ok_def)
  ultimately have start: "turns_inv (node_at p w) p ts w" using wp assms(5) by (simp add: turns_inv_def)
  from assms(4) have "turns_inv (node_at p w) p ts' w' \<and> map frozen ts' = map frozen ts"
  proof (induction rule: rtranclp_induct2)
    case refl
    then show ?case using start by simp
  next
    case (step ts1 w1 ts2 w2)
    then show ?case using take_turns_inv by fastforce
  qed
  moreover from this have "map frozen ts' = map frozen ts" by (rule conjunct2)
  from arg_cong[OF this, of "map (\<lambda>t. (wr_target t, wr_body t))"]
  have "map (\<lambda>t. (wr_target t, wr_body t)) ts' = map (\<lambda>t. (wr_target t, wr_body t)) ts" by (simp add: comp_def)
  ultimately show ?thesis by (simp add: turns_inv_def content_ok_def comp_def)
qed

definition two_writers :: "writer list" where
  "two_writers = [start_write (path_of ''/d/x.toml'') ''first'' 42 ''ThreadId(7)'',
     start_write (path_of ''/d/x.toml'') ''second'' 43 ''ThreadId(7)'']"

fun run_turns :: "nat list \<Rightarrow> writer list \<times> 'x world_scheme \<Rightarrow> writer list \<times> 'x world_scheme" where
  "run_turns [] c = c"
| "run_turns (i # is) (ts, w) = (case writer_step (ts ! i) w of (t', w') \<Rightarrow> run_turns is (ts[i := t'], w'))"

lemma run_turns_reachable:
  "\<forall>i\<in>set is. i < length (fst c) \<Longrightarrow> rtranclp take_turns c (run_turns is c)"
proof (induction "is" arbitrary: c)
  case (Cons i "is")
  obtain ts w where c: "c = (ts, w)" by fastforce
  obtain t' w' where s: "writer_step (ts ! i) w = (t', w')" by fastforce
  have "take_turns (ts, w) (ts[i := t'], w')" using Cons.prems s c by (intro take_turns.turn) simp_all
  moreover have "rtranclp take_turns (ts[i := t'], w') (run_turns is (ts[i := t'], w'))"
    using Cons.prems c by (intro Cons.IH) simp
  ultimately show ?case using s c by (simp add: converse_rtranclp_into_rtranclp)
qed simp

definition calm_world :: world where
  "calm_world = quiet_world [(path_of ''/d'', Dir), (path_of ''/d/x.toml'', File ''old'')]"

lemma two_writers_interleaved:
  "map wr_stage (fst (run_turns [0, 1, 0, 1, 0, 1, 0, 1, 0, 1, 1, 0, 1, 0, 0, 1] (two_writers, calm_world)))
    = [Finished (Ok ()), Finished (Ok ())]"
  by code_simp

lemma concurrent_writes_witness:
  "\<exists>ts w. rtranclp take_turns (two_writers, calm_world) (ts, w)
    \<and> map wr_stage ts = [Finished (Ok ()), Finished (Ok ())]
    \<and> node_at (path_of ''/d/x.toml'') w \<in> {Some (File ''first''), Some (File ''second'')}"
proof -
  let ?run = "run_turns [0, 1, 0, 1, 0, 1, 0, 1, 0, 1, 1, 0, 1, 0, 0, 1] (two_writers, calm_world)"
  let ?p = "path_of ''/d/x.toml''"
  obtain ts w where run: "?run = (ts, w)" by fastforce
  have two: "two_writers = [start_write ?p ''first'' 42 ''ThreadId(7)'', start_write ?p ''second'' 43 ''ThreadId(7)'']"
    by (simp add: two_writers_def)
  have reach: "rtranclp take_turns (two_writers, calm_world) (ts, w)"
    unfolding run[symmetric] by (rule run_turns_reachable) (simp add: two_writers_def)
  have ends: "map wr_stage ts = [Finished (Ok ()), Finished (Ok ())]" using two_writers_interleaved run by simp
  have p: "file_name ?p \<noteq> None" by code_simp
  have "?p \<notin> temporaries ?p" using target_not_temporary[OF p] .
  then have away: "\<forall>p\<in>wr_target ` set two_writers. file_name p \<noteq> None
      \<and> (\<forall>q\<in>wr_target ` set two_writers. p \<notin> temporaries q \<and> p \<notin> dirs_above q)"
    using p by (simp add: two start_write_def)
  have ids: "distinct (map (\<lambda>t. (wr_pid t, short_tid (wr_tid t))) two_writers)"
    by (simp add: two start_write_def)
  have begins: "\<forall>t\<in>set two_writers. wr_stage t = Preparing (dirs_of (wr_target t))" by (simp add: two start_write_def)
  have "?p \<in> wr_target ` set two_writers" by (simp add: two start_write_def)
  note all = concurrent_writes[OF ids away begins reach this]
  obtain a b where ts: "ts = [a, b]" using ends by (cases ts; cases "tl ts") auto
  have "wr_body a = ''first'' \<and> wr_body b = ''second'' \<and> wr_target a = ?p" using all by (simp add: ts two start_write_def)
  then show ?thesis using all reach ends by (intro exI[of _ ts] exI[of _ w]) (auto simp: ts)
qed

end
