(* ===== verification/Overlap.thy ===== *)
theory Overlap
  imports Liveness
begin

section \<open>Ticks that overlap with other commands (runner/flow.rs)\<close>

text \<open>
  Nothing locks a flow. Between the reads of a tick and its writes lies the query of SLURM, and
  other commands may run meanwhile. Here the tick is cut where the query has returned; the world
  in which the second half runs is arbitrary. What it writes depends on what the first half has
  read alone.
\<close>

type_synonym tick_plan = "JobId list \<times> (JobId, JobRun) btree \<times> (u64 \<rightharpoonup> JobStatus)"

definition tick_begin :: "querier \<Rightarrow> crates \<Rightarrow> PathResolver \<Rightarrow> FlowRun \<Rightarrow> ('x, tick_plan) io" where
  "tick_begin q cr r fr =
     act_bind (act_lift (run_order fr)) (\<lambda>order.
     act_bind (tick_collect cr r fr order) (\<lambda>current.
     act_bind (act_lift (query_slurm q (jobids_to_query current))) (\<lambda>statuses.
     ret (order, current, statuses))))"

definition tick_finish :: "crates \<Rightarrow> PathResolver \<Rightarrow> FlowRun \<Rightarrow> tick_plan \<Rightarrow> ('x, TickResult) io" where
  "tick_finish cr r fr pl =
     (case pl of (order, current, statuses) \<Rightarrow>
        act_bind (act_foldM (tick_one cr r fr statuses) (current, bt_empty) order) (\<lambda>st.
        ret \<lparr>transitions = snd st\<rparr>))"

lemma tick_halves: "tick q cr r fr = act_bind (tick_begin q cr r fr) (tick_finish cr r fr)"
  unfolding tick_def tick_begin_def tick_finish_def
  by (auto simp: act_bind_def fun_eq_iff split: prod.splits sum.splits)

subsection \<open>What the second half writes\<close>

definition overwritten ::
  "crates \<Rightarrow> PathResolver \<Rightarrow> Uuid \<Rightarrow> JobRun option \<Rightarrow> Decision option \<Rightarrow> JobId
    \<Rightarrow> 'x world_scheme \<Rightarrow> 'x world_scheme \<Rightarrow> bool" where
  \<comment> \<open>a decision that moves the cached run replaces the status, any other keeps it\<close>
  "overwritten cr r u cached d j w w' \<longleftrightarrow>
     (case d of
        Some e \<Rightarrow> if e = NoChange then status_at cr r u w' j = status_at cr r u w j
                  else \<exists>run now. cached = Some run \<and> status_at cr r u w' j = Some (updated_run run e now)
      | None \<Rightarrow> status_at cr r u w' j = status_at cr r u w j)"

lemma tick_one_overwrites:
  assumes t: "tick_one cr r fr statuses (cur, decided) j w = (Ok (cur1, decided1), w1)"
    and h: "restores cr" "plain_uuid (flow_uuid fr)" "plain_id j" and fresh: "bt_get decided j = None"
  shows "overwritten cr r (flow_uuid fr) (bt_get cur j) (bt_get decided1 j) j w w1
    \<and> (\<forall>k. k \<noteq> j \<longrightarrow> bt_get cur1 k = bt_get cur k \<and> bt_get decided1 k = bt_get decided k)"
proof (cases "bt_get cur j")
  case None
  then show ?thesis using t fresh by (simp add: tick_one_def overwritten_def)
next
  case (Some run)
  let ?d = "tick_decide fr statuses cur j run"
  consider "is_terminal (lifecycle run)" | "\<not> is_terminal (lifecycle run)" "?d = NoChange"
    | "\<not> is_terminal (lifecycle run)" "?d \<noteq> NoChange" by blast
  then show ?thesis
  proof cases
    case 3
    then have "act_bind clock_now (\<lambda>now. act_bind
        (write_job_run cr (status_file r (flow_uuid fr) j) (updated_run run ?d now))
        (\<lambda>_. ret (bt_insert j (updated_run run ?d now) cur, bt_insert j ?d decided))) w
        = (Ok (cur1, decided1), w1)"
      using t Some by (simp add: tick_one_def Let_def)
    then obtain now w2 where
      wr: "write_job_run cr (status_file r (flow_uuid fr) j) (updated_run run ?d now) w2 = (Ok (), w1)"
      and o: "cur1 = bt_insert j (updated_run run ?d now) cur" "decided1 = bt_insert j ?d decided"
      by (auto simp: io_simps)
    have "status_at cr r (flow_uuid fr) w1 j = Some (updated_run run ?d now)"
      using write_status_any[OF wr h] by simp
    then show ?thesis using 3 Some o by (auto simp: overwritten_def)
  qed (use t Some fresh in \<open>auto simp: tick_one_def overwritten_def\<close>)
qed

lemma tick_loop_overwrites:
  assumes "act_foldM (tick_one cr r fr statuses) (cur, decided) xs w = (Ok (cur', decided'), w')"
    and h: "restores cr" "plain_uuid (flow_uuid fr)" and pl: "\<And>k. k \<in> set xs \<Longrightarrow> plain_id k"
    and "distinct xs" and "\<And>k. k \<in> set xs \<Longrightarrow> bt_get decided k = None"
  shows "(\<forall>j\<in>set xs. overwritten cr r (flow_uuid fr) (bt_get cur j) (bt_get decided' j) j w w')
    \<and> (\<forall>k. k \<notin> set xs \<longrightarrow> bt_get decided' k = bt_get decided k)"
  using assms(1,4-6)
proof (induction xs arbitrary: cur decided w)
  case Nil
  then show ?case by (simp add: io_simps)
next
  case (Cons j xs)
  let ?u = "flow_uuid fr"
  from Cons.prems(1) obtain cur1 decided1 w1 where
    s: "tick_one cr r fr statuses (cur, decided) j w = (Ok (cur1, decided1), w1)"
    and l: "act_foldM (tick_one cr r fr statuses) (cur1, decided1) xs w1 = (Ok (cur', decided'), w')"
    by (auto simp: io_simps)
  have pj: "plain_id j" and d: "distinct xs" "j \<notin> set xs" using Cons.prems(2,3) by auto
  have one: "overwritten cr r ?u (bt_get cur j) (bt_get decided1 j) j w w1"
    "\<And>k. k \<noteq> j \<Longrightarrow> bt_get cur1 k = bt_get cur k \<and> bt_get decided1 k = bt_get decided k"
    using tick_one_overwrites[OF s h pj] Cons.prems(4) by auto
  have fresh: "bt_get decided1 k = None" if "k \<in> set xs" for k
    using one(2)[of k] Cons.prems(4)[of k] that d(2) by auto
  have IH: "(\<forall>j\<in>set xs. overwritten cr r ?u (bt_get cur1 j) (bt_get decided' j) j w1 w')
    \<and> (\<forall>k. k \<notin> set xs \<longrightarrow> bt_get decided' k = bt_get decided1 k)"
    by (rule Cons.IH[OF l _ d(1) fresh]) (use Cons.prems(2) in auto)
  have "status_at cr r ?u w' j = status_at cr r ?u w1 j"
    by (rule tick_loop_other[OF l h(2) pj]) (use Cons.prems(2) d in auto)
  moreover have "bt_get decided' j = bt_get decided1 j" using IH d(2) by simp
  ultimately have hd: "overwritten cr r ?u (bt_get cur j) (bt_get decided' j) j w w'"
    using one(1) by (auto simp: overwritten_def split: option.splits if_splits)
  have tl: "overwritten cr r ?u (bt_get cur k) (bt_get decided' k) k w w'" if k: "k \<in> set xs" for k
  proof -
    have "k \<noteq> j" using k d(2) by auto
    then have "bt_get cur1 k = bt_get cur k" using one(2) by blast
    moreover have "status_at cr r ?u w1 k = status_at cr r ?u w k"
      by (rule tick_one_other[OF s h(2)]) (use Cons.prems(2) k pj \<open>k \<noteq> j\<close> in auto)
    moreover have "overwritten cr r ?u (bt_get cur1 k) (bt_get decided' k) k w1 w'" using IH k by blast
    ultimately show ?thesis by (simp only: overwritten_def)
  qed
  have "bt_get decided' k = bt_get decided k" if "k \<notin> set (j # xs)" for k using IH one(2)[of k] that by auto
  then show ?case using hd tl by simp
qed

text \<open>
  C21. A tick that overlaps with other commands. Whatever has happened to the files between its
  reads and its writes, a successful tick replaces the status of every job it moves by the moved
  form of the run it read at its start, and leaves the others as they are by then. So it can
  replace a status written meanwhile, a terminal one included.
\<close>

theorem overlapping_tick:
  assumes "plain_name (uuid_str (flow_uuid fr))"
    and "\<forall>k\<in>set (bt_keys (jobs (run_flow fr))). plain_name (jid k)"
    and "\<forall>run t. toml_ser_run cr run = Ok t \<longrightarrow> toml_de_run cr t = Ok run"
    and "tick_begin q cr r fr w = (Ok plan, w1)" and "tick_finish cr r fr plan w2 = (Ok res, w3)"
    and "j \<in> set (bt_keys (jobs (run_flow fr)))"
  shows "case bt_get (transitions res) j of
      Some d \<Rightarrow>
        if d = NoChange then status_at cr r (flow_uuid fr) w3 j = status_at cr r (flow_uuid fr) w2 j
        else \<exists>run now. status_at cr r (flow_uuid fr) w j = Some run
          \<and> status_at cr r (flow_uuid fr) w3 j = Some (updated_run run d now)
    | None \<Rightarrow> status_at cr r (flow_uuid fr) w3 j = status_at cr r (flow_uuid fr) w2 j"
proof -
  let ?K = "set (bt_keys (jobs (run_flow fr)))"
  have h: "restores cr" "plain_uuid (flow_uuid fr)" and pl: "\<And>k. k \<in> ?K \<Longrightarrow> plain_id k"
    using assms(1-3) by (simp_all add: restores_def plain_uuid_def plain_id_def)
  from assms(4) obtain order cur wc statuses where o: "run_order fr = Ok order"
    and c: "tick_collect cr r fr order w = (Ok cur, wc)" and p: "plan = (order, cur, statuses)"
    by (auto simp: tick_begin_def io_simps)
  have K: "set order = ?K" and d: "distinct order" using run_order_sound[OF o] by auto
  from assms(5) obtain cur' where l: "act_foldM (tick_one cr r fr statuses) (cur, bt_empty) order w2
      = (Ok (cur', transitions res), w3)"
    unfolding p by (auto simp: tick_finish_def io_simps)
  have "overwritten cr r (flow_uuid fr) (bt_get cur j) (bt_get (transitions res) j) j w2 w3"
    using tick_loop_overwrites[OF l h _ d] pl K assms(6) by simp
  then show ?thesis
    using collect_sound[OF c] by (fastforce simp: overwritten_def split: option.splits if_splits)
qed

definition running_answer :: "u64 \<rightharpoonup> JobStatus" where
  "running_answer = (\<lambda>_. Some \<lparr>js_state = JsRunning, js_reason = []\<rparr>)"

lemma overlapping_tick_witness:
  \<comment> \<open>the tick reads two queued jobs; they have succeeded when it writes; it writes running\<close>
  "\<exists>plan w1 res w3. tick_begin (\<lambda>_. Ok running_answer) sample_crates sample_root sample_run (status_world Queued Queued) = (Ok plan, w1)
    \<and> tick_finish sample_crates sample_root sample_run plan (status_world Success Success) = (Ok res, w3)
    \<and> life_at sample_crates sample_root sample_uuid (status_world Success Success) (JobId ''a'') = Some Success
    \<and> life_at sample_crates sample_root sample_uuid w3 (JobId ''a'') = Some Running"
proof -
  let ?w = "status_world Queued Queued" and ?w2 = "status_world Success Success"
  let ?cur = "bt_insert (JobId ''b'') (run_with Queued 2) (bt_insert (JobId ''a'') (run_with Queued 1) bt_empty)"
  let ?order = "[JobId ''a'', JobId ''b'']"
  have c: "tick_collect_one sample_crates sample_root sample_run cur (JobId ''a'') (advance n ?w)
      = (Ok (bt_insert (JobId ''a'') (run_with Queued 1) cur), advance (n + 3) ?w)"
    "tick_collect_one sample_crates sample_root sample_run cur (JobId ''b'') (advance n ?w)
      = (Ok (bt_insert (JobId ''b'') (run_with Queued 2) cur), advance (n + 3) ?w)" for n cur
    using run_text_length[of Queued]
    by (subst settled_collect[OF _ _ refl]; simp add: status_world_nodes DEFAULT_MAX_TOML_SIZE_def)+
  have w0: "?w = advance 0 ?w" by (simp add: advance_def)
  have col: "tick_collect sample_crates sample_root sample_run ?order ?w = (Ok ?cur, advance 6 ?w)"
    by (subst w0) (simp add: tick_collect_def act_bind_def c)
  have "jobids_to_query ?cur = [1, 2]" by code_simp
  then have b: "tick_begin (\<lambda>_. Ok running_answer) sample_crates sample_root sample_run ?w
      = (Ok (?order, ?cur, running_answer), advance 6 ?w)"
    by (simp add: tick_begin_def sample_order act_bind_def act_lift_def col query_slurm_def)
  obtain st w3 where l: "act_foldM (tick_one sample_crates sample_root sample_run running_answer) (?cur, bt_empty) ?order ?w2 = (Ok st, w3)"
    using tick_loop_succeeds[OF status_world_nodes(3)[of Success Success] sample_plain(1), of ?order sample_root sample_crates]
      status_world_ready sample_serialises by fastforce
  then have f: "tick_finish sample_crates sample_root sample_run (?order, ?cur, running_answer) ?w2 = (Ok \<lparr>transitions = snd st\<rparr>, w3)"
    by (simp add: tick_finish_def act_bind_def)
  let ?d = "Transition Queued Running (Some \<lparr>js_state = JsRunning, js_reason = []\<rparr>)"
  from l obtain st1 v1 where one: "tick_one sample_crates sample_root sample_run running_answer (?cur, bt_empty) (JobId ''a'') ?w2 = (Ok st1, v1)"
    and rest: "act_foldM (tick_one sample_crates sample_root sample_run running_answer) st1 [JobId ''b''] v1 = (Ok st, w3)"
    by (auto simp: io_simps)
  have g: "bt_get ?cur (JobId ''a'') = Some (run_with Queued 1)" by code_simp
  have nt: "\<not> is_terminal (lifecycle (run_with Queued 1))" by (simp add: run_with_def)
  have dec: "tick_decide sample_run running_answer ?cur (JobId ''a'') (run_with Queued 1) = ?d" by code_simp
  have "bt_get (snd st1) (JobId ''a'') = Some ?d \<and> bt_get (snd st1) (JobId ''b'') = None"
    using one by (auto simp: tick_one_def g dec nt Let_def io_simps bt_get_insert)
  then have "bt_get (snd st) (JobId ''a'') = Some ?d"
    using tick_loop_overwrites[of sample_crates sample_root sample_run running_answer "fst st1" "snd st1" "[JobId ''b'']" v1 "fst st" "snd st" w3]
      rest sample_restores sample_plain by simp
  moreover have "JobId ''a'' \<in> set (bt_keys (jobs (run_flow sample_run)))" by (simp add: sample_keys)
  ultimately have "life_at sample_crates sample_root sample_uuid w3 (JobId ''a'') = Some Running"
    using overlapping_tick[OF sample_hyps(1-3) b f, of "JobId ''a''"]
    by (auto simp: life_at_def updated_run_def apply_decision_def)
  then show ?thesis using b f sample_life(1)[of Success Success] by blast
qed

end
