(* ===== verification/View.thy ===== *)
theory View
  imports Reading
begin

section \<open>The view of one job (view.rs)\<close>

text \<open>
  \<open>CalcView\<close>: the paths of a job, its status, and the files in its directory.
\<close>

record CalcView =
  cv_flow :: JobFlow
  cv_job_id :: JobId
  cv_resolver :: PathResolver

definition calc_view_new :: "JobFlow \<Rightarrow> JobId \<Rightarrow> PathResolver \<Rightarrow> JobManagerError + CalcView" where
  "calc_view_new flow j r =
     (if \<not> bt_contains (jobs flow) j then Err (JobNotFound (flow_id flow) j)
      else Ok \<lparr>cv_flow = flow, cv_job_id = j, cv_resolver = r\<rparr>)"

definition cv_job :: "CalcView \<Rightarrow> string + Job" where
  \<comment> \<open>the error is the message of the panic\<close>
  "cv_job v = ok_or (bt_get (jobs (cv_flow v)) (cv_job_id v)) ''constructor enforces presence''"

definition cv_status_path :: "CalcView \<Rightarrow> Path" where
  "cv_status_path v = status_file (cv_resolver v) (flow_id (cv_flow v)) (cv_job_id v)"

definition cv_job_dir :: "CalcView \<Rightarrow> Path" where
  "cv_job_dir v = job_dir (cv_resolver v) (flow_id (cv_flow v)) (cv_job_id v)"

definition cv_status :: "crates \<Rightarrow> CalcView \<Rightarrow> ('x, JobRun) io" where
  "cv_status cr v = read_job_run cr (cv_status_path v)"

definition hidden :: "Path \<Rightarrow> bool" where
  "hidden p = (case file_name p of Some n \<Rightarrow> starts_with n ''.'' | None \<Rightarrow> False)"

definition cv_files :: "CalcView \<Rightarrow> ('x, Path list) io" where
  "cv_files v =
     (let d = cv_job_dir v
      in act_bind (path_exists d) (\<lambda>ex.
         if \<not> ex then ret []
         else act_bind (act_map_err (Io d) (read_dir d)) (\<lambda>entries.
              act_bind (act_foldM (\<lambda>out entry.
                 act_bind (act_try (dir_entry entry)) (\<lambda>e.
                 case e of
                   Err _ \<Rightarrow> ret out
                 | Ok p \<Rightarrow> act_bind (path_is_file p) (\<lambda>f. ret (if f \<and> \<not> hidden p then out @ [p] else out))))
                 [] entries) (\<lambda>out. ret (sort out)))))"

lemma cv_files_steady [steady_intros]: "steady (cv_files v)"
  unfolding cv_files_def Let_def
  by (intro steady_bind steady_if steady_foldM) (auto split: sum.split intro!: steady_intros)

lemma obeys_cv_files [inv_intros]: "obeys (changes_only S) (cv_files v)"
  unfolding cv_files_def Let_def dir_entry_def
  by (intro frame.obeys_bind frame.obeys_if frame.obeys_foldM)
    (auto split: sum.split intro!: frame.obeys_bind frame.obeys_ret frame.obeys_try frame.obeys_map_err inv_intros
      obeys_syscall[of S "\<lambda>w. (Ok p, w)" for p] simp: frame.R_refl)

lemma distinct_children: "distinct (children p w)"
  by (simp add: children_def)

lemma file_in_children:
  "node_at q w = Some (File s) \<Longrightarrow> path_parent q = Some p \<Longrightarrow> q \<in> set (children p w)"
  by (auto simp: children_def node_at_def image_iff dest!: map_of_SomeD split: if_splits) force

lemma in_children: "q \<in> set (children p w) \<Longrightarrow> path_parent q = Some p"
  by (simp add: children_def)

lemma val_cv_files:
  assumes nf: "no_faults w" and d: "node_at (cv_job_dir v) w = Some Dir"
  shows "val (cv_files v) w =
    Ok (sort (filter (\<lambda>p. is_file_node (node_at p w) \<and> \<not> hidden p) (children (cv_job_dir v) w)))"
proof -
  let ?f = "\<lambda>out entry. act_bind (act_try (dir_entry entry)) (\<lambda>e.
      case e of
        Err _ \<Rightarrow> ret out
      | Ok p \<Rightarrow> act_bind (path_is_file p) (\<lambda>f. (ret (if f \<and> \<not> hidden p then out @ [p] else out) :: ('x, _) io)))"
  let ?g = "\<lambda>p. if is_file_node (node_at p w) \<and> \<not> hidden p then [p] else []"
  have st0: "steady (case e of Err _ \<Rightarrow> ret out | Ok p \<Rightarrow> act_bind (path_is_file p)
      (\<lambda>f. (ret (if f \<and> \<not> hidden p then out @ [p] else out) :: ('x, _) io)))" for e :: "IoError + Path" and out
    by (auto split: sum.split intro!: steady_intros)
  then have st: "steady (?f out e)" for out e by (intro steady_intros)
  have "val (?f out e) w = Ok (out @ ?g e)" for out e
    unfolding val_bind[OF steady_try[OF dir_entry_steady] st0 nf]
    using nf by (simp add: val_simps steady_intros)
  from val_foldM_append[OF st this nf, where acc = "[]"]
  have "val (act_foldM ?f [] es) w = Ok (concat (map ?g es))" for es by simp
  moreover have "concat (map ?g es) = filter (\<lambda>p. is_file_node (node_at p w) \<and> \<not> hidden p) es" for es
    by (induction es) simp_all
  ultimately have loop: "val (act_foldM ?f [] es) w = Ok (filter (\<lambda>p. is_file_node (node_at p w) \<and> \<not> hidden p) es)" for es
    by simp
  let ?d = "cv_job_dir v"
  let ?k = "\<lambda>entries. act_bind (act_foldM ?f [] entries) (\<lambda>out. ret (sort out))"
  have k: "steady (?k es)" for es by (intro steady_bind steady_foldM st steady_ret)
  have vk: "val (?k es) w = Ok (sort (filter (\<lambda>p. is_file_node (node_at p w) \<and> \<not> hidden p) es))" for es
    unfolding val_bind[OF steady_foldM[OF st] steady_ret nf] loop by (simp add: val_basic)
  have l: "steady (act_bind (act_map_err (Io ?d) (read_dir ?d)) ?k)"
    by (intro steady_bind steady_intros k)
  have "val (act_bind (act_map_err (Io ?d) (read_dir ?d)) ?k) w
      = Ok (sort (filter (\<lambda>p. is_file_node (node_at p w) \<and> \<not> hidden p) (children ?d w)))"
    unfolding val_bind[OF steady_map_err[OF read_dir_steady] k nf]
    using d by (simp add: val_basic val_read_dir[OF nf] listing_of_def vk)
  moreover have m: "steady (if \<not> ex then ret [] else act_bind (act_map_err (Io ?d) (read_dir ?d)) ?k)" for ex
    by (intro steady_if steady_ret l)
  ultimately show ?thesis
    unfolding cv_files_def Let_def val_bind[OF path_exists_steady m nf]
    using d by (simp add: val_path_exists[OF nf])
qed

text \<open>
  A view exists exactly for the jobs of the flow, and then the access to its job never
  panics.
\<close>

theorem calc_view_job:
  "calc_view_new flow j r =
    (if j \<in> set (bt_keys (jobs flow)) then Ok \<lparr>cv_flow = flow, cv_job_id = j, cv_resolver = r\<rparr>
     else Err (JobNotFound (flow_id flow) j))
   \<and> is_ok (calc_view_new flow j r) = is_ok (cv_job \<lparr>cv_flow = flow, cv_job_id = j, cv_resolver = r\<rparr>)"
  by (cases "bt_get (jobs flow) j") (simp_all add: calc_view_new_def cv_job_def bt_contains_iff bt_in_keys_get)

text \<open>
  C10. With no failing system call the files of a view are, in path order and without
  repetition, exactly the regular files directly in the job's directory whose name does not start
  with a dot. The status file is one of them: its name has no dot, although the comment of the
  function says that it does not appear.
\<close>

theorem view_files:
  assumes "\<forall>n. w_fault w n = None" and "node_at (cv_job_dir v) w = Some Dir"
  shows "\<exists>out. fst (cv_files v w) = Ok out \<and> sorted out \<and> distinct out
    \<and> set out = {p. path_parent p = Some (cv_job_dir v) \<and> (\<exists>s. node_at p w = Some (File s)) \<and> \<not> hidden p}
    \<and> (plain_name (uuid_str (flow_id (cv_flow v))) \<and> plain_name (jid (cv_job_id v))
        \<longrightarrow> (cv_status_path v \<in> set out \<longleftrightarrow> is_file_node (node_at (cv_status_path v) w)))"
proof -
  have nf: "no_faults w" using assms(1) by (simp add: no_faults_def)
  let ?P = "\<lambda>p. is_file_node (node_at p w) \<and> \<not> hidden p"
  let ?out = "sort (filter ?P (children (cv_job_dir v) w))"
  have fn: "is_file_node n \<longleftrightarrow> (\<exists>s. n = Some (File s))" for n
    by (auto simp: is_file_node_def split: option.splits node.splits)
  have set: "set ?out = {p. path_parent p = Some (cv_job_dir v) \<and> (\<exists>s. node_at p w = Some (File s)) \<and> \<not> hidden p}"
    using file_in_children in_children by (auto simp: fn)
  have "cv_status_path v \<in> set ?out \<longleftrightarrow> is_file_node (node_at (cv_status_path v) w)"
    if p: "plain_name (uuid_str (flow_id (cv_flow v)))" "plain_name (jid (cv_job_id v))"
  proof -
    have u: "plain_uuid (flow_id (cv_flow v))" and j: "plain_id (cv_job_id v)"
      using p by (simp_all add: plain_uuid_def plain_id_def)
    have s: "cv_status_path v = cv_job_dir v @ [Normal ''status.toml'']"
      using u j by (simp add: cv_status_path_def cv_job_dir_def path_simps)
    then have "\<not> hidden (cv_status_path v)" by (simp add: hidden_def starts_with_iff)
    then show ?thesis unfolding set s by (simp add: fn)
  qed
  moreover have "fst (cv_files v w) = Ok ?out" using val_cv_files[OF nf assms(2)] by (simp add: val_def)
  moreover have "sorted ?out \<and> distinct ?out" by (simp add: distinct_children)
  ultimately show ?thesis using set by blast
qed

definition sample_view :: CalcView where
  "sample_view = \<lparr>cv_flow = sample_flow, cv_job_id = JobId ''a'', cv_resolver = sample_root\<rparr>"

lemma view_files_witness:
  "\<exists>out. fst (cv_files sample_view (quiet_world [(cv_job_dir sample_view, Dir),
      (cv_status_path sample_view, File queued_text),
      (cv_job_dir sample_view @ [Normal ''.batch.tmp''], File [])])) = Ok out
    \<and> cv_status_path sample_view \<in> set out \<and> cv_job_dir sample_view @ [Normal ''.batch.tmp''] \<notin> set out"
proof -
  let ?w = "quiet_world [(cv_job_dir sample_view, Dir), (cv_status_path sample_view, File queued_text),
      (cv_job_dir sample_view @ [Normal ''.batch.tmp''], File [])]"
  have p: "cv_job_dir sample_view = [RootDir, Normal ''data'', Normal (uuid_str sample_uuid), Normal ''.jm'', Normal ''a'']"
    "cv_status_path sample_view = cv_job_dir sample_view @ [Normal ''status.toml'']" by code_simp+
  have n: "plain_name (uuid_str (flow_id (cv_flow sample_view)))" "plain_name (jid (cv_job_id sample_view))"
    by code_simp+
  have d: "node_at (cv_job_dir sample_view) ?w = Some Dir" by (simp add: node_at_def quiet_world_def p(1))
  have s: "is_file_node (node_at (cv_status_path sample_view) ?w)"
    by (simp add: node_at_def quiet_world_def p is_file_node_def)
  have "\<forall>n. w_fault ?w n = None" by (simp add: quiet_world_def)
  from view_files[OF this d] obtain out where "fst (cv_files sample_view ?w) = Ok out"
    "set out = {p. path_parent p = Some (cv_job_dir sample_view) \<and> (\<exists>s. node_at p ?w = Some (File s)) \<and> \<not> hidden p}"
    "cv_status_path sample_view \<in> set out" using n s by blast
  then show ?thesis by (auto simp: hidden_def starts_with_iff)
qed

end
