(* ===== verification/DryRun.thy ===== *)
theory DryRun
  imports Reading Liveness
begin

section \<open>What a dry run returns\<close>

text \<open>
  A dry run does not submit, but the map it returns is not empty: it holds the jobids that the
  status files of earlier submissions record, because \<open>submit\<close> preseeds the map before it looks at
  the flag. The jobids are exactly those of the readable status files of the flow's jobs.
\<close>

definition recorded_jobid :: "crates \<Rightarrow> Path \<Rightarrow> 'x world_scheme \<Rightarrow> u64 option" where
  "recorded_jobid cr path w =
     (case node_at path w of
        Some (File t) \<Rightarrow>
          if length t \<le> unat (max_toml_size w) \<and> utf8 t
          then (case toml_de_run cr t of Ok run \<Rightarrow> slurm_jobid run | Err _ \<Rightarrow> None) else None
      | _ \<Rightarrow> None)"

lemma preseed_one_steady: "steady (preseed_one cr r fr sub j)"
  unfolding preseed_one_def Let_def by (intro steady_intros)

lemma val_preseed_one:
  assumes nf: "no_faults w"
  shows "val (preseed_one cr r fr sub j) w =
    Ok (case recorded_jobid cr (status_file r (flow_uuid fr) j) w of Some i \<Rightarrow> bt_insert j i sub | None \<Rightarrow> sub)"
proof -
  let ?p = "status_file r (flow_uuid fr) j"
  have v: "val (read_job_run cr ?p) w = res_bind (text_at ?p w) (\<lambda>t. map_err (TomlParse ?p) (toml_de_run cr t))"
    using nf by (simp add: read_job_run_def val_read_toml)
  show ?thesis
  proof (cases "node_at ?p w")
    case (Some n)
    then show ?thesis
      using nf v
      by (cases n) (auto simp: preseed_one_def Let_def val_simps steady_intros recorded_jobid_def text_at_def
          node_len_def not_less map_err_def split: sum.split option.split)
  qed (use nf in \<open>simp add: preseed_one_def Let_def val_simps steady_intros recorded_jobid_def\<close>)
qed

lemma fold_preseed:
  "bt_get (fold (\<lambda>j sub. case f j of Some i \<Rightarrow> bt_insert j i sub | None \<Rightarrow> sub) js m) k
    = (if k \<in> set js \<and> f k \<noteq> None then f k else bt_get m k)"
  by (induction js arbitrary: m) (auto simp: bt_get_insert split: option.split)

lemma val_preseed:
  assumes "no_faults w"
  shows "\<exists>sub. val (preseed cr r fr) w = Ok sub \<and> (\<forall>k. bt_get sub k =
    (if k \<in> set (candidate_jids fr) then recorded_jobid cr (status_file r (flow_uuid fr) k) w else None))"
  using val_foldM_fold[OF preseed_one_steady val_preseed_one[OF assms] assms, where xs = "candidate_jids fr" and acc = bt_empty]
  by (auto simp: preseed_def fold_preseed)

lemma set_bt_keys_of_list: "set (bt_keys (bt_of_list xs)) = fst ` set xs"
proof (rule set_eqI)
  show "k \<in> set (bt_keys (bt_of_list xs)) \<longleftrightarrow> k \<in> fst ` set xs" for k
    by (simp add: bt_in_keys_get bt_get_of_list map_of_eq_None_iff)
qed

lemma candidates_are_jobs:
  assumes "run_order fr = Ok order"
  shows "set (candidate_jids fr) = set (bt_keys (jobs (run_flow fr)))"
proof -
  have "edge_from e \<in> set (bt_keys (jobs (run_flow fr)))"
    if "job \<in> set (bt_values (jobs (run_flow fr)))" "e \<in> set (parents job)" for job e
  proof -
    obtain j where "bt_get (jobs (run_flow fr)) j = Some job" using \<open>job \<in> _\<close> by (auto simp: bt_in_values)
    then have "e \<in> set (parents_of fr j)" using \<open>e \<in> _\<close> by (simp add: parents_of_def)
    then show ?thesis using run_order_sound(2,3)[OF assms] precedes_set by fastforce
  qed
  then show ?thesis by (auto simp: candidate_jids_def set_bt_keys_of_list image_Un image_image)
qed

lemma dry_loop_Ok:
  "act_foldM (submit_one ex cr r fr True) st order w = (Ok st', w') \<Longrightarrow>
    st' = st \<and> (\<forall>j\<in>set order. \<exists>pj. parse_job_id cr (jid j) = Ok pj)"
proof (induction order arbitrary: st w)
  case (Cons j order)
  then obtain st1 w1 where one: "submit_one ex cr r fr True st j w = (Ok st1, w1)"
    and "act_foldM (submit_one ex cr r fr True) st1 order w1 = (Ok st', w')"
    by (auto simp: io_simps)
  moreover from one have "render_job cr r fr j w = (Ok (), w1)" "st1 = st"
    by (cases st; auto simp: submit_one_def io_simps)+
  ultimately show ?case using Cons.IH render_job_Ok by auto
qed (simp add: io_simps)

text \<open>
  C31. A dry run returns exactly the jobids that the status files of the flow's jobs record, not
  the empty map that its documentation promises: a job is in the result when its status file can
  be read and holds a jobid.
\<close>

theorem dry_run_reports:
  assumes u: "plain_name (uuid_str (flow_uuid fr))" and nf: "\<forall>n. w_fault w n = None"
    and run: "submit ex cr r fr True w = (Ok submitted, w')"
  shows "bt_get submitted j =
    (if j \<in> set (bt_keys (jobs (run_flow fr)))
     then recorded_jobid cr (status_file r (flow_uuid fr) j) w else None)"
proof -
  have pu: "plain_uuid (flow_uuid fr)" using u by (simp add: plain_uuid_def)
  from run obtain order w1 sub w2 eff' where o: "run_order fr = Ok order"
    and s: "write_snapshot cr r fr w = (Ok (), w1)" and p: "preseed cr r fr w1 = (Ok sub, w2)"
    and l: "act_foldM (submit_one ex cr r fr True) (sub, bt_empty) order w2 = (Ok (submitted, eff'), w')"
    by (rule submit_Ok_parts) (simp add: io_simps)
  have c: "changes_only (write_set (flow_effective_toml r (flow_uuid fr))) w w1"
    by (rule obeysD[OF obeys_snapshot[OF order.refl] s])
  then have nf1: "no_faults w1" and lim: "max_toml_size w1 = max_toml_size w"
    using nf by (simp_all add: changes_only_def same_host_def no_faults_def max_toml_size_def)
  have sub: "submitted = sub" and parsed: "\<forall>j\<in>set order. \<exists>pj. parse_job_id cr (jid j) = Ok pj"
    using dry_loop_Ok[OF l] by auto
  have "val (preseed cr r fr) w1 = Ok sub" using p by (simp add: val_def)
  then have g: "bt_get sub j = (if j \<in> set (candidate_jids fr)
      then recorded_jobid cr (status_file r (flow_uuid fr) j) w1 else None)"
    using val_preseed[OF nf1, of cr r fr] by auto
  have "recorded_jobid cr (status_file r (flow_uuid fr) j) w1 = recorded_jobid cr (status_file r (flow_uuid fr) j) w"
    if "j \<in> set (bt_keys (jobs (run_flow fr)))"
  proof -
    have "plain_id j" using that parsed run_order_sound(2)[OF o] parsed_plain by blast
    then have "status_file r (flow_uuid fr) j \<notin> write_set (flow_effective_toml r (flow_uuid fr))"
      by (rule status_not_in_snapshot[OF pu])
    then show ?thesis using c unfolding recorded_jobid_def lim by (simp add: changes_only_def)
  qed
  then show ?thesis using g by (simp add: sub candidates_are_jobs[OF o])
qed

subsection \<open>A concrete dry run\<close>

lemma dry_loop_succeeds:
  assumes nf: "no_faults w" and u: "plain_uuid (flow_uuid fr)" and t: "tidy r (flow_uuid fr) w"
    and xs: "\<And>j. j \<in> set xs \<Longrightarrow> submittable cr fr j"
  shows "\<exists>st' w'. act_foldM (submit_one ex cr r fr True) st xs w = (Ok st', w')"
  using nf t xs
proof (induction xs arbitrary: w)
  case (Cons j xs)
  have j: "submittable cr fr j" using Cons.prems(3) by simp
  then obtain pj ps jb where "parse_job_id cr (jid j) = Ok pj" "params_of fr j = Ok ps"
    "bt_get (jobs (run_flow fr)) j = Some jb"
    by (cases "parse_job_id cr (jid j)"; cases "params_of fr j") (auto simp: submittable_def)
  from render_job_succeeds[OF Cons.prems(1) u Cons.prems(2) this] obtain w1
    where r: "render_job cr r fr j w = (Ok (), w1)" by blast
  have sh: "submit_shape r (flow_uuid fr) w w1"
    by (rule obeysD[OF shaped_render_job[OF u submittable_dotless[OF j]] r])
  then have "no_faults w1" using Cons.prems(1) no_faults_same_host unfolding shaped_def by blast
  from Cons.IH[OF this tidy_shaped[OF u Cons.prems(2) sh]] Cons.prems(3)
  obtain st' w' where "act_foldM (submit_one ex cr r fr True) st xs w1 = (Ok st', w')" by auto
  moreover have "submit_one ex cr r fr True st j w = (Ok st, w1)"
    using r by (cases st) (simp add: submit_one_def act_bind_def)
  ultimately show ?case by (simp add: act_bind_def)
qed simp

lemma dry_run_succeeds:
  assumes nf: "no_faults w" and u: "plain_uuid (flow_uuid fr)" and t: "tidy r (flow_uuid fr) w"
    and o: "run_order fr = Ok order" and xs: "\<And>j. j \<in> set order \<Longrightarrow> submittable cr fr j"
    and ser: "toml_ser_flow cr (run_flow fr) = Ok s"
  shows "\<exists>submitted w'. submit ex cr r fr True w = (Ok submitted, w')"
proof -
  obtain w1 where 1: "write_snapshot cr r fr w = (Ok (), w1)" "no_faults w1" "tidy r (flow_uuid fr) w1"
    using snapshot_succeeds[OF nf u t ser] by blast
  obtain sub w2 where 2: "preseed cr r fr w1 = (Ok sub, w2)" using preseed_succeeds by blast
  have sh2: "submit_shape r (flow_uuid fr) w1 w2" by (rule obeysD[OF shaped_of_reader[OF obeys_preseed] 2])
  have "no_faults w2" using sh2 1(2) no_faults_same_host unfolding shaped_def by blast
  from dry_loop_succeeds[where ex = ex and st = "(sub, bt_empty)", OF this u tidy_shaped[OF u 1(3) sh2] xs]
  obtain st' w' where "act_foldM (submit_one ex cr r fr True) (sub, bt_empty) order w2 = (Ok st', w')" by blast
  then show ?thesis using o 1(1) 2 by (auto simp: submit_def act_bind_def act_lift_def)
qed

lemma status_world_tidy: "tidy sample_root sample_uuid (status_world la lb)"
proof -
  have u: "plain_uuid sample_uuid" using sample_plain(1) by simp
  have d: "length q < length (flow_dir sample_root sample_uuid) + 3 \<and> q \<noteq> []"
    if "q \<in> submit_dirs sample_root sample_uuid" for q
    using that u by (auto simp: submit_dirs_def jm_dir_eq job_dir_eq dotless_def path_starts_with_iff append_eq_append_conv2
        Cons_eq_append_conv append_eq_Cons_conv)
  have "node_at q (status_world la lb) \<noteq> Some (File s)" if "q \<in> submit_dirs sample_root sample_uuid" for q s
    using d[OF that] status_world_other[of q la lb "File s"] by (auto simp: status_level_def)
  moreover have "node_at q (status_world la lb) \<noteq> Some Dir" if "q \<in> submit_files sample_root sample_uuid" for q
    using submit_files_shape[OF u that] status_world_other[of q la lb Dir] by (auto simp: status_level_def)
  ultimately show ?thesis by (simp add: tidy_def)
qed

lemma dry_run_reports_witness:
  "\<exists>submitted w'. submit (dry_run_executor sample_crates) sample_crates sample_root sample_run True (status_world Success Running)
      = (Ok submitted, w')
    \<and> bt_get submitted (JobId ''a'') = Some 1 \<and> bt_get submitted (JobId ''b'') = Some 2"
proof -
  let ?w = "status_world Success Running"
  have n: "plain_name (uuid_str (flow_uuid sample_run))" using sample_plain(1) by (simp add: plain_uuid_def)
  have js: "submittable sample_crates sample_run j" if "j \<in> set [JobId ''a'', JobId ''b'']" for j
    using sample_jobs_ready[OF that] that sample_keys bt_in_keys[of j "jobs (run_flow sample_run)"]
    by (auto simp: submittable_def)
  have ser: "toml_ser_flow sample_crates (run_flow sample_run) = Ok ''FLOW''" by (simp add: sample_crates_def)
  obtain submitted w' where s: "submit (dry_run_executor sample_crates) sample_crates sample_root sample_run True ?w = (Ok submitted, w')"
    using dry_run_succeeds[OF status_world_nodes(3) sample_plain(1) _ sample_order js ser] status_world_tidy
    by fastforce
  have "\<forall>n. w_fault ?w n = None" by (simp add: status_world_def quiet_world_def)
  note r = dry_run_reports[OF n this s]
  have "recorded_jobid sample_crates (status_file sample_root sample_uuid (JobId ''a'')) ?w = Some 1"
    "recorded_jobid sample_crates (status_file sample_root sample_uuid (JobId ''b'')) ?w = Some 2"
    using run_text_length[of Success] run_text_length[of Running] decode_encode_run[OF run_text_eq]
    by (simp_all add: recorded_jobid_def status_world_nodes DEFAULT_MAX_TOML_SIZE_def sample_crates_def)
      (simp_all add: run_with_def)
  then show ?thesis using s r[of "JobId ''a''"] r[of "JobId ''b''"] sample_keys by auto
qed

end
