(* ===== verification/PyExport.thy ===== *)
theory PyExport
  imports NewFlow View DryRun
begin

section \<open>The Python module (py_export/*.rs)\<close>

text \<open>
  What the Python module adds to the library: the conversion of errors to Python exceptions, the
  gates on identifiers, the inference of the root, and the conversion of plans, statuses and flows
  to Python objects. The conversions of pyo3 and pythonize themselves, the plain TOML serialiser
  and the JSON value of a flow are the fields of the record \<open>pyo3\<close>.
\<close>

subsection \<open>Exceptions (error.rs)\<close>

datatype PyErr =
    PyFileNotFoundError string
  | PyOSError string
  | PyKeyError string
  | PyValueError string
  | PyRuntimeError string
  | PyConversionError string \<comment> \<open>raised by pyo3 or pythonize\<close>

definition pyerr_of_schema :: "string \<Rightarrow> PyErr" where
  \<comment> \<open>the argument is that of \<open>SchemaParseError::Invalid\<close>\<close>
  "pyerr_of_schema s = PyValueError (''parse error: '' @ s)"

definition pyerr_of :: "crates \<Rightarrow> JobManagerError \<Rightarrow> PyErr" where
  "pyerr_of cr value =
     (let msg = err_display cr value
      in case value of
           FlowNotFound _ _ \<Rightarrow> PyFileNotFoundError msg
         | JobNotFound _ _ \<Rightarrow> PyFileNotFoundError msg
         | StatusNotFound _ _ \<Rightarrow> PyFileNotFoundError msg
         | SnapshotMissing _ _ \<Rightarrow> PyFileNotFoundError msg
         | Io _ source \<Rightarrow>
             if io_kind source = NotFound then PyFileNotFoundError msg else PyOSError msg
         | MissingPlanEntry _ _ \<Rightarrow> PyKeyError msg
         | TomlParse _ _ \<Rightarrow> PyValueError msg
         | InvalidStepId _ \<Rightarrow> PyValueError msg
         | InvalidJobId _ \<Rightarrow> PyValueError msg
         | ReservedJobId _ \<Rightarrow> PyValueError msg
         | JobIdParseError _ _ _ \<Rightarrow> PyValueError msg
         | PartitionMissing _ \<Rightarrow> PyValueError msg
         | PartitionWrongType _ _ \<Rightarrow> PyValueError msg
         | LogDirMissing _ _ _ \<Rightarrow> PyValueError msg
         | RootInferenceFailed _ \<Rightarrow> PyValueError msg
         | FileTooLarge _ _ _ \<Rightarrow> PyValueError msg
         | DependencyCycle _ _ \<Rightarrow> PyValueError msg
         | RenderError _ _ \<Rightarrow> PyValueError msg
         | _ \<Rightarrow> PyRuntimeError msg)"

type_synonym ('x, 'a) py = "('x world_scheme, PyErr, 'a) act"

definition py_io :: "crates \<Rightarrow> ('x, 'a) io \<Rightarrow> ('x, 'a) py" where
  \<comment> \<open>the question mark on a library call\<close>
  "py_io cr m = act_map_err (pyerr_of cr) m"

subsection \<open>Python objects\<close>

datatype PyObj =
    PyNone
  | PyInt int
  | PyStr string
  | PyDict "(PyObj \<times> PyObj) list"
  | PyList "PyObj list"
  | PyTuple "PyObj list"
  | PyOther string

record pyo3 =
  extract_str :: "PyObj \<Rightarrow> PyErr + string"
  cast_dict :: "PyObj \<Rightarrow> PyErr + (PyObj \<times> PyObj) list"
  depythonize :: "PyObj \<Rightarrow> PyErr + Toml"
  pythonize_toml :: "Toml \<Rightarrow> PyErr + PyObj"
  pythonize_status :: "JobStatus \<Rightarrow> PyErr + PyObj"
  flow_to_json :: "JobFlow \<Rightarrow> string + string"
  pythonize_json :: "string \<Rightarrow> string + PyObj"
  plain_flow :: "JobFlow \<Rightarrow> string + string"
  plain_common :: "CommonConfig \<Rightarrow> string + string"

definition set_item :: "PyObj \<Rightarrow> PyObj \<Rightarrow> (PyObj \<times> PyObj) list \<Rightarrow> (PyObj \<times> PyObj) list" where
  \<comment> \<open>a dict keeps the order of insertion\<close>
  "set_item k v d = AList.update k v d"

fun res_fold :: "('b \<Rightarrow> 'a \<Rightarrow> 'e + 'b) \<Rightarrow> 'b \<Rightarrow> 'a list \<Rightarrow> 'e + 'b" where
  \<comment> \<open>a for loop with question marks\<close>
  "res_fold f acc [] = Ok acc"
| "res_fold f acc (x # xs) = res_bind (f acc x) (\<lambda>acc'. res_fold f acc' xs)"

subsection \<open>Identifiers (jobid.rs)\<close>

definition py_validate_step_id :: "crates \<Rightarrow> string \<Rightarrow> PyErr + string" where
  "py_validate_step_id cr s = map_err (pyerr_of cr) (validate_step_id s)"

definition py_validate_job_id :: "crates \<Rightarrow> string \<Rightarrow> PyErr + string" where
  "py_validate_job_id cr s = map_err (pyerr_of cr) (validate_job_id cr s)"

definition py_build_job_id :: "crates \<Rightarrow> string \<Rightarrow> (string \<times> usize) list \<Rightarrow> PyErr + string" where
  "py_build_job_id cr step combo =
     res_bind (map_err (pyerr_of cr) (validate_step_id step)) (\<lambda>_.
     res_bind (res_fold (\<lambda>_ (ax, _). map_ok (\<lambda>_. ()) (map_err (pyerr_of cr) (validate_step_id ax))) () combo) (\<lambda>_.
     Ok (build_job_id step combo)))"

definition py_parse_job_id :: "crates \<Rightarrow> string \<Rightarrow> PyErr + PyObj" where
  "py_parse_job_id cr s =
     res_bind (map_err (pyerr_of cr) (parse_job_id cr s)) (\<lambda>parts.
     let d = set_item (PyStr ''source_step_id'') (PyStr (source_step_id parts)) []
     in Ok (PyDict (set_item (PyStr ''axis_combo'')
          (PyList (map (\<lambda>(k, v). PyTuple [PyStr k, PyInt (uint v)]) (axis_combo parts))) d)))"

subsection \<open>Paths (path.rs)\<close>

definition bad_uuid :: "crates \<Rightarrow> string \<Rightarrow> PyErr + Uuid" where
  \<comment> \<open>the two lines the methods share\<close>
  "bad_uuid cr s = map_err (\<lambda>e. PyValueError (''bad uuid: '' @ e)) (uuid_parse cr s)"

definition py_resolver :: "Path \<Rightarrow> PathResolver" where
  "py_resolver root = \<lparr>res_root = root\<rparr>"

definition py_root :: "PathResolver \<Rightarrow> Path" where
  "py_root r = res_root r"

definition py_flow_dir :: "crates \<Rightarrow> PathResolver \<Rightarrow> string \<Rightarrow> PyErr + Path" where
  "py_flow_dir cr r s = res_bind (bad_uuid cr s) (\<lambda>u. Ok (flow_dir r u))"

definition py_flow_toml :: "crates \<Rightarrow> PathResolver \<Rightarrow> string \<Rightarrow> PyErr + Path" where
  "py_flow_toml cr r s = res_bind (bad_uuid cr s) (\<lambda>u. Ok (flow_toml r u))"

definition py_plan_toml :: "crates \<Rightarrow> PathResolver \<Rightarrow> string \<Rightarrow> PyErr + Path" where
  "py_plan_toml cr r s = res_bind (bad_uuid cr s) (\<lambda>u. Ok (plan_toml r u))"

definition py_experiment_toml :: "crates \<Rightarrow> PathResolver \<Rightarrow> string \<Rightarrow> PyErr + Path" where
  "py_experiment_toml cr r s = res_bind (bad_uuid cr s) (\<lambda>u. Ok (experiment_toml r u))"

definition py_status_file :: "crates \<Rightarrow> PathResolver \<Rightarrow> string \<Rightarrow> string \<Rightarrow> PyErr + Path" where
  "py_status_file cr r s job_id =
     res_bind (bad_uuid cr s) (\<lambda>u.
     res_bind (map_err (pyerr_of cr) (validate_job_id cr job_id)) (\<lambda>_.
     Ok (status_file r u (JobId job_id))))"

subsection \<open>Files as TOML text (persistence.rs)\<close>

definition infer_root_common :: "Path \<Rightarrow> JobManagerError + Path" where
  "infer_root_common path =
     ok_or (map_option (\<lambda>root. join_str root ''common.toml'')
       (Option.bind (path_parent path) path_parent)) (RootInferenceFailed path)"

definition load_or_synth_common :: "crates \<Rightarrow> Path \<Rightarrow> ('x, CommonConfig) py" where
  "load_or_synth_common cr flow_toml_path =
     act_bind (act_lift (map_err (pyerr_of cr) (infer_root_common flow_toml_path))) (\<lambda>common_path.
     act_bind (path_exists common_path) (\<lambda>ex.
     if ex then py_io cr (read_common cr common_path) else ret synth_empty_common))"

definition to_text :: "crates \<Rightarrow> string + string \<Rightarrow> ('x, string) py" where
  \<comment> \<open>\<open>toml::to_string\<close> with its error\<close>
  "to_text cr ser = act_lift (map_err (\<lambda>e. pyerr_of cr (TomlSer e)) ser)"

definition py_read_common :: "pyo3 \<Rightarrow> crates \<Rightarrow> Path \<Rightarrow> ('x, string) py" where
  "py_read_common py cr path =
     act_bind (py_io cr (read_common cr path)) (\<lambda>cc. to_text cr (plain_common py cc))"

definition py_write_common :: "crates \<Rightarrow> Path \<Rightarrow> string \<Rightarrow> ('x, unit) py" where
  "py_write_common cr path toml_str =
     act_bind (act_lift (map_err PyValueError (toml_de_common cr toml_str))) (\<lambda>cc.
     py_io cr (write_common cr path cc))"

definition py_read_flow :: "pyo3 \<Rightarrow> crates \<Rightarrow> Path \<Rightarrow> ('x, string) py" where
  "py_read_flow py cr path =
     act_bind (load_or_synth_common cr path) (\<lambda>common.
     act_bind (py_io cr (read_flow cr path common)) (\<lambda>fl. to_text cr (plain_flow py fl)))"

definition py_write_flow :: "crates \<Rightarrow> Path \<Rightarrow> string \<Rightarrow> ('x, unit) py" where
  "py_write_flow cr path toml_str =
     act_bind (act_lift (map_err PyValueError (toml_de_flow cr toml_str))) (\<lambda>fl.
     py_io cr (write_flow cr path fl))"

definition py_read_flow_effective :: "pyo3 \<Rightarrow> crates \<Rightarrow> Path \<Rightarrow> ('x, string) py" where
  "py_read_flow_effective py cr path =
     act_bind (py_io cr (read_flow_effective cr path)) (\<lambda>fl. to_text cr (plain_flow py fl))"

subsection \<open>Job runs (job.rs)\<close>

datatype PyLifecycle = PyQueued | PyRunning | PySuccess | PyFailed | PySkipped

definition lifecycle_inner :: "PyLifecycle \<Rightarrow> Lifecycle" where
  "lifecycle_inner v = (case v of
     PyQueued \<Rightarrow> Queued | PyRunning \<Rightarrow> Running | PySuccess \<Rightarrow> Success | PyFailed \<Rightarrow> Failed | PySkipped \<Rightarrow> Skipped)"

definition lifecycle_py :: "Lifecycle \<Rightarrow> PyLifecycle" where
  "lifecycle_py v = (case v of
     Queued \<Rightarrow> PyQueued | Running \<Rightarrow> PyRunning | Success \<Rightarrow> PySuccess | Failed \<Rightarrow> PyFailed | Skipped \<Rightarrow> PySkipped)"

definition py_run_lifecycle :: "JobRun \<Rightarrow> PyLifecycle" where
  "py_run_lifecycle run = lifecycle_py (lifecycle run)"

definition py_run_jobid :: "JobRun \<Rightarrow> u64 option" where
  "py_run_jobid run = slurm_jobid run"

definition py_run_note :: "JobRun \<Rightarrow> string option" where
  "py_run_note run = run_note run"

definition py_run_repr :: "JobRun \<Rightarrow> string" where
  "py_run_repr run =
     ''JobRun(lifecycle='' @ lifecycle_debug (lifecycle run) @ '', slurm_jobid=''
       @ (case slurm_jobid run of None \<Rightarrow> ''None'' | Some i \<Rightarrow> ''Some('' @ show_nat (unat i) @ '')'') @ '')''"

definition py_read_job_run :: "crates \<Rightarrow> Path \<Rightarrow> ('x, JobRun) py" where
  "py_read_job_run cr path = py_io cr (read_job_run cr path)"

definition py_write_job_run :: "crates \<Rightarrow> Path \<Rightarrow> JobRun \<Rightarrow> ('x, unit) py" where
  "py_write_job_run cr path run = py_io cr (write_job_run cr path run)"

subsection \<open>Plans (plan.rs)\<close>

definition plan_param ::
  "pyo3 \<Rightarrow> (string, Toml) btree \<Rightarrow> PyObj \<times> PyObj \<Rightarrow> PyErr + (string, Toml) btree" where
  "plan_param py params entry =
     (case entry of (pk, pv) \<Rightarrow>
        res_bind (extract_str py pk) (\<lambda>key.
        res_bind (depythonize py pv) (\<lambda>v.
        Ok (bt_insert key v params))))"

definition plan_job ::
  "pyo3 \<Rightarrow> crates \<Rightarrow> (JobId, (string, Toml) btree) btree \<Rightarrow> PyObj \<times> PyObj
    \<Rightarrow> PyErr + (JobId, (string, Toml) btree) btree" where
  "plan_job py cr out_jobs entry =
     (case entry of (k, v) \<Rightarrow>
        res_bind (extract_str py k) (\<lambda>jid_str.
        res_bind (map_err (pyerr_of cr) (validate_job_id cr jid_str)) (\<lambda>_.
        res_bind (cast_dict py v) (\<lambda>params_dict.
        res_bind (res_fold (plan_param py) bt_empty params_dict) (\<lambda>params.
        Ok (bt_insert (JobId jid_str) params out_jobs))))))"

definition py_plan_new :: "pyo3 \<Rightarrow> crates \<Rightarrow> (PyObj \<times> PyObj) list \<Rightarrow> PyErr + ExperimentPlan" where
  "py_plan_new py cr js =
     res_bind (res_fold (plan_job py cr) bt_empty js) (\<lambda>out_jobs. Ok \<lparr>plan_jobs = out_jobs\<rparr>)"

definition params_dict :: "pyo3 \<Rightarrow> (string, Toml) btree \<Rightarrow> PyErr + (PyObj \<times> PyObj) list" where
  "params_dict py params =
     res_fold (\<lambda>pdict (pk, pv). res_bind (pythonize_toml py pv) (\<lambda>o'. Ok (set_item (PyStr pk) o' pdict)))
       [] (bt_entries params)"

definition py_plan_jobs :: "pyo3 \<Rightarrow> ExperimentPlan \<Rightarrow> PyErr + (PyObj \<times> PyObj) list" where
  "py_plan_jobs py plan =
     res_fold (\<lambda>dict (k, params). res_bind (params_dict py params) (\<lambda>pdict.
       Ok (set_item (PyStr (jid k)) (PyDict pdict) dict))) [] (bt_entries (plan_jobs plan))"

definition py_plan_repr :: "ExperimentPlan \<Rightarrow> string" where
  "py_plan_repr plan = ''ExperimentPlan(jobs='' @ show_nat (bt_len (plan_jobs plan)) @ '' entries)''"

definition py_read_plan :: "crates \<Rightarrow> Path \<Rightarrow> ('x, ExperimentPlan) py" where
  "py_read_plan cr path = py_io cr (read_plan cr path)"

definition py_write_plan :: "crates \<Rightarrow> Path \<Rightarrow> ExperimentPlan \<Rightarrow> ('x, unit) py" where
  "py_write_plan cr path plan = py_io cr (write_plan cr path plan)"

subsection \<open>Rendering, flows, submission (render.rs, flow.rs, runner.rs)\<close>

definition py_render_batch_bash ::
  "crates \<Rightarrow> string \<Rightarrow> string \<Rightarrow> string \<Rightarrow> (string, string) btree \<Rightarrow> PyErr + string" where
  "py_render_batch_bash cr uuid_s job_id bdy params =
     res_bind (map_err PyValueError (uuid_parse cr uuid_s)) (\<lambda>u.
     let j = JobId job_id
     in res_bind (map_err (\<lambda>e. PyValueError (err_display cr e)) (parse_job_id cr (jid j))) (\<lambda>parts.
        Ok (render_batch_bash cr u j parts (bt_map (\<lambda>_ v. TString v) params) bdy)))"

definition py_flow_read :: "crates \<Rightarrow> Path \<Rightarrow> string \<Rightarrow> ('x, FlowRun) py" where
  "py_flow_read cr root uuid_s =
     act_bind (act_lift (map_err PyValueError (uuid_parse cr uuid_s))) (\<lambda>u.
     py_io cr (flow_run_read cr \<lparr>res_root = root\<rparr> u))"

definition py_flow_uuid :: "FlowRun \<Rightarrow> string" where
  "py_flow_uuid fr = uuid_str (flow_uuid fr)"

definition py_flow_repr :: "FlowRun \<Rightarrow> string" where
  "py_flow_repr fr =
     ''FlowRun(flow_uuid='' @ uuid_str (flow_uuid fr) @ '', job_count=''
       @ show_nat (bt_len (jobs (run_flow fr))) @ '')''"

definition py_submit_flow ::
  "(SbatchCmd \<Rightarrow> 'x \<Rightarrow> (string + u64 option) \<times> 'x) \<Rightarrow> crates \<Rightarrow> Path \<Rightarrow> string \<Rightarrow> bool
    \<Rightarrow> ('x, string \<rightharpoonup> u64) py" where
  \<comment> \<open>the querier is built but submit does not use it\<close>
  "py_submit_flow spawn cr root uuid_s dry_run =
     (let r = \<lparr>res_root = root\<rparr>
      in act_bind (act_lift (map_err PyValueError (uuid_parse cr uuid_s))) (\<lambda>u.
         act_bind (py_io cr (flow_run_read cr r u)) (\<lambda>fr.
         let ex = (if dry_run then dry_run_executor cr else sbatch_executor spawn)
         in act_bind (py_io cr (submit ex cr r fr dry_run)) (\<lambda>result.
            ret (\<lambda>k. bt_get result (JobId k))))))"

subsection \<open>Filters (search.rs)\<close>

record PySearchFilter =
  psf_program :: "string option"
  psf_tags :: "(string \<times> string) list" \<comment> \<open>the entries of the HashMap, in the order it iterates\<close>
  psf_status :: "string list"
  psf_uuid_prefix :: "string option"
  psf_created_after :: "DateTime option"
  psf_created_before :: "DateTime option"
  psf_slurm_jobid :: "u64 option"
  psf_job_id :: "string option"

definition py_filter_new ::
  "string option \<Rightarrow> (string \<times> string) list option \<Rightarrow> string list option \<Rightarrow> string option
    \<Rightarrow> DateTime option \<Rightarrow> DateTime option \<Rightarrow> u64 option \<Rightarrow> string option \<Rightarrow> PySearchFilter" where
  "py_filter_new program' tags' status' uuid_prefix after before slurm_id job_id =
     \<lparr>psf_program = program', psf_tags = (case tags' of Some t \<Rightarrow> t | None \<Rightarrow> []),
      psf_status = (case status' of Some s \<Rightarrow> s | None \<Rightarrow> []), psf_uuid_prefix = uuid_prefix,
      psf_created_after = after, psf_created_before = before, psf_slurm_jobid = slurm_id,
      psf_job_id = job_id\<rparr>"

definition py_filter_inner :: "PySearchFilter \<Rightarrow> string + SearchFilter" where
  "py_filter_inner f =
     res_bind (res_fold (\<lambda>status tok. res_bind (parse_token tok) (\<lambda>d. Ok (bt_insert d () status)))
       bt_empty (psf_status f)) (\<lambda>status.
     Ok \<lparr>sf_program = map_option Program (psf_program f), sf_tags = bt_of_list (psf_tags f),
         sf_status = status, sf_uuid_prefix = psf_uuid_prefix f,
         sf_created_after = psf_created_after f, sf_created_before = psf_created_before f,
         sf_slurm_jobid = psf_slurm_jobid f, sf_job_id = map_option JobId (psf_job_id f)\<rparr>)"

subsection \<open>Views (view.rs)\<close>

record PyCalcView =
  pv_uuid :: Uuid
  pv_job_id :: JobId
  pv_resolver :: PathResolver
  pv_flow :: JobFlow

definition py_view_new :: "crates \<Rightarrow> PathResolver \<Rightarrow> string \<Rightarrow> string \<Rightarrow> ('x, PyCalcView) py" where
  "py_view_new cr r uuid_s job_id =
     act_bind (act_lift (bad_uuid cr uuid_s)) (\<lambda>u.
     let flow_path = flow_toml r u
     in act_bind (load_or_synth_common cr flow_path) (\<lambda>common.
        act_bind (py_io cr (read_flow cr flow_path common)) (\<lambda>flow.
        if \<not> bt_contains (jobs flow) (JobId job_id) then fail (pyerr_of cr (JobNotFound u (JobId job_id)))
        else ret \<lparr>pv_uuid = u, pv_job_id = JobId job_id, pv_resolver = r, pv_flow = flow\<rparr>)))"

definition py_view_job_dir :: "PyCalcView \<Rightarrow> Path" where
  "py_view_job_dir v = job_dir (pv_resolver v) (pv_uuid v) (pv_job_id v)"

definition py_view_status_path :: "PyCalcView \<Rightarrow> Path" where
  "py_view_status_path v = status_file (pv_resolver v) (pv_uuid v) (pv_job_id v)"

definition py_view_status :: "pyo3 \<Rightarrow> crates \<Rightarrow> PyCalcView \<Rightarrow> ('x, PyObj) py" where
  "py_view_status py cr v =
     act_bind (py_io cr (read_job_run cr (py_view_status_path v))) (\<lambda>entry.
     act_bind (act_lift (case slurm_status entry of
         Some s \<Rightarrow> pythonize_status py s | None \<Rightarrow> Ok PyNone)) (\<lambda>st.
     ret (PyDict (
       set_item (PyStr ''note'') (case run_note entry of Some n \<Rightarrow> PyStr n | None \<Rightarrow> PyNone) (
       set_item (PyStr ''slurm_status'') st (
       set_item (PyStr ''slurm_jobid'') (case slurm_jobid entry of Some i \<Rightarrow> PyInt (uint i) | None \<Rightarrow> PyNone) (
       set_item (PyStr ''updated_at'') (PyStr (to_rfc3339 cr (updated_at entry))) (
       set_item (PyStr ''lifecycle'') (PyStr (map to_lower (lifecycle_debug (lifecycle entry)))) []))))))))"

definition py_view_inner :: "PyCalcView \<Rightarrow> JobManagerError + CalcView" where
  "py_view_inner v = calc_view_new (pv_flow v) (pv_job_id v) (pv_resolver v)"

definition py_view_files :: "crates \<Rightarrow> PyCalcView \<Rightarrow> ('x, Path list) py" where
  "py_view_files cr v =
     act_bind (act_lift (map_err (pyerr_of cr) (py_view_inner v))) (\<lambda>view. py_io cr (cv_files view))"

subsection \<open>Walks (walk.rs)\<close>

definition walk_item :: "pyo3 \<Rightarrow> crates \<Rightarrow> JobManagerError + JobFlow \<Rightarrow> string + string" where
  "walk_item py cr r =
     (case r of
        Ok flow \<Rightarrow> map_err (\<lambda>e. ''json: '' @ e) (flow_to_json py flow)
      | Err e \<Rightarrow> Err (err_display cr e))"

definition list_item :: "pyo3 \<Rightarrow> string + string \<Rightarrow> PyErr + PyObj" where
  "list_item py item =
     (case item of
        Ok v \<Rightarrow> map_err PyRuntimeError (pythonize_json py v)
      | Err e \<Rightarrow> Ok (PyTuple [PyNone, PyStr e]))"

definition py_walk_flows :: "schedule \<Rightarrow> pyo3 \<Rightarrow> crates \<Rightarrow> Path \<Rightarrow> ('x, PyObj list) py" where
  "py_walk_flows sched py cr root =
     (let common_path = join_str root ''common.toml''
      in act_bind (path_exists common_path) (\<lambda>ex.
         act_bind (if ex then py_io cr (read_common cr common_path) else ret synth_empty_common) (\<lambda>common.
         act_bind (py_io cr (walk_flows sched cr root common)) (\<lambda>results.
         act_lift (traverse (list_item py) (map (walk_item py cr) results))))))"

subsection \<open>Plans there and back\<close>

lemma map_of_rev: "distinct (map fst xs) \<Longrightarrow> map_of (rev xs) = map_of xs"
  by (intro map_of_inject_set[THEN iffD2]) (simp_all add: rev_map[symmetric])

lemma bt_of_list_entries: "bt_of_list (bt_entries m) = m"
proof (rule bt_eqI)
  have "distinct (map fst (bt_entries m))" using bt_distinct_keys[of m] by (simp add: bt_keys_def)
  then show "bt_get (bt_of_list (bt_entries m)) k = bt_get m k" for k
    by (simp add: bt_get_of_list bt_get_def map_of_rev)
qed

lemma set_item_new: "k \<notin> fst ` set d \<Longrightarrow> set_item k v d = d @ [(k, v)]"
  by (induction d) (auto simp: set_item_def)

lemma res_fold_dict:
  assumes "inj key" and "distinct (map fst kvs)" and "\<forall>x\<in>set kvs. key (fst x) \<notin> fst ` set d0"
    and "res_fold (\<lambda>d x. res_bind (f x) (\<lambda>o'. Ok (set_item (key (fst x)) o' d))) d0 kvs = Ok d"
  shows "\<exists>es. d = d0 @ es \<and> list_all2 (\<lambda>x e. fst e = key (fst x) \<and> f x = Ok (snd e)) kvs es"
  using assms(2-4)
proof (induction kvs arbitrary: d0)
  case (Cons x kvs)
  then obtain o' where o: "f x = Ok o'"
    "res_fold (\<lambda>d x. res_bind (f x) (\<lambda>o'. Ok (set_item (key (fst x)) o' d))) (d0 @ [(key (fst x), o')]) kvs = Ok d"
    by (auto simp: res_simps set_item_new)
  have "\<forall>y\<in>set kvs. key (fst y) \<notin> fst ` set (d0 @ [(key (fst x), o')])"
    using Cons.prems(1,2) assms(1) by (auto simp: inj_eq image_iff)
  with Cons.IH[OF _ _ o(2)] Cons.prems(1) obtain es where
    "d = (d0 @ [(key (fst x), o')]) @ es" "list_all2 (\<lambda>x e. fst e = key (fst x) \<and> f x = Ok (snd e)) kvs es" by auto
  then show ?case using o(1) by (intro exI[of _ "(key (fst x), o') # es"]) simp
qed simp

lemma res_fold_insert:
  assumes "list_all2 (\<lambda>x e. \<forall>acc. step acc e = Ok (bt_insert (fst x) (snd x) acc)) kvs es"
  shows "res_fold step acc es = Ok (fold (\<lambda>(k, v). bt_insert k v) kvs acc)"
  using assms by (induction kvs es arbitrary: acc rule: list_all2_induct) (simp_all add: case_prod_beta)

lemma res_fold_rebuild:
  assumes "list_all2 (\<lambda>x e. \<forall>acc. step acc e = Ok (bt_insert (fst x) (snd x) acc)) (bt_entries m) es"
  shows "res_fold step bt_empty es = Ok m"
  using res_fold_insert[OF assms, of bt_empty] bt_of_list_entries[of m] by (simp add: bt_of_list_def)

lemma entries_distinct: "distinct (map fst (bt_entries m))"
  using bt_distinct_keys[of m] by (simp add: bt_keys_def)

lemma params_dict_back:
  assumes str: "\<forall>s. extract_str py (PyStr s) = Ok s"
    and val: "\<forall>v o'. pythonize_toml py v = Ok o' \<longrightarrow> depythonize py o' = Ok v"
    and d: "params_dict py ps = Ok d"
  shows "res_fold (plan_param py) bt_empty d = Ok ps"
proof -
  have "res_fold (\<lambda>d x. res_bind (pythonize_toml py (snd x)) (\<lambda>o'. Ok (set_item (PyStr (fst x)) o' d)))
      [] (bt_entries ps) = Ok d"
    using d by (simp add: params_dict_def case_prod_unfold)
  from res_fold_dict[OF _ entries_distinct _ this]
  have "list_all2 (\<lambda>x e. fst e = PyStr (fst x) \<and> pythonize_toml py (snd x) = Ok (snd e)) (bt_entries ps) d"
    by (auto simp: inj_def)
  then have "list_all2 (\<lambda>x e. \<forall>acc. plan_param py acc e = Ok (bt_insert (fst x) (snd x) acc)) (bt_entries ps) d"
    by (rule list.rel_mono_strong) (use str val in \<open>auto simp: plan_param_def split: prod.split\<close>)
  then show ?thesis by (rule res_fold_rebuild)
qed

lemma res_fold_reject:
  assumes "e \<in> set es" and "\<And>acc. is_err (step acc e)"
  shows "is_err (res_fold step acc es)"
  using assms(1)
proof (induction es arbitrary: acc)
  case (Cons x es)
  then show ?case using assms(2)[of acc] by (cases "step acc x") auto
qed simp

lemma plan_job_back:
  assumes "\<forall>s. extract_str py (PyStr s) = Ok s" and "\<forall>d. cast_dict py (PyDict d) = Ok d"
    and "\<forall>v o'. pythonize_toml py v = Ok o' \<longrightarrow> depythonize py o' = Ok v"
    and "fst e = PyStr (jid k)" and "map_ok PyDict (params_dict py ps) = Ok (snd e)"
  shows "plan_job py cr acc e =
    res_bind (map_err (pyerr_of cr) (validate_job_id cr (jid k))) (\<lambda>_. Ok (bt_insert k ps acc))"
proof -
  obtain pd where pd: "params_dict py ps = Ok pd" "snd e = PyDict pd" using assms(5) by (auto simp: res_simps)
  have e: "e = (PyStr (jid k), PyDict pd)" using assms(4) pd(2) by (cases e) simp
  show ?thesis
    unfolding e using params_dict_back[OF assms(1,3) pd(1)] by (simp add: plan_job_def assms(1,2))
qed

text \<open>
  C33. A plan handed to Python as a dictionary and back is the same plan, provided every job id of
  it passes the job id validator; otherwise the constructor raises, so a plan read from a file, whose
  ids nothing checks, cannot always be rebuilt. The hypotheses are what pyo3 and pythonize document:
  strings and dictionaries extract as themselves, and depythonize undoes pythonize.
\<close>

theorem py_plan_roundtrip:
  assumes "\<forall>s. extract_str py (PyStr s) = Ok s" and "\<forall>d. cast_dict py (PyDict d) = Ok d"
    and "\<forall>v o'. pythonize_toml py v = Ok o' \<longrightarrow> depythonize py o' = Ok v"
    and "py_plan_jobs py plan = Ok d"
  shows "if list_all (\<lambda>j. is_ok (validate_job_id cr (jid j))) (bt_keys (plan_jobs plan))
    then py_plan_new py cr d = Ok plan else is_err (py_plan_new py cr d)"
proof -
  let ?es = "bt_entries (plan_jobs plan)"
  let ?ok = "\<lambda>j. is_ok (validate_job_id cr (jid j))"
  have inj: "inj (\<lambda>k. PyStr (jid k))" by (auto simp: inj_def intro: JobId.expand)
  have step: "res_bind (params_dict py ps) (\<lambda>pdict. Ok (set_item (PyStr (jid k)) (PyDict pdict) dict))
      = res_bind (map_ok PyDict (params_dict py ps)) (\<lambda>o'. Ok (set_item (PyStr (jid k)) o' dict))" for ps k dict
    by (cases "params_dict py ps") simp_all
  have "res_fold (\<lambda>dict x. res_bind (map_ok PyDict (params_dict py (snd x)))
      (\<lambda>o'. Ok (set_item (PyStr (jid (fst x))) o' dict))) [] ?es = Ok d"
    using assms(4) unfolding py_plan_jobs_def step by (simp add: case_prod_unfold)
  from res_fold_dict[OF inj entries_distinct _ this]
  have es: "list_all2 (\<lambda>x e. fst e = PyStr (jid (fst x)) \<and> map_ok PyDict (params_dict py (snd x)) = Ok (snd e)) ?es d"
    by auto
  note one = plan_job_back[OF assms(1-3)]
  show ?thesis
  proof (cases "list_all ?ok (bt_keys (plan_jobs plan))")
    case True
    then have all: "x \<in> set ?es \<Longrightarrow> ?ok (fst x)" for x by (simp add: list_all_iff bt_keys_def)
    have "plan_job py cr acc e = Ok (bt_insert (fst x) (snd x) acc)"
      if "x \<in> set ?es" "fst e = PyStr (jid (fst x)) \<and> map_ok PyDict (params_dict py (snd x)) = Ok (snd e)" for x e acc
      using all[OF that(1)] one[of e "fst x" "snd x" cr acc] that(2)
      by (cases "validate_job_id cr (jid (fst x))") simp_all
    then have "list_all2 (\<lambda>x e. \<forall>acc. plan_job py cr acc e = Ok (bt_insert (fst x) (snd x) acc)) ?es d"
      by (intro list.rel_mono_strong[OF es]) blast
    then show ?thesis using True by (simp add: py_plan_new_def res_fold_rebuild)
  next
    case False
    then obtain x where k: "x \<in> set ?es" "\<not> ?ok (fst x)" by (auto simp: list_all_iff bt_keys_def)
    then obtain e where e: "e \<in> set d" "fst e = PyStr (jid (fst x))" "map_ok PyDict (params_dict py (snd x)) = Ok (snd e)"
      using list_all2_in_left[OF es] by blast
    have "is_err (plan_job py cr acc e)" for acc
      unfolding one[OF e(2,3)] using k(2) by (cases "validate_job_id cr (jid (fst x))") simp_all
    then have "is_err (res_fold (plan_job py cr) bt_empty d)" by (rule res_fold_reject[OF e(1)])
    then have "is_err (py_plan_new py cr d)"
      by (cases "res_fold (plan_job py cr) bt_empty d") (simp_all add: py_plan_new_def)
    then show ?thesis using False by (simp only: if_False)
  qed
qed


definition sample_pyo3 :: pyo3 where
  \<comment> \<open>objects that carry the TOML values a plan is made of\<close>
  "sample_pyo3 = \<lparr>
     extract_str = (\<lambda>o'. case o' of PyStr s \<Rightarrow> Ok s | _ \<Rightarrow> Err (PyConversionError ''not a str'')),
     cast_dict = (\<lambda>o'. case o' of PyDict d \<Rightarrow> Ok d | _ \<Rightarrow> Err (PyConversionError ''not a dict'')),
     depythonize = (\<lambda>o'. case o' of PyStr s \<Rightarrow> Ok (TString s) | PyInt n \<Rightarrow> Ok (TInteger n)
       | _ \<Rightarrow> Err (PyConversionError ''unsupported'')),
     pythonize_toml = (\<lambda>v. case v of TString s \<Rightarrow> Ok (PyStr s) | TInteger n \<Rightarrow> Ok (PyInt n)
       | _ \<Rightarrow> Err (PyConversionError ''unsupported'')),
     pythonize_status = (\<lambda>st. Ok (PyStr (js_reason st))),
     flow_to_json = (\<lambda>f. Ok (uuid_str (flow_id f))),
     pythonize_json = (\<lambda>v. Ok (PyStr v)),
     plain_flow = (\<lambda>f. Ok ''FLOW''),
     plain_common = (\<lambda>c. Ok ''COMMON'')\<rparr>"

lemma py_plan_roundtrip_witness:
  "py_plan_jobs sample_pyo3 sample_plan = Ok
     [(PyStr ''a'', PyDict [(PyStr ''x'', PyInt 1)]), (PyStr ''b'', PyDict [])]
   \<and> py_plan_new sample_pyo3 sample_crates
     [(PyStr ''a'', PyDict [(PyStr ''x'', PyInt 1)]), (PyStr ''b'', PyDict [])] = Ok sample_plan"
proof -
  have d: "py_plan_jobs sample_pyo3 sample_plan = Ok
     [(PyStr ''a'', PyDict [(PyStr ''x'', PyInt 1)]), (PyStr ''b'', PyDict [])]" by code_simp
  have k: "bt_keys (plan_jobs sample_plan) = [JobId ''a'', JobId ''b'']" by code_simp
  have "split_pat ''__'' ''a'' = [''a'']" "split_pat ''__'' ''b'' = [''b'']" by code_simp+
  moreover have "validate_step_id ''a'' = Ok ''a''" "validate_step_id ''b'' = Ok ''b''" by code_simp+
  moreover have "list_all valid_job_id_char ''a''" "list_all valid_job_id_char ''b''" by code_simp+
  ultimately have "list_all (\<lambda>j. is_ok (validate_job_id sample_crates (jid j))) (bt_keys (plan_jobs sample_plan))"
    by (simp add: k validate_job_id_def parse_job_id_def)
  moreover have "\<forall>s. extract_str sample_pyo3 (PyStr s) = Ok s" "\<forall>d. cast_dict sample_pyo3 (PyDict d) = Ok d"
    "\<forall>v o'. pythonize_toml sample_pyo3 v = Ok o' \<longrightarrow> depythonize sample_pyo3 o' = Ok v"
    by (auto simp: sample_pyo3_def split: Toml.splits)
  ultimately show ?thesis using py_plan_roundtrip[of sample_pyo3 sample_plan _ sample_crates] d by simp
qed

subsection \<open>The gate on status files\<close>

lemma validate_job_id_plain: "validate_job_id cr s = Ok t \<Longrightarrow> plain_name s"
  by (auto simp: validate_job_id_def res_simps dest: parse_job_id_plain split: if_splits)

text \<open>
  The status path that Python asks for by text is four components below the root, the last
  three fixed by the layout and the job id: an id that could leave the flow's directory raises
  before a path is built.
\<close>

theorem py_status_file_contained:
  assumes "uuid_parse cr s = Ok u" and "plain_name (uuid_str u)" and "res_root r \<noteq> []"
  shows "py_status_file cr r s job_id =
    (case validate_job_id cr job_id of
       Err e \<Rightarrow> Err (pyerr_of cr e)
     | Ok _ \<Rightarrow> Ok (res_root r @ [Normal (uuid_str u), Normal ''.jm'', Normal job_id, Normal ''status.toml'']))"
proof -
  have u: "plain_uuid u" using assms(2) by (simp add: plain_uuid_def)
  have "flow_dir r u = res_root r @ [Normal (uuid_str u)]"
    using assms(2,3) by (simp add: flow_dir_def join_str_plain)
  then show ?thesis
    using assms(1) status_file_eq[OF u, of "JobId job_id" r]
    by (auto simp: py_status_file_def bad_uuid_def plain_id_def dest: validate_job_id_plain split: sum.split)
qed

lemma py_status_file_contained_witness:
  "py_status_file sample_crates sample_root (uuid_str sample_uuid) ''freq__ax=1''
     = Ok ([RootDir, Normal ''data'', Normal (uuid_str sample_uuid), Normal ''.jm'', Normal ''freq__ax=1'',
         Normal ''status.toml''])
   \<and> is_err (py_status_file sample_crates sample_root (uuid_str sample_uuid) ''../../x'')"
proof -
  have p: "uuid_parse sample_crates (uuid_str sample_uuid) = Ok sample_uuid" "res_root sample_root \<noteq> []"
    by (simp_all add: sample_crates_def sample_root_def)
  note f = py_status_file_contained[OF p(1) plain_sample_uuid p(2)]
  have "list_all valid_job_id_char ''freq__ax=1''" "\<not> list_all valid_job_id_char ''../../x''" by code_simp+
  then have "validate_job_id sample_crates ''freq__ax=1'' = Ok ''freq__ax=1''"
    "is_err (validate_job_id sample_crates ''../../x'')"
    using parse_sample_ids(2)[of sample_crates] by (simp_all add: validate_job_id_def)
  then show ?thesis using f[of "''freq__ax=1''"] f[of "''../../x''"]
    by (auto simp: sample_root_def is_err_def split: sum.splits)
qed

subsection \<open>Which exception a reader raises\<close>

lemma py_io_run: "py_io cr m w = (map_err (pyerr_of cr) (fst (m w)), snd (m w))"
  by (simp add: py_io_def act_map_err_def split: prod.split)

text \<open>
  C34. What reading a status raises in Python, on every branch and with any failing system call.
  A failing call raises FileNotFoundError if the system says that the file is missing, and OSError
  otherwise, a refused permission for one. When no call fails: FileNotFoundError when nothing is
  there, OSError when the path goes through a file or is a directory or the bytes are not UTF-8,
  ValueError when the size is over the limit or the text does not parse, and otherwise the run.
\<close>

theorem py_reader_errors:
  "fst (py_read_job_run cr path w) =
    (let raised = (\<lambda>e. if io_kind e = NotFound then Err (PyFileNotFoundError (err_display cr (Io path e)))
                       else Err (PyOSError (err_display cr (Io path e))))
     in case w_fault w (w_step w) of
       Some flt \<Rightarrow> raised (fault_error flt)
     | None \<Rightarrow>
        (case node_at path w of
           None \<Rightarrow> if below_file path w then Err (PyOSError (err_display cr (Io path (io_error NotADirectory))))
                   else Err (PyFileNotFoundError (err_display cr (Io path (io_error NotFound))))
         | Some n \<Rightarrow>
             if unat (max_toml_size w) < node_len w path n
             then Err (PyValueError (err_display cr (FileTooLarge path (node_len w path n) (unat (max_toml_size w)))))
             else (case w_fault w (Suc (w_step w)) of
                 Some flt \<Rightarrow> raised (fault_error flt)
               | None \<Rightarrow> (case n of
                     Dir \<Rightarrow> Err (PyOSError (err_display cr (Io path (io_error IsADirectory))))
                   | File t \<Rightarrow>
                       if \<not> utf8 t then Err (PyOSError (err_display cr (Io path (io_error InvalidData))))
                       else map_err (\<lambda>e. PyValueError (err_display cr (TomlParse path e))) (toml_de_run cr t)))))"
proof -
  have kind: "io_kind (io_error k) = k" for k by (simp add: io_error_def)
  have "fst (py_read_job_run cr path w) = map_err (pyerr_of cr)
      (res_bind (fst (read_toml_string path w)) (\<lambda>t. map_err (TomlParse path) (toml_de_run cr t)))"
    by (cases "read_toml_string path w"; cases "fst (read_toml_string path w)")
      (simp_all add: py_read_job_run_def py_io_run read_job_run_def read_toml_def act_bind_def act_lift_def)
  then show ?thesis
    unfolding read_toml_string_result
    by (simp add: pyerr_of_def Let_def kind no_entry_def map_err_def res_bind_def
        split: option.split node.split sum.split)
qed

definition status_of_b :: Path where
  "status_of_b = status_file sample_root sample_uuid (JobId ''b'')"

lemma py_reader_errors_witness:
  "fst (py_read_job_run sample_crates status_of_b (status_world Queued Running)) = Ok (run_with Running 2)
   \<and> fst (py_read_job_run sample_crates [RootDir] (status_world Queued Running))
       = Err (PyOSError ''io error at /: Is a directory (os error 21)'')
   \<and> fst (py_read_job_run sample_crates [RootDir, Normal ''x''] (status_world Queued Running))
       = Err (PyFileNotFoundError ''io error at /x: No such file or directory (os error 2)'')"
proof -
  let ?w = "status_world Queued Running"
  have nf: "w_fault ?w n = None" for n by (simp add: status_world_def quiet_world_def)
  note r = py_reader_errors[of sample_crates]
  have b: "fst (py_read_job_run sample_crates status_of_b ?w) = Ok (run_with Running 2)"
    unfolding r status_of_b_def status_world_nodes nf
    using run_text_length[of Running] decode_encode_run[OF run_text_eq]
    by (simp add: status_world_nodes(4) DEFAULT_MAX_TOML_SIZE_def sample_crates_def node_len_def)
  have "node_at [RootDir] ?w = Some Dir" by (simp add: node_at_def)
  moreover have "node_at [RootDir, Normal ''x''] ?w = None"
    using status_world_other[of "[RootDir, Normal ''x'']" Queued Running] sample_plain(1)
    by (cases "node_at [RootDir, Normal ''x''] ?w") (auto simp: status_level_def)
  moreover have "path_display [RootDir] = ''/''" "path_display [RootDir, Normal ''x''] = ''/x''" by code_simp+
  moreover have "w_dir_len ?w p = 4096" for p by (simp add: status_world_def quiet_world_def)
  moreover have "\<not> below_file [RootDir, Normal ''x''] ?w" by (simp add: below_file_def node_at_def)
  ultimately show ?thesis
    using b by (simp add: r nf io_error_def node_len_def status_world_nodes(4) DEFAULT_MAX_TOML_SIZE_def)
qed

subsection \<open>Well-formed plans\<close>

lemma res_fold_invariant:
  assumes "res_fold step acc es = Ok acc'" and "P acc"
    and "\<And>acc e acc'. step acc e = Ok acc' \<Longrightarrow> P acc \<Longrightarrow> P acc'"
  shows "P acc'"
  using assms(1,2) by (induction es arbitrary: acc) (auto simp: res_simps intro: assms(3))

text \<open>
  C32. A plan built in Python is well formed whatever the dictionary held: every job id of it is
  accepted by the parser and is one plain path component, so the status paths of its jobs stay in
  the flow's directory. A plan read from a file has no such guarantee.
\<close>

theorem py_plan_well_formed:
  assumes "py_plan_new py cr d = Ok plan"
  shows "list_all (\<lambda>j. is_ok (validate_job_id cr (jid j)) \<and> is_ok (parse_job_id cr (jid j)) \<and> plain_name (jid j))
    (bt_keys (plan_jobs plan))"
proof -
  let ?P = "\<lambda>m. \<forall>j\<in>set (bt_keys m). \<exists>t. validate_job_id cr (jid j) = Ok t"
  have step: "?P m'" if "plan_job py cr m e = Ok m'" "?P m" for m e m'
    using that by (auto simp: plan_job_def res_simps split: prod.splits)
  obtain m where "res_fold (plan_job py cr) bt_empty d = Ok m" "plan = \<lparr>plan_jobs = m\<rparr>"
    using assms by (auto simp: py_plan_new_def res_simps)
  with res_fold_invariant[of "plan_job py cr" bt_empty d m ?P, OF _ _ step] have v: "?P (plan_jobs plan)" by auto
  have "is_ok (parse_job_id cr s) \<and> plain_name s" if "validate_job_id cr s = Ok t" for s t
    using that validate_job_id_plain[OF that] by (auto simp: validate_job_id_def res_simps split: if_splits)
  then show ?thesis using v by (force simp: list_all_iff)
qed

lemma py_plan_well_formed_witness:
  "py_plan_new sample_pyo3 sample_crates
     [(PyStr ''a'', PyDict [(PyStr ''x'', PyInt 1)]), (PyStr ''b'', PyDict [])] = Ok sample_plan
   \<and> list_all (\<lambda>j. is_ok (validate_job_id sample_crates (jid j)) \<and> is_ok (parse_job_id sample_crates (jid j))
        \<and> plain_name (jid j)) [JobId ''a'', JobId ''b'']"
proof -
  have "py_plan_new sample_pyo3 sample_crates
     [(PyStr ''a'', PyDict [(PyStr ''x'', PyInt 1)]), (PyStr ''b'', PyDict [])] = Ok sample_plan"
    by code_simp
  moreover have "bt_keys (plan_jobs sample_plan) = [JobId ''a'', JobId ''b'']" by code_simp
  ultimately show ?thesis using py_plan_well_formed by metis
qed

subsection \<open>The gate on built identifiers\<close>

lemma res_fold_unit:
  "res_fold (\<lambda>_ e. map_ok (\<lambda>_. ()) (f e)) () es = Ok () \<longleftrightarrow> list_all (\<lambda>e. is_ok (f e)) es"
proof (induction es)
  case (Cons e es)
  then show ?case by (cases "f e") simp_all
qed simp

lemma is_ok_map_err [simp]: "is_ok (map_err f r) = is_ok r"
  by (cases r) simp_all

lemma is_ok_validate_step: "is_ok (validate_step_id a) \<longleftrightarrow> validate_step_id a = Ok a"
  by (simp add: validate_step_id_def)

lemma py_build_job_id_Ok:
  "py_build_job_id cr step combo = Ok s \<longleftrightarrow> s = build_job_id step combo \<and> validate_step_id step = Ok step
    \<and> list_all (\<lambda>(ax, _). validate_step_id ax = Ok ax) combo"
proof -
  let ?g = "\<lambda>e. map_err (pyerr_of cr) (validate_step_id (fst e))"
  have f: "(\<lambda>_ (ax, _). map_ok (\<lambda>_. ()) (map_err (pyerr_of cr) (validate_step_id ax)))
      = (\<lambda>(_ :: unit) e. map_ok (\<lambda>_. ()) (?g e))"
    by (simp add: fun_eq_iff split: prod.split)
  have "py_build_job_id cr step combo = Ok s \<longleftrightarrow> is_ok (validate_step_id step)
      \<and> res_fold (\<lambda>_ e. map_ok (\<lambda>_. ()) (?g e)) () combo = Ok () \<and> s = build_job_id step combo"
    unfolding py_build_job_id_def f
    by (cases "validate_step_id step"; cases "res_fold (\<lambda>_ e. map_ok (\<lambda>_. ()) (?g e)) () combo") auto
  then show ?thesis unfolding res_fold_unit by (auto simp: is_ok_validate_step case_prod_unfold)
qed

text \<open>
  Python builds an identifier exactly from a valid step id and valid axis names, and that is
  not enough for \<open>parse_job_id\<close> to give the parts back: it does so exactly when, besides, no name
  holds a double underscore and the step id of an identifier with axes does not end with an
  underscore. So the gate lets identifiers through that the same module refuses or misreads.
\<close>

theorem py_build_gate:
  "(case py_build_job_id cr step combo of
      Err _ \<Rightarrow> \<not> (validate_step_id step = Ok step \<and> list_all (\<lambda>(ax, _). validate_step_id ax = Ok ax) combo)
    | Ok s \<Rightarrow> s = build_job_id step combo
        \<and> (parse_job_id cr s = Ok \<lparr>source_step_id = step, axis_combo = combo\<rparr>
           \<longleftrightarrow> find_sub ''__'' step = None \<and> (combo = [] \<or> \<not> ends_with_char step CHR ''_'')
             \<and> list_all (\<lambda>(ax, _). find_sub ''__'' ax = None) combo))"
proof (cases "py_build_job_id cr step combo")
  case (Inl e)
  then show ?thesis using py_build_job_id_Ok[of cr step combo "build_job_id step combo"] by auto
next
  case (Inr s)
  then have "s = build_job_id step combo" "validate_step_id step = Ok step"
    "list_all (\<lambda>(ax, _). validate_step_id ax = Ok ax) combo"
    by (simp_all add: py_build_job_id_Ok)
  moreover from this have "id_encodable step combo \<longleftrightarrow> find_sub ''__'' step = None
      \<and> (combo = [] \<or> \<not> ends_with_char step CHR ''_'') \<and> list_all (\<lambda>(ax, _). find_sub ''__'' ax = None) combo"
    by (auto simp: id_encodable_def list_all_iff)
  moreover have "parse_job_id cr (build_job_id step combo) = Ok \<lparr>source_step_id = step, axis_combo = combo\<rparr>
      \<longleftrightarrow> id_encodable step combo"
    using parse_build_encodable encodable_parse_build by blast
  ultimately show ?thesis using Inr by simp
qed

subsection \<open>Two front ends, one submission\<close>

lemma println_fold:
  "act_foldM (\<lambda>_ x. println (f x)) () xs w = (Ok (), w\<lparr>w_out := w_out w @ map (\<lambda>x. f x @ newline) xs\<rparr>)"
proof (induction xs arbitrary: w)
  case (Cons x xs)
  then show ?case using Cons.IH[of "w\<lparr>w_out := w_out w @ [f x @ newline]\<rparr>"]
    by (simp add: act_bind_def println_run)
qed simp

lemma map_of_job_entries: "map_of (map (\<lambda>(j, i). (jid j, i)) xs) k = map_of xs (JobId k)"
  by (induction xs) auto

lemma map_err_bind:
  "act_bind (act_map_err f a) (\<lambda>x. act_bind (act_map_err f (b x)) k) = act_bind (act_map_err f (act_bind a b)) k"
  by (auto simp: fun_eq_iff act_bind_def act_map_err_def map_err_def split: prod.splits sum.splits)

definition submitted_lines :: "(string \<times> u64) list \<Rightarrow> string list" where
  \<comment> \<open>what \<open>jm submit\<close> prints\<close>
  "submitted_lines es = (''submitted '' @ show_nat (length es) @ '' jobs'' @ newline)
     # map (\<lambda>(k, i). ''  '' @ k @ '' -> '' @ show_nat (unat i) @ newline) es"

text \<open>
  C30. The Python function and \<open>jm submit\<close> are the same submission: on the same root and uuid they
  fail together, with the same error behind the two presentations and the same world, or succeed
  together, where the command only prints, in key order, the map that Python returns.
\<close>

theorem py_submit_agrees_with_cli:
  fixes w :: "'x world_scheme"
  assumes "\<not> is_absolute (path_of target)"
  shows "case (py_submit_flow (sbatch_spawn h) cr root target dry w, cmd_submit h cr root target dry w) of
      ((Ok m, w1), (Ok _, w2)) \<Rightarrow>
        \<exists>es. map_of es = m \<and> sorted_wrt (<) (map fst es) \<and> w2 = w1\<lparr>w_out := w_out w1 @ submitted_lines es\<rparr>
    | ((Err e, w1), (Err e', w2)) \<Rightarrow> w1 = w2
        \<and> ((\<exists>t. e = PyValueError t \<and> e' = Msg (''invalid uuid: '' @ t))
           \<or> (\<exists>je. e = pyerr_of cr je \<and> e' = FromJm je))
    | _ \<Rightarrow> False"
proof (cases "uuid_parse cr target")
  case (Inl t)
  then show ?thesis
    using assms by (simp add: py_submit_flow_def cmd_submit_def parse_target_def Let_def act_bind_def act_lift_def)
next
  case (Inr u)
  let ?r = "\<lparr>res_root = root\<rparr>"
  let ?ex = "if dry then dry_run_executor cr else sbatch_executor (sbatch_spawn h)"
  let ?go = "act_bind (flow_run_read cr ?r u) (\<lambda>fr. submit ?ex cr ?r fr dry)"
  obtain res v where go: "?go w = (res, v)" by fastforce
  have py: "py_submit_flow (sbatch_spawn h) cr root target dry w
      = act_bind (act_map_err (pyerr_of cr) ?go) (\<lambda>result. ret (\<lambda>k. bt_get result (JobId k))) w"
    using Inr unfolding py_submit_flow_def Let_def py_io_def map_err_bind by (simp add: act_bind_def act_lift_def)
  have cli: "cmd_submit h cr root target dry w
      = act_bind (act_map_err FromJm ?go) (\<lambda>jobids.
          act_bind (println (''submitted '' @ show_nat (bt_len jobids) @ '' jobs'')) (\<lambda>_.
          act_foldM (\<lambda>_ (j, i). println (''  '' @ jid j @ '' -> '' @ show_nat (unat i))) () (bt_entries jobids))) w"
    using Inr assms unfolding cmd_submit_def Let_def map_err_bind by (simp add: parse_target_def act_bind_def act_lift_def)
  show ?thesis
  proof (cases res)
    case (Inl je)
    then show ?thesis unfolding py cli using go by (auto simp: act_bind_def act_map_err_def)
  next
    case (Inr m)
    let ?es = "map (\<lambda>(j, i). (jid j, i)) (bt_entries m)"
    have "(\<lambda>_ (j, i). println (''  '' @ jid j @ '' -> '' @ show_nat (unat i)))
        = (\<lambda>(_ :: unit) x. (println (''  '' @ jid (fst x) @ '' -> '' @ show_nat (unat (snd x))) :: ('x, unit) cli))"
      by (simp add: fun_eq_iff split: prod.split)
    then have "cmd_submit h cr root target dry w = (Ok (), v\<lparr>w_out := w_out v @ submitted_lines ?es\<rparr>)"
      unfolding cli using go Inr
      by (simp add: act_bind_def act_map_err_def println_fold submitted_lines_def bt_len_def println_run
          case_prod_unfold comp_def)
    moreover have "py_submit_flow (sbatch_spawn h) cr root target dry w = (Ok (\<lambda>k. bt_get m (JobId k)), v)"
      unfolding py using go Inr by (simp add: act_bind_def act_map_err_def)
    moreover have "map_of ?es = (\<lambda>k. bt_get m (JobId k))" by (simp add: fun_eq_iff map_of_job_entries bt_get_def)
    moreover have "sorted_wrt (<) (map fst ?es)"
      using bt_sorted[of m] by (simp add: bt_keys_def sorted_wrt_map less_JobId_def case_prod_unfold)
    ultimately show ?thesis by auto
  qed
qed

lemma doctor_world_tidy: "tidy sample_root sample_uuid doctor_world"
proof -
  have u: "plain_uuid sample_uuid" using sample_plain(1) by simp
  have n: "node_at q doctor_world = Some n \<Longrightarrow> q = [] \<or> q = [RootDir] \<or>
      (q = flow_toml sample_root sample_uuid \<or> q = plan_toml sample_root sample_uuid) \<and> n \<noteq> Dir" for q n
    by (auto simp: node_at_def doctor_world_def quiet_world_def split: if_splits)
  have "flow_toml sample_root sample_uuid \<notin> submit_dirs sample_root sample_uuid"
    "plan_toml sample_root sample_uuid \<notin> submit_dirs sample_root sample_uuid"
    using u by (auto simp: submit_dirs_def path_simps path_starts_with_iff dotless_def append_eq_append_conv2 append_eq_Cons_conv Cons_eq_append_conv)
  then have "node_at q doctor_world \<noteq> Some (File s)" if "q \<in> submit_dirs sample_root sample_uuid" for q s
    using n[of q "File s"] that by (auto simp: node_at_def)
  moreover have "node_at q doctor_world \<noteq> Some Dir" if "q \<in> submit_files sample_root sample_uuid" for q
    using submit_files_shape[OF u that] n[of q Dir] by auto
  ultimately show ?thesis by (simp add: tidy_def)
qed

lemma py_submit_agrees_with_cli_witness:
  "\<exists>w1. py_submit_flow (sbatch_spawn new_host) (doctor_crates (jobs sample_flow)) [RootDir, Normal ''data'']
      (uuid_str sample_uuid) True doctor_world = (Ok Map.empty, w1)
    \<and> cmd_submit new_host (doctor_crates (jobs sample_flow)) [RootDir, Normal ''data'']
      (uuid_str sample_uuid) True doctor_world = (Ok (), w1\<lparr>w_out := w_out w1 @ [''submitted 0 jobs'' @ newline]\<rparr>)"
proof -
  let ?cr = "doctor_crates (jobs sample_flow)" and ?root = "[RootDir, Normal ''data'']"
  have r: "\<lparr>res_root = ?root\<rparr> = sample_root" by (simp add: sample_root_def)
  have fr: "val (flow_run_read ?cr sample_root sample_uuid) doctor_world = Ok sample_run"
    using doctor_world_read by (simp add: sample_run_def)
  obtain k where read: "flow_run_read ?cr sample_root sample_uuid doctor_world = (Ok sample_run, advance k doctor_world)"
    using steady_run[OF flow_readers_steady(1) doctor_world_quiet, of ?cr sample_root sample_uuid] unfolding fr by blast
  have js: "submittable ?cr sample_run j" if "j \<in> set [JobId ''a'', JobId ''b'']" for j
  proof -
    have "parse_job_id ?cr (jid j) = Ok \<lparr>source_step_id = jid j, axis_combo = []\<rparr>"
    proof -
      have "id_encodable ''a'' []" "id_encodable ''b'' []" by code_simp+
      then show ?thesis using that parse_build_encodable[of "jid j" "[]" ?cr] by (auto simp: build_job_id_def)
    qed
    then show ?thesis
      using sample_jobs_ready[OF that] that sample_keys bt_in_keys[of j "jobs (run_flow sample_run)"]
      by (auto simp: submittable_def)
  qed
  have ser: "toml_ser_flow ?cr (run_flow sample_run) = Ok ''FLOW''" by (simp add: doctor_crates_def sample_crates_def)
  have t: "tidy sample_root sample_uuid (advance k doctor_world)" using doctor_world_tidy by (simp add: tidy_def)
  have nf: "no_faults (advance k doctor_world)" using doctor_world_quiet by simp
  obtain m w1 where s: "submit (dry_run_executor ?cr) ?cr sample_root sample_run True (advance k doctor_world) = (Ok m, w1)"
    using dry_run_succeeds[OF nf sample_plain(1) _ sample_order js ser, of sample_root "dry_run_executor ?cr"] t by auto
  have "recorded_jobid ?cr (status_file sample_root sample_uuid j) (advance k doctor_world) = None"
    if "j \<in> set [JobId ''a'', JobId ''b'']" for j
  proof -
    have "plain_uuid sample_uuid" "plain_id j" using that sample_plain by auto
    then have "node_at (status_file sample_root sample_uuid j) doctor_world = None"
      by (auto simp: node_at_def doctor_world_def quiet_world_def path_simps)
    then show ?thesis by (simp add: recorded_jobid_def)
  qed
  then have "bt_get m j = None" for j
    using dry_run_reports[OF _ _ s, of j] sample_plain(1) nf sample_keys by (auto simp: plain_uuid_def no_faults_def)
  then have "(\<lambda>k. bt_get m (JobId k)) = Map.empty" by simp
  moreover have "uuid_parse ?cr (uuid_str sample_uuid) = Ok sample_uuid" by (simp add: doctor_crates_def sample_crates_def)
  ultimately have py: "py_submit_flow (sbatch_spawn new_host) ?cr ?root (uuid_str sample_uuid) True doctor_world = (Ok Map.empty, w1)"
    using read s by (simp add: py_submit_flow_def r Let_def py_io_def act_bind_def act_lift_def act_map_err_def)
  have "\<not> is_absolute (path_of (uuid_str sample_uuid))" by code_simp
  from py_submit_agrees_with_cli[OF this, where h = new_host and cr = ?cr and root = ?root and dry = True and w = doctor_world] py
  have "\<exists>y. cmd_submit new_host ?cr ?root (uuid_str sample_uuid) True doctor_world
      = (Ok y, w1\<lparr>w_out := w_out w1 @ submitted_lines []\<rparr>)"
    by (auto split: prod.splits sum.splits)
  moreover have "submitted_lines [] = [''submitted 0 jobs'' @ newline]" by code_simp
  ultimately show ?thesis using py by auto
qed

subsection \<open>Views and walks\<close>

text \<open>
  A Python view answers its directory and its status path for the uuid it was asked for, but lists
  the files of the directory of the uuid that flow.toml holds: the two are the same directory
  exactly when these uuids agree, which nothing checks.
\<close>

lemma py_view_paths:
  assumes "py_view_new cr r uuid_s job_id w = (Ok v, w1)"
    and "plain_uuid (pv_uuid v)" and "plain_uuid (flow_id (pv_flow v))" and "plain_id (JobId job_id)"
    and "res_root r \<noteq> []"
  shows "\<exists>view. py_view_inner v = Ok view
    \<and> path_parent (py_view_status_path v) = Some (py_view_job_dir v)
    \<and> (cv_job_dir view = py_view_job_dir v \<longleftrightarrow> flow_id (pv_flow v) = pv_uuid v)"
proof -
  have v: "pv_resolver v = r" "pv_job_id v = JobId job_id" "bt_contains (jobs (pv_flow v)) (JobId job_id)"
    using assms(1) by (auto simp: py_view_new_def io_simps Let_def split: if_splits)
  let ?view = "\<lparr>cv_flow = pv_flow v, cv_job_id = JobId job_id, cv_resolver = r\<rparr>"
  have "py_view_inner v = Ok ?view" using v by (simp add: py_view_inner_def calc_view_new_def)
  moreover have "py_view_status_path v = py_view_job_dir v @ [Normal ''status.toml'']"
    using assms(2,4) v by (simp add: py_view_status_path_def py_view_job_dir_def path_simps)
  moreover have "cv_job_dir ?view = py_view_job_dir v \<longleftrightarrow> flow_id (pv_flow v) = pv_uuid v"
    using assms(2-5) v Uuid.expand
    by (auto simp: cv_job_dir_def py_view_job_dir_def path_simps flow_dir_def join_str_plain plain_uuid_def)
  ultimately show ?thesis by auto
qed

definition walk_common :: "crates \<Rightarrow> Path \<Rightarrow> 'x world_scheme \<Rightarrow> PyErr + CommonConfig" where
  "walk_common cr root w =
     (if node_at (join_str root ''common.toml'') w = None then Ok synth_empty_common
      else map_err (pyerr_of cr) (val (read_common cr (join_str root ''common.toml'')) w))"

text \<open>
  A walk from Python gives one entry per flow directory, in the order in which the reads complete:
  a flow that cannot be read is a pair in the list and does not end it.
\<close>

lemma traverse_total: "(\<And>x. x \<in> set xs \<Longrightarrow> f x = Ok (g x)) \<Longrightarrow> traverse f xs = Ok (map g xs)"
  by (induction xs) simp_all

lemma py_io_steady: "steady m \<Longrightarrow> steady (py_io cr m)"
  unfolding py_io_def by (rule steady_map_err)

lemma val_py_io: "val (py_io cr m) w = map_err (pyerr_of cr) (val m w)"
  by (simp add: py_io_def val_basic)

lemma py_walk_spec:
  fixes w :: "'x world_scheme"
  assumes nf: "no_faults w" and fair: "fair sched" and common: "walk_common cr root w = Ok common"
    and dir: "node_at root w = Some Dir" and conv: "\<And>item. list_item py item = Ok (g item)"
  shows "\<exists>entries. fst (py_walk_flows sched py cr root w) = Ok entries
    \<and> mset entries = image_mset (\<lambda>p. g (walk_item py cr (flow_value cr common w p))) (mset (flow_candidates root w))"
proof -
  let ?c = "join_str root ''common.toml''"
  let ?entries = "map (\<lambda>p. g (walk_item py cr (flow_value cr common w p))) (completed sched (flow_candidates root w))"
  let ?load = "\<lambda>ex. if ex then py_io cr (read_common cr ?c) else ret synth_empty_common"
  let ?rest = "\<lambda>common. act_bind (py_io cr (walk_flows sched cr root common))
      (\<lambda>results. act_lift (traverse (list_item py) (map (walk_item py cr) results)))"
  have st_load: "steady (?load ex)" for ex by (intro steady_if py_io_steady readers_steady steady_ret)
  have st_rest: "steady (?rest c)" for c by (intro steady_bind py_io_steady walk_steady steady_lift)
  have load: "val (?load (node_at ?c w \<noteq> None)) w = Ok common"
    using common by (cases "node_at ?c w") (simp_all add: walk_common_def val_basic val_py_io)
  have tot: "traverse (list_item py) xs = Ok (map g xs)" for xs by (rule traverse_total) (rule conv)
  have "listing_of root w = Ok (children root w)" using dir by (simp add: listing_of_def)
  then have "val (?rest common) w = traverse (list_item py) (map (walk_item py cr)
      (map (flow_value cr common w) (completed sched (flow_candidates root w))))"
    unfolding val_bind[OF py_io_steady[OF walk_steady] steady_lift nf] val_py_io val_walk[OF nf] by (simp add: val_basic)
  also have "\<dots> = Ok ?entries"
    by (simp add: tot comp_def)
  finally have "val (py_walk_flows sched py cr root) w = Ok ?entries"
    unfolding py_walk_flows_def Let_def val_bind[OF path_exists_steady steady_bind[OF st_load st_rest] nf]
      val_path_exists[OF nf] res_bind_simps val_bind[OF st_load st_rest nf] load .
  moreover have "mset ?entries = image_mset (\<lambda>p. g (walk_item py cr (flow_value cr common w p))) (mset (flow_candidates root w))"
    by (simp only: mset_map mset_completed[OF fair])
  ultimately show ?thesis unfolding val_def by blast
qed

end
