(* ===== verification/PyModule.thy ===== *)
theory PyModule
  imports PyExport Frames
begin

section \<open>The Python module as a whole (py_export/mod.rs)\<close>

text \<open>
  The functions that the module exports, as one type of calls with one interpreter. Every function
  passes its arguments on to the function of the same name in the other files of \<open>py_export\<close>. An
  awaitable is run to its end.
\<close>

datatype PyCall =
    CallWalkFlows Path
  | CallValidateStepId string
  | CallValidateJobId string
  | CallBuildJobId string "(string \<times> usize) list"
  | CallParseJobId string
  | CallReadPlan Path
  | CallWritePlan Path ExperimentPlan
  | CallRenderBatchBash string string string "(string, string) btree"
  | CallSubmitFlow Path string bool
  | CallReadCommon Path
  | CallWriteCommon Path string
  | CallReadFlow Path
  | CallWriteFlow Path string
  | CallReadFlowEffective Path
  | CallReadJobRun Path
  | CallWriteJobRun Path JobRun

datatype PyResult =
    ResNone
  | ResStr string
  | ResDict PyObj
  | ResList "PyObj list"
  | ResPlan ExperimentPlan
  | ResRun JobRun
  | ResJobids "string \<rightharpoonup> u64"

definition py_returns :: "('a \<Rightarrow> PyResult) \<Rightarrow> ('x, 'a) py \<Rightarrow> ('x, PyResult) py" where
  "py_returns f m = act_bind m (\<lambda>y. ret (f y))"

definition py_module ::
  "(SbatchCmd \<Rightarrow> 'x \<Rightarrow> (string + u64 option) \<times> 'x) \<Rightarrow> schedule \<Rightarrow> pyo3 \<Rightarrow> crates \<Rightarrow> PyCall
    \<Rightarrow> ('x, PyResult) py" where
  "py_module spawn sched py cr call = (case call of
     CallWalkFlows root \<Rightarrow> py_returns ResList (py_walk_flows sched py cr root)
   | CallValidateStepId s \<Rightarrow> py_returns ResStr (act_lift (py_validate_step_id cr s))
   | CallValidateJobId s \<Rightarrow> py_returns ResStr (act_lift (py_validate_job_id cr s))
   | CallBuildJobId step combo \<Rightarrow>
       py_returns ResStr (act_lift (py_build_job_id cr step combo))
   | CallParseJobId s \<Rightarrow> py_returns ResDict (act_lift (py_parse_job_id cr s))
   | CallReadPlan path \<Rightarrow> py_returns ResPlan (py_read_plan cr path)
   | CallWritePlan path plan \<Rightarrow> py_returns (\<lambda>_. ResNone) (py_write_plan cr path plan)
   | CallRenderBatchBash uuid_s job_id bdy params \<Rightarrow>
       py_returns ResStr (act_lift (py_render_batch_bash cr uuid_s job_id bdy params))
   | CallSubmitFlow root uuid_s dry_run \<Rightarrow>
       py_returns ResJobids (py_submit_flow spawn cr root uuid_s dry_run)
   | CallReadCommon path \<Rightarrow> py_returns ResStr (py_read_common py cr path)
   | CallWriteCommon path toml_str \<Rightarrow> py_returns (\<lambda>_. ResNone) (py_write_common cr path toml_str)
   | CallReadFlow path \<Rightarrow> py_returns ResStr (py_read_flow py cr path)
   | CallWriteFlow path toml_str \<Rightarrow> py_returns (\<lambda>_. ResNone) (py_write_flow cr path toml_str)
   | CallReadFlowEffective path \<Rightarrow> py_returns ResStr (py_read_flow_effective py cr path)
   | CallReadJobRun path \<Rightarrow> py_returns ResRun (py_read_job_run cr path)
   | CallWriteJobRun path run \<Rightarrow> py_returns (\<lambda>_. ResNone) (py_write_job_run cr path run))"

definition py_area :: "crates \<Rightarrow> PyCall \<Rightarrow> Path set" where
  \<comment> \<open>the paths that a call may touch\<close>
  "py_area cr call = (case call of
     CallWritePlan path _ \<Rightarrow> write_set path
   | CallWriteCommon path _ \<Rightarrow> write_set path
   | CallWriteFlow path _ \<Rightarrow> write_set path
   | CallWriteJobRun path _ \<Rightarrow> write_set path
   | CallSubmitFlow root uuid_s dry_run \<Rightarrow>
       (case uuid_parse cr uuid_s of
          Err _ \<Rightarrow> {}
        | Ok u \<Rightarrow> if dry_run then dry_area \<lparr>res_root = root\<rparr> u else flow_area \<lparr>res_root = root\<rparr> u)
   | _ \<Rightarrow> {})"

definition really_submits :: "PyCall \<Rightarrow> bool" where
  "really_submits call \<longleftrightarrow> (\<exists>root s. call = CallSubmitFlow root s False)"

lemma obeys_py_io: "obeys (changes_only S) m \<Longrightarrow> obeys (changes_only S) (py_io cr m)"
  unfolding py_io_def by (rule frame.obeys_map_err)

lemma obeys_to_text: "obeys (changes_only S) (to_text cr ser)"
  unfolding to_text_def by (rule frame.obeys_lift)

lemma obeys_load_or_synth: "obeys (changes_only S) (load_or_synth_common cr path)"
  unfolding load_or_synth_common_def
  by (intro frame.obeys_bind frame.obeys_lift frame.obeys_if frame.obeys_ret obeys_path_exists obeys_py_io inv_intros)

lemma obeys_py_readers:
  "obeys (changes_only S) (py_walk_flows sched py cr root)" "obeys (changes_only S) (py_read_plan cr path)"
  "obeys (changes_only S) (py_read_common py cr path)" "obeys (changes_only S) (py_read_flow py cr path)"
  "obeys (changes_only S) (py_read_flow_effective py cr path)" "obeys (changes_only S) (py_read_job_run cr path)"
  unfolding py_walk_flows_def py_read_plan_def py_read_common_def py_read_flow_def py_read_flow_effective_def
    py_read_job_run_def Let_def
  by (intro frame.obeys_bind frame.obeys_lift frame.obeys_if frame.obeys_ret obeys_path_exists obeys_py_io
      obeys_to_text obeys_load_or_synth inv_intros)+

lemma obeys_py_writers:
  "obeys (changes_only (write_set path)) (py_write_plan cr path plan)"
  "obeys (changes_only (write_set path)) (py_write_common cr path s)"
  "obeys (changes_only (write_set path)) (py_write_flow cr path s)"
  "obeys (changes_only (write_set path)) (py_write_job_run cr path run)"
  unfolding py_write_plan_def py_write_common_def py_write_flow_def py_write_job_run_def
  by (intro frame.obeys_bind frame.obeys_lift obeys_py_io obeys_writers[OF subset_refl])+

lemma obeys_py_submit:
  assumes u: "\<And>u. uuid_parse cr s = Ok u \<Longrightarrow> plain_uuid u"
  shows "obeys (files_only (py_area cr (CallSubmitFlow root s dry))) (py_submit_flow spawn cr root s dry)"
  unfolding py_submit_flow_def Let_def
proof (rule files.obeys_bind_res[OF files.obeys_lift])
  let ?r = "\<lparr>res_root = root\<rparr>" and ?S = "py_area cr (CallSubmitFlow root s dry)"
  let ?ex = "if dry then dry_run_executor cr else sbatch_executor spawn"
  fix w v w1
  assume "act_lift (map_err PyValueError (uuid_parse cr s)) w = (Ok v, w1)"
  then have v: "uuid_parse cr s = Ok v" by (simp add: io_simps map_err_eq_Ok)
  show "obeys (files_only ?S) (act_bind (py_io cr (flow_run_read cr ?r v)) (\<lambda>fr.
      act_bind (py_io cr (submit ?ex cr ?r fr dry)) (\<lambda>result. ret (\<lambda>k. bt_get result (JobId k)))))"
  proof (rule files.obeys_bind_res)
    show "obeys (files_only ?S) (py_io cr (flow_run_read cr ?r v))"
      by (rule obeys_files[OF obeys_py_io[OF obeys_flow_readers(1)] subset_refl])
    fix w fr w1
    assume "py_io cr (flow_run_read cr ?r v) w = (Ok fr, w1)"
    then have fr: "flow_uuid fr = v"
      using flow_readers_uuid(1)[of cr ?r v w fr w1] by (simp add: py_io_def act_map_err_Ok)
    have "obeys (files_only ?S) (submit ?ex cr ?r fr dry)"
    proof (cases dry)
      case True
      then show ?thesis using obeys_files[OF obeys_submit_dry subset_refl, of fr ?r ?ex cr] u[OF v] v fr by (simp add: py_area_def)
    next
      case False
      then show ?thesis using obeys_submit[of fr ?r ?ex cr False] u[OF v] v fr by (simp add: py_area_def)
    qed
    then show "obeys (files_only ?S) (act_bind (py_io cr (submit ?ex cr ?r fr dry))
        (\<lambda>result. ret (\<lambda>k. bt_get result (JobId k))))"
      unfolding py_io_def by (intro files.obeys_bind files.obeys_map_err files.obeys_ret)
  qed
qed

lemma obeys_py_dry_run:
  assumes u: "\<And>u. uuid_parse cr s = Ok u \<Longrightarrow> plain_uuid u"
  shows "obeys (changes_only (py_area cr (CallSubmitFlow root s True))) (py_submit_flow spawn cr root s True)"
  unfolding py_submit_flow_def Let_def if_True
proof (rule frame.obeys_bind_res[OF frame.obeys_lift])
  let ?r = "\<lparr>res_root = root\<rparr>" and ?S = "py_area cr (CallSubmitFlow root s True)"
  fix w v w1
  assume "act_lift (map_err PyValueError (uuid_parse cr s)) w = (Ok v, w1)"
  then have v: "uuid_parse cr s = Ok v" by (simp add: io_simps map_err_eq_Ok)
  show "obeys (changes_only ?S) (act_bind (py_io cr (flow_run_read cr ?r v)) (\<lambda>fr.
      act_bind (py_io cr (submit (dry_run_executor cr) cr ?r fr True)) (\<lambda>result. ret (\<lambda>k. bt_get result (JobId k)))))"
  proof (rule frame.obeys_bind_res[OF obeys_py_io[OF obeys_flow_readers(1)]])
    fix w fr w1
    assume "py_io cr (flow_run_read cr ?r v) w = (Ok fr, w1)"
    then have fr: "flow_uuid fr = v"
      using flow_readers_uuid(1)[of cr ?r v w fr w1] by (simp add: py_io_def act_map_err_Ok)
    have "obeys (changes_only ?S) (submit (dry_run_executor cr) cr ?r fr True)"
      using obeys_submit_dry[of fr ?r "dry_run_executor cr" cr] u[OF v] v fr by (simp add: py_area_def)
    then show "obeys (changes_only ?S) (act_bind (py_io cr (submit (dry_run_executor cr) cr ?r fr True))
        (\<lambda>result. ret (\<lambda>k. bt_get result (JobId k))))"
      by (intro frame.obeys_bind obeys_py_io frame.obeys_ret)
  qed
qed

lemma obeys_py_module:
  fixes call :: PyCall
  assumes u: "\<And>s u. uuid_parse cr s = Ok u \<Longrightarrow> plain_uuid u"
  shows "obeys (files_only (py_area cr call)) (py_module spawn sched py cr call)"
    and "\<not> really_submits call \<Longrightarrow> obeys (changes_only (py_area cr call)) (py_module spawn sched py cr call)"
proof -
  have inert: "obeys (changes_only (py_area cr call)) (py_module spawn sched py cr call)" if "\<not> really_submits call"
  proof (cases "\<exists>root s. call = CallSubmitFlow root s True")
    case True
    then obtain root s where c: "call = CallSubmitFlow root s True" by blast
    have "obeys (changes_only (py_area cr call)) (py_submit_flow spawn cr root s True)"
      unfolding c by (rule obeys_py_dry_run[OF u])
    then show ?thesis unfolding c py_module_def py_returns_def PyCall.case by (intro frame.obeys_bind frame.obeys_ret)
  next
    case False
    then show ?thesis
      using that
      by (cases call) (auto simp: py_module_def py_returns_def py_area_def really_submits_def
          intro!: frame.obeys_bind frame.obeys_ret frame.obeys_lift obeys_py_readers obeys_py_writers)
  qed
  show "\<not> really_submits call \<Longrightarrow> obeys (changes_only (py_area cr call)) (py_module spawn sched py cr call)"
    by (rule inert)
  show "obeys (files_only (py_area cr call)) (py_module spawn sched py cr call)"
  proof (cases "really_submits call")
    case True
    then obtain root s where c: "call = CallSubmitFlow root s False" by (auto simp: really_submits_def)
    have "obeys (files_only (py_area cr call)) (py_submit_flow spawn cr root s False)"
      unfolding c by (rule obeys_py_submit[OF u])
    then show ?thesis unfolding c py_module_def py_returns_def PyCall.case by (intro files.obeys_bind files.obeys_ret)
  qed (rule obeys_files[OF inert subset_refl])
qed

text \<open>
  C35. What a Python program can touch through the module. Whatever fails, a call changes no path
  outside its area: nothing for the calls that read or compute; for the writers the named file, its
  temporaries and missing directories above it; for a submission the .jm directory of the flow
  whose UUID was given; for a dry run that without the status files. Only a real submission calls SLURM.
\<close>

theorem py_module_frame:
  assumes "\<forall>s u. uuid_parse cr s = Ok u \<longrightarrow> plain_name (uuid_str u)"
    and "py_module spawn sched py cr call w = (x, w')"
  shows "(\<forall>p. p \<notin> py_area cr call \<longrightarrow> node_at p w' = node_at p w)
    \<and> (\<not> really_submits call \<longrightarrow> world.more w' = world.more w)"
proof -
  have u: "\<And>s u. uuid_parse cr s = Ok u \<Longrightarrow> plain_uuid u" using assms(1) by (simp add: plain_uuid_def)
  show ?thesis
    using obeysD[OF obeys_py_module(1)[OF u] assms(2)] obeysD[OF obeys_py_module(2)[OF u] assms(2)]
    by (auto simp: files_only_def changes_only_def)
qed

definition strict_crates :: crates where
  \<comment> \<open>only one UUID can be parsed\<close>
  "strict_crates = sample_crates\<lparr>uuid_parse :=
     (\<lambda>s. if s = uuid_str sample_uuid then Ok sample_uuid else Err ''not a uuid'')\<rparr>"

lemma py_module_frame_witness:
  "\<exists>x w'. py_module (\<lambda>_ y. (Ok None, y)) (\<lambda>n. [0..<n]) sample_pyo3 strict_crates
      (CallSubmitFlow (res_root sample_root) (uuid_str sample_uuid) True) (status_world Success Queued) = (x, w')
    \<and> node_at (status_file sample_root sample_uuid (JobId ''a'')) w' = Some (File (run_text (run_with Success 1)))"
proof -
  let ?call = "CallSubmitFlow (res_root sample_root) (uuid_str sample_uuid) True"
  let ?p = "status_file sample_root sample_uuid (JobId ''a'')"
  obtain x w' where run: "py_module (\<lambda>_ y. (Ok None, y)) (\<lambda>n. [0..<n]) sample_pyo3 strict_crates ?call
      (status_world Success Queued) = (x, w')" by fastforce
  have plain: "\<forall>s u. uuid_parse strict_crates s = Ok u \<longrightarrow> plain_name (uuid_str u)"
    using sample_plain(1) by (simp add: strict_crates_def plain_uuid_def split: if_splits)
  have r: "\<lparr>res_root = res_root sample_root\<rparr> = sample_root" by (simp add: sample_root_def)
  have "uuid_parse strict_crates (uuid_str sample_uuid) = Ok sample_uuid" by (simp add: strict_crates_def)
  moreover have "?p \<notin> dry_area sample_root sample_uuid"
    by (rule status_not_in_dry_area) (use sample_plain in simp_all)
  ultimately have "?p \<notin> py_area strict_crates ?call" by (simp add: py_area_def r)
  then show ?thesis using py_module_frame[OF plain run] run status_world_nodes(1) by auto
qed

end
