(* ===== verification/Partial.thy ===== *)
theory Partial
  imports Liveness
begin

section \<open>A submission that stops half way\<close>

text \<open>
  \<open>submit\<close> stops at the first error, wherever it is. What it has done by then is a prefix of the
  order: the jobs sent to the executor are a prefix, and so are the jobs whose status was written.
  The two differ by at most one job, the one whose status failed to be written after the executor
  had taken it.
\<close>

definition sent :: "PathResolver \<Rightarrow> FlowRun \<Rightarrow> JobId list \<Rightarrow> ('x \<times> SbatchCmd list) world_scheme
    \<Rightarrow> ('x \<times> SbatchCmd list) world_scheme \<Rightarrow> bool" where
  \<comment> \<open>the executor was called for exactly these jobs, in this order\<close>
  "sent r fr js w w' \<longleftrightarrow> map cmd_script (snd (world.more w'))
     = map cmd_script (snd (world.more w)) @ map (batch_bash r (flow_uuid fr)) js"

lemma sent_none: "world.more w' = world.more w \<Longrightarrow> sent r fr [] w w'"
  by (simp add: sent_def)

lemma sent_trans: "sent r fr xs w w1 \<Longrightarrow> sent r fr ys w1 w' \<Longrightarrow> sent r fr (xs @ ys) w w'"
  by (simp add: sent_def)

lemma exec_sent:
  "exec (logged ex) (sbatch_cmd (batch_bash r (flow_uuid fr) j) cfg dep) w = (x, w') \<Longrightarrow>
    sent r fr [j] w w' \<and> (\<forall>p. node_at p w' = node_at p w)"
  by (cases "world.more w") (auto simp: exec_def logged_def sent_def sbatch_cmd_def node_at_def split: prod.splits)

lemma sent_more: "sent r fr js w w1 \<Longrightarrow> world.more w' = world.more w1 \<Longrightarrow> sent r fr js w w'"
  by (simp add: sent_def)

lemma send_job_Err:
  assumes s: "send_job (logged ex) cr r fr cfg sub j w = (Err e, w')"
    and u: "plain_uuid (flow_uuid fr)" and j: "plain_id j"
  shows "node_at (status_file r (flow_uuid fr) j) w' = node_at (status_file r (flow_uuid fr) j) w
    \<and> (\<exists>n. sent r fr (take n [j]) w w')"
proof (cases "dependency_build cr (parents_of fr j) sub j")
  case (Inl d)
  then have "w' = w" using s by (simp add: send_job_def act_bind_def act_lift_def)
  then show ?thesis by (auto simp: sent_def intro: exI[of _ 0])
next
  case (Inr dep)
  let ?p = "status_file r (flow_uuid fr) j"
  obtain x w1 where e: "exec (logged ex) (sbatch_cmd (batch_bash r (flow_uuid fr) j) cfg dep) w = (x, w1)" by fastforce
  note E = exec_sent[OF e]
  show ?thesis
  proof (cases x)
    case (Inl d)
    then have "w' = w1" using s Inr e by (simp add: send_job_def act_bind_def act_lift_def)
    then show ?thesis using E by (auto intro: exI[of _ 1])
  next
    case i: (Inr i)
    obtain now w2 where c: "clock_now w1 = (Ok now :: JobManagerError + _, w2)" by (simp add: clock_now_eq)
    have wr: "write_job_run cr ?p (queued_at now i) w2 = (Err e, w')"
      using s Inr e i c by (auto simp: send_job_def act_bind_def act_lift_def split: prod.splits sum.splits)
    have "file_name ?p \<noteq> None" using job_paths[OF u j, of r] by simp
    from write_toml_Err[OF wr[unfolded write_job_run_def] this]
    have "node_at ?p w' = node_at ?p w" using same_nodes[OF obeys_clock_now c] E by simp
    moreover have "world.more w' = world.more w1"
      using more_of[OF obeys_writers(3)[OF subset_UNIV] wr] more_of[OF obeys_clock_now[of UNIV] c] by simp
    ultimately show ?thesis using sent_more[OF conjunct1[OF E]] by (auto intro: exI[of _ 1])
  qed
qed

lemma submit_one_Err:
  assumes s: "submit_one (logged ex) cr r fr False (sub, eff) j w = (Err e, w')"
    and u: "plain_uuid (flow_uuid fr)"
  shows "(plain_id j \<longrightarrow> node_at (status_file r (flow_uuid fr) j) w' = node_at (status_file r (flow_uuid fr) j) w)
    \<and> (\<exists>n. sent r fr (take n [j]) w w')"
proof -
  let ?p = "status_file r (flow_uuid fr) j"
  obtain x w1 where rn: "render_job cr r fr j w = (x, w1)" by fastforce
  have more: "world.more w1 = world.more w" by (rule more_of[OF obeys_render_more[OF u] rn])
  have "obeys (changes_only (- {?p})) (render_job cr r fr j)" by (rule obeys_render_job[OF u]) blast
  from obeysD[OF this rn] have same: "node_at ?p w1 = node_at ?p w" by (simp add: changes_only_def)
  show ?thesis
  proof (cases x)
    case (Inl d)
    then have "w' = w1" using s rn by (simp add: submit_one_def act_bind_def)
    then show ?thesis using same sent_none[OF more] by (auto intro: exI[of _ 0])
  next
    case (Inr o')
    then have j: "plain_id j" using rn render_job_Ok parsed_plain by (cases o') blast
    show ?thesis
    proof (cases "bt_get eff j")
      case None
      then have "w' = w1" using s rn Inr by (simp add: submit_one_def act_bind_def)
      then show ?thesis using same sent_none[OF more] by (auto intro: exI[of _ 0])
    next
      case (Some cfg)
      then have "send_job (logged ex) cr r fr cfg sub j w1 = (Err e, w')"
        using s rn Inr by (auto simp: submit_one_def act_bind_def split: prod.splits sum.splits)
      from send_job_Err[OF this u j] show ?thesis using same more by (simp add: sent_def)
    qed
  qed
qed

lemma submit_one_sent:
  assumes s: "submit_one (logged ex) cr r fr False (sub, eff) j w = (Ok st, w')" and u: "plain_uuid (flow_uuid fr)"
  obtains i where "plain_id j" "recorded cr r fr j i w'" "sent r fr [j] w w'"
proof -
  obtain sub' eff' where st: "st = (sub', eff')" by fastforce
  obtain i cfg dep where "plain_id j" "recorded cr r fr j i w'"
    "logged ex (sbatch_cmd (batch_bash r (flow_uuid fr) j) cfg dep) (world.more w) = (Ok i, world.more w')"
    by (rule submit_one_Ok[OF s[unfolded st] u])
  moreover have "sent r fr [j] w w'" if "logged ex cmd (world.more w) = (x, world.more w')"
      and "cmd_script cmd = batch_bash r (flow_uuid fr) j" for cmd x
    using that by (cases "world.more w"; cases "world.more w'") (auto simp: sent_def logged_def split: prod.splits)
  ultimately show thesis using that by (simp add: sbatch_cmd_def)
qed

definition halted ::
  "crates \<Rightarrow> PathResolver \<Rightarrow> FlowRun \<Rightarrow> JobId list \<Rightarrow> ('x \<times> SbatchCmd list) world_scheme
    \<Rightarrow> ('x \<times> SbatchCmd list) world_scheme \<Rightarrow> nat \<Rightarrow> nat \<Rightarrow> bool" where
  \<comment> \<open>the first \<open>n\<close> jobs were sent and the first \<open>m\<close> recorded\<close>
  "halted cr r fr xs w w' m n \<longleftrightarrow> m \<le> n \<and> n \<le> Suc m \<and> m \<le> length xs \<and> sent r fr (take n xs) w w'
     \<and> (\<forall>j\<in>set (take m xs). \<exists>i. recorded cr r fr j i w')
     \<and> (\<forall>j\<in>set (drop m xs). plain_id j \<longrightarrow>
          node_at (status_file r (flow_uuid fr) j) w' = node_at (status_file r (flow_uuid fr) j) w)"

lemma submit_one_others:
  assumes "submit_one ex cr r fr dry_run st j w = (y, w1)" and u: "plain_uuid (flow_uuid fr)"
    and "k \<noteq> j" "plain_id k"
  shows "node_at (status_file r (flow_uuid fr) k) w1 = node_at (status_file r (flow_uuid fr) k) w"
proof -
  have "files_only (loop_area r (flow_uuid fr) {j}) w w1"
    by (rule obeysD[OF obeys_submit_one[OF u] assms(1)]) (auto simp: loop_area_def)
  then show ?thesis using status_not_in_loop[OF u assms(4), of "{j}" r] assms(3) by (simp add: files_only_def)
qed

lemma recorded_kept:
  assumes "recorded cr r fr j i w" and "files_only (loop_area r (flow_uuid fr) js) w w'"
    and "plain_uuid (flow_uuid fr)" "plain_id j" "j \<notin> js"
  shows "recorded cr r fr j i w'"
  using assms(1,2) status_not_in_loop[OF assms(3-5), of r]
  by (auto simp: recorded_def files_only_def same_host_def)

lemma halted_first:
  assumes "sent r fr (take n [j]) w w'"
    and "\<And>k. k \<in> set (j # xs) \<Longrightarrow> plain_id k \<Longrightarrow>
      node_at (status_file r (flow_uuid fr) k) w' = node_at (status_file r (flow_uuid fr) k) w"
  shows "\<exists>n. halted cr r fr (j # xs) w w' 0 n"
proof (intro exI)
  show "halted cr r fr (j # xs) w w' 0 (min n 1)"
    using assms unfolding halted_def by (cases n) simp_all
qed

lemma halted_Cons:
  assumes "halted cr r fr xs w1 w' m n" and "sent r fr [j] w w1" and "recorded cr r fr j i w'"
    and "\<And>k. k \<in> set xs \<Longrightarrow> plain_id k \<Longrightarrow>
      node_at (status_file r (flow_uuid fr) k) w1 = node_at (status_file r (flow_uuid fr) k) w"
  shows "halted cr r fr (j # xs) w w' (Suc m) (Suc n)"
  using assms sent_trans[OF assms(2)] by (auto simp: halted_def dest: in_set_dropD)

lemma submit_loop_halts:
  assumes "act_foldM (submit_one (logged ex) cr r fr False) st xs w = (res, w')"
    and u: "plain_uuid (flow_uuid fr)" and "distinct xs"
  shows "\<exists>m n. halted cr r fr xs w w' m n \<and> (is_ok res \<longrightarrow> m = length xs)"
  using assms(1,3)
proof (induction xs arbitrary: st w)
  case Nil
  then show ?case by (auto simp: halted_def sent_def io_simps)
next
  case (Cons j xs)
  obtain sub eff where st: "st = (sub, eff)" by fastforce
  obtain y w1 where s: "submit_one (logged ex) cr r fr False (sub, eff) j w = (y, w1)" by fastforce
  have other: "node_at (status_file r (flow_uuid fr) k) w1 = node_at (status_file r (flow_uuid fr) k) w"
    if "k \<in> set xs" "plain_id k" for k
    by (rule submit_one_others[OF s u]) (use that Cons.prems(2) in auto)
  show ?case
  proof (cases y)
    case (Inl e)
    then have w': "w' = w1" "res = Err e" using Cons.prems(1) s st by (simp_all add: act_bind_def)
    have "\<exists>n. halted cr r fr (j # xs) w w1 0 n"
      using submit_one_Err[OF s[unfolded Inl] u] other by (auto intro!: halted_first)
    then show ?thesis using w' by auto
  next
    case (Inr st1)
    have l: "act_foldM (submit_one (logged ex) cr r fr False) st1 xs w1 = (res, w')"
      using Cons.prems(1) s st Inr by (simp add: act_bind_def)
    obtain i where j: "plain_id j" and rec: "recorded cr r fr j i w1" and one: "sent r fr [j] w w1"
      by (rule submit_one_sent[OF s[unfolded Inr] u])
    obtain m n where IH: "halted cr r fr xs w1 w' m n" and ok: "is_ok res \<longrightarrow> m = length xs"
      using Cons.IH[OF l] Cons.prems(2) by auto
    have "recorded cr r fr j i w'"
      by (rule recorded_kept[OF rec obeysD[OF obeys_submit_loop[OF u] l] u j]) (use Cons.prems(2) in simp)
    from halted_Cons[OF IH one this other] show ?thesis
      using ok by (intro exI[of _ "Suc m"] exI[of _ "Suc n"]) simp
  qed
qed

lemma halted_start:
  assumes "world.more w' = world.more w"
    and "\<And>j. plain_id j \<Longrightarrow> node_at (status_file r (flow_uuid fr) j) w' = node_at (status_file r (flow_uuid fr) j) w"
  shows "halted cr r fr xs w w' 0 0"
  using assms sent_none by (simp add: halted_def)

lemma halted_after:
  assumes "halted cr r fr xs w1 w' m n" and "world.more w1 = world.more w"
    and "\<And>j. plain_id j \<Longrightarrow> node_at (status_file r (flow_uuid fr) j) w1 = node_at (status_file r (flow_uuid fr) j) w"
  shows "halted cr r fr xs w w' m n"
  using assms by (simp add: halted_def sent_def)

lemma submit_halts:
  assumes u: "plain_uuid (flow_uuid fr)" and o: "run_order fr = Ok order"
    and s: "submit (logged ex) cr r fr False w = (res, w')"
  shows "\<exists>m n. halted cr r fr order w w' m n \<and> (is_ok res \<longrightarrow> m = length order)"
proof -
  let ?S = "write_set (flow_effective_toml r (flow_uuid fr))"
  let ?pre = "act_bind (write_snapshot cr r fr) (\<lambda>_. act_bind (preseed cr r fr) (\<lambda>sub.
      act_bind (preflight r fr order) (\<lambda>eff. ret (sub, eff))))"
  have sub: "submit (logged ex) cr r fr False w = act_bind ?pre (\<lambda>st.
      act_bind (act_foldM (submit_one (logged ex) cr r fr False) st order) (\<lambda>st. ret (fst st))) w"
    by (simp add: submit_def act_bind_def act_lift_def ret_def o split_beta split: sum.splits)
  obtain x w1 where p: "?pre w = (x, w1)" by fastforce
  have "obeys (changes_only ?S) ?pre"
    by (intro frame.obeys_bind frame.obeys_ret obeys_snapshot inv_intros) simp
  from obeysD[where m = ?pre, OF this p] have same: "node_at (status_file r (flow_uuid fr) j) w1 = node_at (status_file r (flow_uuid fr) j) w"
    if "plain_id j" for j
    using status_not_in_snapshot[OF u that] that by (simp add: changes_only_def)
  have "obeys (changes_only UNIV) ?pre"
    by (intro frame.obeys_bind frame.obeys_ret obeys_snapshot inv_intros) simp
  from more_of[where m = ?pre, OF this p] have more: "world.more w1 = world.more w" .
  show ?thesis
  proof (cases x)
    case (Inl e)
    then have "w' = w1" "res = Err e" using s sub p by (simp_all add: act_bind_def)
    then show ?thesis using halted_start[OF more same] by auto
  next
    case (Inr st)
    obtain y w2 where l: "act_foldM (submit_one (logged ex) cr r fr False) st order w1 = (y, w2)" by fastforce
    then have "w' = w2" "is_ok res = is_ok y"
      using s sub p Inr by (auto simp: act_bind_def io_simps split: prod.splits sum.splits)
    then show ?thesis using submit_loop_halts[OF l u run_order_sound(1)[OF o]] halted_after[OF _ more same] by metis
  qed
qed

text \<open>
  C18. Whatever stops a submission, a system call, the executor or a wrong entry of the flow, what it
  has done is two prefixes of the topological order: the executor was called for the first \<open>n\<close>
  jobs, in order and once each, and the first \<open>m\<close> jobs are recorded as queued under a jobid, where
  \<open>m\<close> is \<open>n\<close> or one less (then SLURM may have a job of which no status file knows). The status
  of every later job is as before. Only a complete submission returns successfully.
\<close>

theorem interrupted_submission:
  assumes "plain_name (uuid_str (flow_uuid fr))" and "run_order fr = Ok order"
    and "submit (logged ex) cr r fr False w = (res, w')"
  shows "\<exists>m n. m \<le> n \<and> n \<le> Suc m \<and> n \<le> length order \<and> (is_ok res \<longrightarrow> m = length order)
    \<and> map cmd_script (snd (world.more w'))
        = map cmd_script (snd (world.more w)) @ map (batch_bash r (flow_uuid fr)) (take n order)
    \<and> (\<forall>j\<in>set (take m order). \<exists>i k text.
          toml_ser_run cr \<lparr>lifecycle = Queued, updated_at = w_clock w k, slurm_jobid = Some i, slurm_status = None,
            run_note = None\<rparr> = Ok text
          \<and> node_at (status_file r (flow_uuid fr) j) w' = Some (File text))
    \<and> (\<forall>j\<in>set (drop m order). plain_id j \<longrightarrow>
          node_at (status_file r (flow_uuid fr) j) w' = node_at (status_file r (flow_uuid fr) j) w)"
proof -
  have u: "plain_uuid (flow_uuid fr)" using assms(1) by (simp add: plain_uuid_def)
  obtain m n where h: "halted cr r fr order w w' m n" and ok: "is_ok res \<longrightarrow> m = length order"
    using submit_halts[OF u assms(2,3)] by blast
  let ?n = "min n (length order)"
  have "take ?n order = take n order" by (simp add: min_def)
  then show ?thesis
    using h ok submit_clock[OF u assms(3)] unfolding halted_def sent_def recorded_def queued_at_def
    by (intro exI[of _ m] exI[of _ ?n]) auto
qed

lemma interrupted_submission_witness:
  "\<exists>res w'. submit (logged (dry_run_executor sample_crates)) sample_crates sample_root sample_run False log_world = (res, w')
    \<and> map cmd_script (snd (world.more w'))
        = map (batch_bash sample_root sample_uuid) [JobId ''a'', JobId ''b'']
    \<and> (\<forall>j\<in>{JobId ''a'', JobId ''b''}. \<exists>text. node_at (status_file sample_root sample_uuid j) w' = Some (File text))"
proof -
  obtain submitted w' where s: "submit (logged (dry_run_executor sample_crates)) sample_crates sample_root sample_run False log_world
      = (Ok submitted, w')" by (rule sample_submit)
  have "plain_name (uuid_str (flow_uuid sample_run))" using sample_plain(1) by (simp add: plain_uuid_def)
  from interrupted_submission[OF this sample_order s] show ?thesis
    using s by (fastforce simp: log_world_quiet)
qed

end
