(* ===== verification/Spec2Isabelle.thy ===== *)
theory Spec2Isabelle
  imports Outcomes Concurrent Overlap PyModule DryRun Partial
begin

text \<open>
  A verification library for job_manager, a Rust program that submits flows of dependent jobs to
  SLURM and follows them through a tree of TOML files.

  The program. A flow is a directory \<open><root>/<uuid>\<close> with the user's \<open>flow.toml\<close> (jobs, parent
  edges, SLURM options) and \<open>plan.toml\<close> (parameters per job); \<open><root>/common.toml\<close> holds defaults.
  \<open>jm render\<close> and \<open>jm submit\<close> read them (\<open>FlowRun::read\<close>), write the snapshot
  \<open>.jm/flow.effective.toml\<close>, a \<open>batch.bash\<close> for each job, and, when they really submit, a
  \<open>status.toml\<close> for each job with the jobid that sbatch gave. \<open>jm tick\<close> reads the snapshot and the
  status files, asks SLURM for the jobs that are not finished, decides one transition for each job
  in topological order and writes the statuses back. \<open>jm ls\<close>, \<open>jm show\<close> and \<open>jm doctor\<close> only read;
  \<open>jm new\<close> writes a template.

  The theories, from the bottom up, with the code they model (paths below src/src).

  Prelude: results as sums with \<open>Ok\<close> and \<open>Err\<close>, 64-bit words, shared list lemmas. Strs: strings as
  lists of UTF-8 bytes, with the operations of \<open>str\<close> the source uses. BTree: \<open>BTreeMap\<close> as a type of
  strictly sorted entries. Paths: \<open>std::path\<close> as component lists. Domain: the types of the external
  crates the program works on, \<open>job/*.rs\<close>, \<open>plan/mod.rs\<close> and \<open>error.rs\<close>, with the record \<open>crates\<close> of
  third-party functions.

  World: the state every action threads: a file system, the clock, the process, the environment,
  the output, and a fault assignment, by which any system call may fail, a write after any number
  of bytes. An action maps a world to a result and a world. The locale \<open>world_preorder\<close> states once
  how a relation between the worlds before and after passes to compound actions; it is interpreted
  at the frame relations and at the shape relation.

  JobIds (\<open>jobid.rs\<close>), Layout (\<open>persistence/path.rs\<close>), Storage (\<open>persistence/mod.rs\<close>), Topology
  (\<open>flow/topology.rs\<close>), Persistence (the other files of \<open>persistence\<close>), Transition
  (\<open>runner/transition.rs\<close>), Render (\<open>render/mod.rs\<close>), Slurm (\<open>slurm/*.rs\<close>; the locale \<open>recorder\<close> is
  what a proof needs of an executor that keeps a log, interpreted at the mock executor and at any
  executor with a log added; \<open>steady_querier\<close> is a querier whose answers do not change), FlowRun (\<open>flow/run.rs\<close>), Submit (\<open>runner/flow.rs\<close>: \<open>submit\<close> and
  \<open>render_only\<close>), Tick (\<open>runner/flow.rs\<close>: \<open>tick\<close>), Liveness (when the two succeed).

  Display (\<open>listing/mod.rs\<close>), Search (\<open>search.rs\<close>), Reading (a calculus for actions that only read,
  without faults), Walk (\<open>walk.rs\<close>, \<open>concurrency.rs\<close>), Listing (\<open>listing/collect.rs\<close>), Format
  (\<open>listing/format.rs\<close>), View (\<open>view.rs\<close>), Doctor (\<open>doctor/*.rs\<close>), Cli (\<open>bin/jm.rs\<close>), NewFlow (what
  \<open>jm new\<close> leaves, with a calculus whose triples say that a failure has met a fault), DryRun (what a
  dry run returns), Partial (what a submission that stops half way has done), Frames (which files each command touches), History (sequences of invocations of
  \<open>jm\<close>), Outcomes (why a job is skipped, and when a flow is finished), Concurrent (interleaved atomic writes; the locale \<open>component\<close> is what a member of a set of
  processes guarantees to the others, interpreted at the writers), Overlap (a tick that other
  commands overtake), PyExport (\<open>py_export/*.rs\<close>), PyModule (the functions that
  \<open>py_export/mod.rs\<close> exports, as one type of calls). Samples: concrete instances for the witnesses.

  What is shown. For the order: when it exists, that it is topological, and what the error names.
  For the storage: writes are all or nothing under any faults, also when several writers take turns
  system call by system call; what was written is read back, and
  different files have different paths. For render: a model of the shell reads exactly the intended
  bindings from the script. For submit: the exact calls of the executor, the statuses afterwards,
  what is touched, that a missing log directory stops it before the first call, what it has done when it stops half
  way, when it succeeds.
  For tick: every change is a step of the lifecycle machine, under any faults; a successful tick
  solves an equation between old and new lifecycles; failures propagate; two ticks converge; a tick
  overtaken by other commands writes what it decided from its reads.
  Over a history of any invocations of \<open>jm\<close>, one after another, a status only moves along the
  machine (the overtaken tick shows what breaks when two of them overlap); the lifecycles after the
  first tick following a submission are a function of SLURM's answers and the dependency graph, every
  skipped job depends on a failed one at every moment, and once SLURM reports final states one tick
  finishes the flow. For the listing: which rows appear in which order, for every completion order
  of the reads. For doctor: that it reports, and what a passing report buys. For the command line:
  how tags are parsed, that the reading commands change nothing, that the snapshot gives tick back
  what render read, that \<open>jm new\<close> is all or nothing, and what a dry run returns. For the Python
  module: that its submission is the one of the command line, which plans it builds and gives back,
  where the paths it hands out lie, which exception each failure raises, and what each call may
  touch. This theory adds a property across components: doctor warns about log directories exactly
  when submit would refuse them.

  Modelling decisions. An async function is run in place; where the code reads concurrently
  (\<open>buffer_unordered\<close>) the completion order is a parameter, any permutation. A record of functions
  stands for the third-party crates: the TOML and JSON codecs, chrono, uuid, the SLURM crate's
  dependency parser; the submission and the batch query of the SLURM crate; and, for the
  Python module, the conversions of pyo3 and pythonize. A theorem that needs a
  law of them (a codec that restores what it wrote) has it as a hypothesis, and a witness at a
  concrete codec. A panic of the code is an error value with the message of the panic. The number
  of bytes a failing write has written is part of the fault. The content of a file is its bytes, and
  reading it as text fails unless they are UTF-8; since a serialised text of Rust always is, the
  theorems that read one back say so. A system call on a path without a node fails with the kind that
  Linux gives: not a directory when the path goes through a file, not found otherwise. The length
  reported for a directory is a field of the world. A path is its components; how it is spelled,
  which only the fake jobid of a dry run depends on, is a field of the record of crates. Recursion is structural or has a
  measure: no definition needs fuel, and no bound is placed on any input.

  Not modelled: \<open>JoinFailed\<close>, which only arises when a blocking task panics;
  what is written to standard error and to logs; symbolic links and permissions; two commands that
  overlap in time, beyond atomic writes and a tick overtaken by others; the registration of the
  Python module in \<open>sys.modules\<close>; \<open>recipes\<close>, which is not part of the crate's
  module tree; \<open>bin/stub_gen.rs\<close>; the argument parsing that clap derives.
\<close>

section \<open>Doctor and submit\<close>

lemma steady_preflight_one: "steady (preflight_one r fr eff j)"
  unfolding preflight_one_def by (auto split: list.split prod.split intro!: steady_intros)

lemma steady_preflight: "steady (preflight r fr order)"
  unfolding preflight_def by (rule steady_foldM[OF steady_preflight_one])

lemma val_preflight_fold:
  fixes w :: "'x world_scheme"
  assumes nf: "no_faults w" and cfg: "\<And>j. j \<in> set js \<Longrightarrow> effective_config fr j = Ok (c j)"
  shows "is_err (val (act_foldM (preflight_one r fr) eff js) w)
    \<longleftrightarrow> (\<exists>j\<in>set js. missing_of (res_root r) (c j) w \<noteq> [])"
  using cfg
proof (induction js arbitrary: eff)
  case (Cons j js)
  have one: "val (preflight_one r fr eff j) w = (case missing_of (res_root r) (c j) w of
      (field, dir) # _ \<Rightarrow> Err (LogDirMissing j field dir) | [] \<Rightarrow> Ok (bt_insert j (c j) eff))"
  proof -
    have k: "steady (case missing of (field, dir) # _ \<Rightarrow> fail (LogDirMissing j field dir)
        | [] \<Rightarrow> (ret (bt_insert j cf eff) :: ('x, (JobId, SlurmJobConfig) btree) io))" for missing cf
      by (auto split: list.split prod.split intro!: steady_intros)
    show ?thesis
      unfolding preflight_one_def Cons.prems[OF list.set_intros(1)]
        val_bind[OF steady_lift steady_bind[OF missing_log_dirs_steady k] nf]
        val_bind[OF missing_log_dirs_steady k nf]
      by (simp add: val_basic val_missing_log_dirs[OF nf] split: list.split prod.split)
  qed
  show ?case
  proof (cases "missing_of (res_root r) (c j) w")
    case Nil
    then show ?thesis
      using Cons.IH Cons.prems one by (simp add: val_foldM_Cons[OF steady_preflight_one nf] del: act_foldM.simps)
  next
    case (Cons m ms)
    then show ?thesis
      using one by (cases m) (simp add: val_foldM_Cons[OF steady_preflight_one nf] del: act_foldM.simps)
  qed
qed (simp add: val_basic)

lemma bex_keys: "(\<exists>k\<in>set (bt_keys m). P (the (bt_get m k))) \<longleftrightarrow> (\<exists>k v. bt_get m k = Some v \<and> P v)"
  by (metis bt_in_keys option.sel)

lemma merge_synth: "merge_with_defaults synth_empty_common cfg = cfg"
  by (simp add: merge_with_defaults_def synth_empty_common_def Let_def)

text \<open>
  C29. Doctor and submit agree on log directories: when no system call fails, doctor warns about the
  log directories of a flow exactly when the preflight of a real submission of it fails.
\<close>

theorem doctor_agrees_with_preflight:
  fixes w :: "'x world_scheme"
  assumes nf: "\<forall>n. w_fault w n = None" and order: "run_order fr = Ok order"
  shows "\<exists>fs w1 res w2.
      check_log_dirs_exist (res_root r) dir (run_flow fr)
        (case run_common fr of Some c \<Rightarrow> c | None \<Rightarrow> synth_empty_common) w = (Ok fs, w1)
      \<and> preflight r fr order w = (res, w2)
      \<and> (is_err res \<longleftrightarrow> (\<exists>f\<in>set fs. fi_severity f = Warn))"
proof -
  let ?cm = "case run_common fr of Some c \<Rightarrow> c | None \<Rightarrow> synth_empty_common"
  let ?c = "\<lambda>j. merge_with_defaults ?cm (config (spec (the (bt_get (jobs (run_flow fr)) j))))"
  have nf0: "no_faults w" using nf by (simp add: no_faults_def)
  have keys: "set order = set (bt_keys (jobs (run_flow fr)))" by (rule run_order_sound(2)[OF order])
  have "effective_config fr j = Ok (?c j)" if "j \<in> set order" for j
    using that keys
    by (auto simp: effective_config_def ok_or_def res_simps merge_synth bt_in_keys split: option.split)
  from val_preflight_fold[OF nf0 this, of order r bt_empty]
  have pre: "is_err (val (preflight r fr order) w) \<longleftrightarrow> (\<exists>j\<in>set order. missing_of (res_root r) (?c j) w \<noteq> [])"
    unfolding preflight_def by blast
  obtain fs where fs: "val (check_log_dirs_exist (res_root r) dir (run_flow fr) ?cm) w = Ok fs"
    "warns fs \<longleftrightarrow> (\<exists>j job. bt_get (jobs (run_flow fr)) j = Some job
       \<and> missing_of (res_root r) (merge_with_defaults ?cm (config (spec job))) w \<noteq> [])"
    using val_check_log_dirs[OF nf0, of "res_root r" dir "run_flow fr" ?cm] by blast
  have "is_err (val (preflight r fr order) w) \<longleftrightarrow> warns fs"
    unfolding pre fs(2) keys
    by (rule bex_keys[where P = "\<lambda>job. missing_of (res_root r) (merge_with_defaults ?cm (config (spec job))) w \<noteq> []"])
  moreover obtain k1 where "check_log_dirs_exist (res_root r) dir (run_flow fr) ?cm w = (Ok fs, advance k1 w)"
    using steady_run[OF checks_steady(6) nf0, of "res_root r" dir "run_flow fr" ?cm] unfolding fs(1) by blast
  moreover obtain k2 where "preflight r fr order w = (val (preflight r fr order) w, advance k2 w)"
    using steady_run[OF steady_preflight nf0] by blast
  ultimately show ?thesis unfolding warns_def by blast
qed

lemma doctor_agrees_with_preflight_witness:
  "\<exists>fs w1 res w2.
      check_log_dirs_exist (res_root sample_root) [] (run_flow sample_run)
        (case run_common sample_run of Some c \<Rightarrow> c | None \<Rightarrow> synth_empty_common) doctor_world = (Ok fs, w1)
      \<and> preflight sample_root sample_run [JobId ''a'', JobId ''b''] doctor_world = (res, w2)
      \<and> (is_err res \<longleftrightarrow> (\<exists>f\<in>set fs. fi_severity f = Warn))"
proof -
  have "run_order sample_run = Ok [JobId ''a'', JobId ''b'']" by code_simp
  moreover have "\<forall>n. w_fault doctor_world n = None" by (simp add: doctor_world_def quiet_world_def)
  ultimately show ?thesis using doctor_agrees_with_preflight by blast
qed

end
